(* ===== verification/Ktls_Prelude.thy ===== *)
theory Ktls_Prelude
  imports Main "HOL-Library.Word"
begin

text \<open>
  What every component of the model shares: the C types, the way a failing call is
  represented, C memory operations on byte arrays and C string functions, and the
  interface of everything that consumes a byte stream piece by piece.

  A C function that can fail returns \<open>failure + 'a\<close> together with the state it leaves
  behind: \<open>Inl (Say s)\<close> is a return of -1, NULL or 0 after \<open>ktls_say (s)\<close>,
  \<open>Inl (Fail s)\<close> one after \<open>ktls_fail (s)\<close>.
\<close>

unbundle bit_operations_syntax

section \<open>C types\<close>

type_synonym u8 = "8 word"
type_synonym u16 = "16 word"
type_synonym u64 = "64 word"
type_synonym bytes = "u8 list"

datatype failure = Say string | Fail string

text \<open>\<open>(int) n\<close> for a \<open>size_t\<close> n: the low 32 bits, read as two's complement.\<close>

definition c_int :: "nat \<Rightarrow> int" where
  "c_int n = sint (of_nat n :: 32 word)"

lemma c_int_small [simp]: "n < 2147483648 \<Longrightarrow> c_int n = int n"
  by (simp add: c_int_def signed_of_nat signed_take_bit_int_eq_self)

lemma of_nat_neq_word:
  assumes "n < unat w"
  shows "of_nat n \<noteq> (w :: 'a::len word)"
proof
  assume "of_nat n = w"
  then have "unat w = n mod 2 ^ LENGTH('a)" by (metis unat_of_nat)
  with assms show False by (metis mod_less_eq_dividend not_less)
qed

section \<open>Memory and strings\<close>

named_theorems mem_simps

text \<open>\<open>memcpy (dst + at, src, length src)\<close> into an array modelled as a list.\<close>

definition memcpy_at :: "'a list \<Rightarrow> nat \<Rightarrow> 'a list \<Rightarrow> 'a list" where
  "memcpy_at dst at src = take at dst @ src @ drop (at + length src) dst"

lemma memcpy_at_Nil [mem_simps]: "memcpy_at dst at [] = dst"
  by (simp add: memcpy_at_def)

lemma length_memcpy_at [mem_simps]:
  "at + length src \<le> length dst \<Longrightarrow> length (memcpy_at dst at src) = length dst"
  by (simp add: memcpy_at_def)

lemma memcpy_at_single:
  "at < length dst \<Longrightarrow> memcpy_at dst at [b] = dst[at := b]"
  by (simp add: memcpy_at_def upd_conv_take_nth_drop)

lemma memcpy_at_append:
  assumes "at + length xs + length ys \<le> length dst"
  shows "memcpy_at (memcpy_at dst at xs) (at + length xs) ys = memcpy_at dst at (xs @ ys)"
  using assms by (simp add: memcpy_at_def ac_simps)

lemma take_memcpy_at_0 [mem_simps]: "take (length src) (memcpy_at dst 0 src) = src"
  by (simp add: memcpy_at_def)

lemma take_append_take: "take k (take k us @ zs) = take k (us @ zs)"
  by (cases "length us < k") simp_all

lemma dropWhile_neq_absent: "x \<notin> set xs \<Longrightarrow> dropWhile (\<lambda>c. c \<noteq> x) xs = []"
  by (induction xs) auto

text \<open>\<open>tolower\<close> in the C locale, and \<open>strcasecmp (a, b) == 0\<close>, the only question asked of it.\<close>

definition to_lower :: "char \<Rightarrow> char" where
  "to_lower c = (if 65 \<le> (of_char c :: nat) \<and> (of_char c :: nat) \<le> 90
                 then char_of ((of_char c :: nat) + 32) else c)"

definition strcaseeq :: "string \<Rightarrow> string \<Rightarrow> bool" where
  "strcaseeq a b \<longleftrightarrow> map to_lower a = map to_lower b"

lemma strcaseeq_refl [simp]: "strcaseeq a a"
  by (simp add: strcaseeq_def)

lemma strcaseeq_sym: "strcaseeq a b \<Longrightarrow> strcaseeq b a"
  by (simp add: strcaseeq_def)

lemma strcaseeq_trans: "strcaseeq a b \<Longrightarrow> strcaseeq b c \<Longrightarrow> strcaseeq a c"
  by (simp add: strcaseeq_def)

text \<open>\<open>snprintf (buf, cap, "%s", s)\<close>: at most \<open>cap - 1\<close> characters survive.\<close>

definition snprintf_s :: "nat \<Rightarrow> string \<Rightarrow> string" where
  "snprintf_s cap s = take (cap - 1) s"

lemma length_snprintf_s: "length (snprintf_s cap s) \<le> cap - 1"
  by (simp add: snprintf_s_def)

section \<open>Consumers of a byte stream\<close>

text \<open>
  The contract of everything here that is handed a stream in pieces of the caller's
  choosing: what it holds afterwards depends on the bytes and not on where the pieces
  were cut. \<open>ok\<close> is the state invariant the contract is promised under.
\<close>

locale stream_consumer =
  fixes consume :: "'s \<Rightarrow> 'b list \<Rightarrow> 's"
    and ok :: "'s \<Rightarrow> bool"
  assumes consume_Nil: "consume s [] = s"
    and consume_append: "ok s \<Longrightarrow> consume (consume s p) q = consume s (p @ q)"
    and consume_ok: "ok s \<Longrightarrow> ok (consume s p)"
begin

lemma consume_pieces: "ok s \<Longrightarrow> foldl consume s ps = consume s (concat ps)"
  by (induction ps arbitrary: s) (simp_all add: consume_Nil consume_append consume_ok)

lemma consume_pieces_ok: "ok s \<Longrightarrow> ok (foldl consume s ps)"
  by (simp add: consume_pieces consume_ok)

lemma consume_recut:
  "ok s \<Longrightarrow> concat ps = concat qs \<Longrightarrow> foldl consume s ps = foldl consume s qs"
  by (simp add: consume_pieces)

end

end
