(* ===== verification/Ktls_Record_Types.thy ===== *)
theory Ktls_Record_Types
  imports Ktls_Prelude
begin

text \<open>
  The kind of a record on an offloaded socket: \<open>ktls_record\<close> of include/ktls.h and its
  translation to and from RFC 8446's ContentType byte in src/ktls.c (the Linux control
  message, one byte).
\<close>

datatype ktls_record =
    KTLS_RECORD_DATA | KTLS_RECORD_ALERT | KTLS_RECORD_HANDSHAKE | KTLS_RECORD_UNKNOWN

definition ktls_record_of :: "nat \<Rightarrow> ktls_record" where
  "ktls_record_of type =
     (if type = 21 then KTLS_RECORD_ALERT
      else if type = 22 then KTLS_RECORD_HANDSHAKE
      else if type = 23 then KTLS_RECORD_DATA
      else KTLS_RECORD_UNKNOWN)"

fun ktls_type_of :: "ktls_record \<Rightarrow> int" where
  "ktls_type_of KTLS_RECORD_ALERT = 21"
| "ktls_type_of KTLS_RECORD_HANDSHAKE = 22"
| "ktls_type_of KTLS_RECORD_DATA = 23"
| "ktls_type_of KTLS_RECORD_UNKNOWN = -1"

text \<open>
  \<open>out\<close> is NULL or an array of \<open>cap\<close> bytes; the result is the return value and the array.
\<close>

definition ktls_record_type_encode ::
    "ktls_record \<Rightarrow> bytes option \<Rightarrow> nat \<Rightarrow> nat \<times> bytes option" where
  "ktls_record_type_encode kind out cap =
     (let type = ktls_type_of kind
      in case out of
           None \<Rightarrow> (0, out)
         | Some buf \<Rightarrow>
             if type < 0 \<or> cap < 1 then (0, out)
             else (1, Some (memcpy_at buf 0 [of_int type])))"

text \<open>\<open>cmsg_data\<close> is NULL or points at \<open>len\<close> bytes.\<close>

definition ktls_record_type :: "bytes option \<Rightarrow> nat \<Rightarrow> ktls_record" where
  "ktls_record_type cmsg_data len =
     (case cmsg_data of
        None \<Rightarrow> KTLS_RECORD_UNKNOWN
      | Some d \<Rightarrow> if len < 1 then KTLS_RECORD_UNKNOWN else ktls_record_of (unat (hd d)))"

text \<open>The codec: a kind with a number comes back from the byte it is spelled as.\<close>

lemma record_of_type_of: "0 \<le> ktls_type_of k \<Longrightarrow> ktls_record_of (nat (ktls_type_of k)) = k"
  by (cases k) (simp_all add: ktls_record_of_def)

lemma type_of_record_of:
  "ktls_record_of n \<noteq> KTLS_RECORD_UNKNOWN \<Longrightarrow> ktls_type_of (ktls_record_of n) = int n"
  by (simp add: ktls_record_of_def split: if_splits)

lemma type_of_byte: "0 \<le> ktls_type_of k \<Longrightarrow> unat (of_int (ktls_type_of k) :: u8) = nat (ktls_type_of k)"
  by (cases k) simp_all

lemma encode_decode:
  assumes "1 \<le> length buf" "k \<noteq> KTLS_RECORD_UNKNOWN"
  obtains buf' where
    "ktls_record_type_encode k (Some buf) (length buf) = (1, Some buf')"
    "length buf' = length buf" "ktls_record_type (Some buf') 1 = k"
proof
  from assms(2) have pos: "0 \<le> ktls_type_of k" by (cases k) simp_all
  let ?b = "memcpy_at buf 0 [of_int (ktls_type_of k)]"
  show "ktls_record_type_encode k (Some buf) (length buf) = (1, Some ?b)"
    using assms(1) pos by (auto simp: ktls_record_type_encode_def)
  show "length ?b = length buf" using assms(1) by (simp add: mem_simps)
  show "ktls_record_type (Some ?b) 1 = k"
    using pos by (simp add: ktls_record_type_def memcpy_at_def type_of_byte record_of_type_of)
qed

section \<open>Properties\<close>

text \<open>
  The two directions of the record type agree on every byte: a kind the library knows is
  written as one byte that reads back as that kind, and a byte that reads as a known kind
  is the byte that kind is written as; what it does not know it refuses to write.
\<close>

theorem record_type_codec:
  "(let (n, out) = ktls_record_type_encode kind (Some (b # buf)) (Suc (length buf))
    in ktls_record_type out n = kind \<and> (n = 0 \<longleftrightarrow> kind = KTLS_RECORD_UNKNOWN) \<and>
       map_option length out = Some (Suc (length buf))) \<and>
   (if ktls_record_type (Some [b]) 1 = KTLS_RECORD_UNKNOWN
    then fst (ktls_record_type_encode (ktls_record_type (Some [b]) 1) (Some [c]) 1) = 0
    else ktls_record_type_encode (ktls_record_type (Some [b]) 1) (Some [c]) 1 = (1, Some [b]))"
proof (intro conjI)
  show "let (n, out) = ktls_record_type_encode kind (Some (b # buf)) (Suc (length buf))
    in ktls_record_type out n = kind \<and> (n = 0 \<longleftrightarrow> kind = KTLS_RECORD_UNKNOWN) \<and>
       map_option length out = Some (Suc (length buf))"
    by (cases kind)
      (simp_all add: ktls_record_type_encode_def ktls_record_type_def ktls_record_of_def
        memcpy_at_def)
  have "(of_int (ktls_type_of (ktls_record_of (unat b))) :: u8) = b"
    if "ktls_record_of (unat b) \<noteq> KTLS_RECORD_UNKNOWN"
    by (simp add: type_of_record_of [OF that])
  moreover have "\<not> ktls_type_of (ktls_record_of (unat b)) < 0"
    if "ktls_record_of (unat b) \<noteq> KTLS_RECORD_UNKNOWN"
    by (simp add: type_of_record_of [OF that])
  ultimately show "if ktls_record_type (Some [b]) 1 = KTLS_RECORD_UNKNOWN
    then fst (ktls_record_type_encode (ktls_record_type (Some [b]) 1) (Some [c]) 1) = 0
    else ktls_record_type_encode (ktls_record_type (Some [b]) 1) (Some [c]) 1 = (1, Some [b])"
    by (simp add: ktls_record_type_def ktls_record_type_encode_def memcpy_at_def)
qed

end
