(* ===== verification/Ktls_Errors.thy ===== *)
theory Ktls_Errors
  imports Ktls_Prelude
begin

text \<open>
  The last failure of a thread: \<open>ktls_err\<close>, \<open>ktls_fail\<close>, \<open>ktls_say\<close> and
  \<open>ktls_last_error\<close> of src/ktls.c. OpenSSL's per-thread error queue and \<open>errno\<close> are
  part of the state, since \<open>ktls_fail\<close> takes the oldest queued error off the queue and
  reads \<open>errno\<close> only when the queue is empty.

  What OpenSSL and the C library say is a parameter: the text of an error code
  (\<open>ERR_error_string_n\<close>) and of an errno value (\<open>strerror\<close>), and the codes OpenSSL
  queues when the call reported under a name fails.
\<close>

record err_lib =
  err_string_n :: "nat \<Rightarrow> nat \<Rightarrow> string"   \<comment> \<open>code, size of the buffer\<close>
  strerror :: "int \<Rightarrow> string"
  fail_codes :: "string \<Rightarrow> nat list"

record thread_err =
  te_text :: string        \<comment> \<open>\<open>ktls_err[256]\<close>, up to its terminator\<close>
  te_queue :: "nat list"   \<comment> \<open>OpenSSL's queue, oldest first; every code is non-zero\<close>
  te_errno :: int

definition thread_err_zero :: thread_err where
  "thread_err_zero = \<lparr> te_text = [], te_queue = [], te_errno = 0 \<rparr>"

text \<open>\<open>ERR_get_error\<close>: the oldest code, removed; 0 when there is none.\<close>

definition ERR_get_error :: "thread_err \<Rightarrow> nat \<times> thread_err" where
  "ERR_get_error t = (case te_queue t of [] \<Rightarrow> (0, t) | e # es \<Rightarrow> (e, t\<lparr> te_queue := es \<rparr>))"

definition ktls_fail :: "'z err_lib_scheme \<Rightarrow> string \<Rightarrow> thread_err \<Rightarrow> thread_err" where
  "ktls_fail lib what t =
     (let (e, t') = ERR_get_error t
      in if e \<noteq> 0 then t'\<lparr> te_text := snprintf_s 256 (what @ '': '' @ err_string_n lib e 160) \<rparr>
         else t'\<lparr> te_text := snprintf_s 256 (what @ '': '' @ strerror lib (te_errno t')) \<rparr>)"

definition ktls_say :: "string \<Rightarrow> thread_err \<Rightarrow> thread_err" where
  "ktls_say what t = t\<lparr> te_text := snprintf_s 256 what \<rparr>"

definition ktls_last_error :: "thread_err \<Rightarrow> string" where
  "ktls_last_error t = (if te_text t \<noteq> [] then te_text t else ''no failure recorded'')"

text \<open>An OpenSSL call that failed, reported under \<open>what\<close>; a system call that failed with \<open>e\<close>.\<close>

definition openssl_failed :: "'z err_lib_scheme \<Rightarrow> string \<Rightarrow> thread_err \<Rightarrow> thread_err" where
  "openssl_failed lib what t = ktls_fail lib what (t\<lparr> te_queue := te_queue t @ fail_codes lib what \<rparr>)"

definition syscall_failed :: "'z err_lib_scheme \<Rightarrow> int \<Rightarrow> string \<Rightarrow> thread_err \<Rightarrow> thread_err" where
  "syscall_failed lib e what t = ktls_fail lib what (t\<lparr> te_errno := e \<rparr>)"

text \<open>How a failure value of the model reaches the thread.\<close>

fun report :: "'z err_lib_scheme \<Rightarrow> failure \<Rightarrow> thread_err \<Rightarrow> thread_err" where
  "report lib (Say s) t = ktls_say s t"
| "report lib (Fail s) t = openssl_failed lib s t"

lemma ktls_fail_text:
  "te_text (ktls_fail lib what t) = take 255 (what @ '': '' @
     (case te_queue t of e # _ \<Rightarrow> if e \<noteq> 0 then err_string_n lib e 160 else strerror lib (te_errno t)
      | [] \<Rightarrow> strerror lib (te_errno t)))"
  by (simp add: ktls_fail_def ERR_get_error_def snprintf_s_def split: list.split)

lemma ktls_fail_queue: "te_queue (ktls_fail lib what t) = tl (te_queue t)"
  by (simp add: ktls_fail_def ERR_get_error_def split: list.split)

lemma ktls_say_sel [simp]:
  "te_queue (ktls_say s t) = te_queue t" "te_text (ktls_say s t) = take 255 s"
  by (simp_all add: ktls_say_def snprintf_s_def)

lemma report_text:
  "te_text (report lib f t) = take 255 (case f of Say s \<Rightarrow> s
     | Fail s \<Rightarrow> s @ drop (length s) (te_text (report lib f t)))"
proof (cases f)
  case (Say s)
  then show ?thesis by (simp add: min_def)
next
  case (Fail s)
  have "\<exists>z. te_text (report lib f t) = take 255 (s @ z)"
    using Fail by (auto simp: openssl_failed_def ktls_fail_text)
  then obtain z where z: "te_text (report lib f t) = take 255 (s @ z)" ..
  then have "take 255 (s @ drop (length s) (take 255 (s @ z))) = take 255 (s @ z)"
    by (cases "length s \<le> 255") (simp_all add: drop_take)
  with z Fail show ?thesis by (simp only: failure.case)
qed

section \<open>Properties\<close>

text \<open>
  A system call that fails is reported with the text of \<open>errno\<close> only when OpenSSL's queue
  is empty. An error somebody left there is reported in its place, and taken off the queue,
  so that the message names the wrong cause.
\<close>

theorem syscall_reports_stale_error:
  "te_text (syscall_failed lib e what t) = take 255 (what @ '': '' @
     (if te_queue t = [] \<or> hd (te_queue t) = 0 then strerror lib e
      else err_string_n lib (hd (te_queue t)) 160)) \<and>
   te_queue (syscall_failed lib e what t) = tl (te_queue t)"
  by (cases "te_queue t") (simp_all add: syscall_failed_def ktls_fail_text ktls_fail_queue)

text \<open>
  The text of the last failure never outgrows its 256 bytes, \<open>ktls_last_error\<close> never
  answers with an empty text, and after a failure with a message of the library's own it
  answers with that message.
\<close>

theorem last_error_text:
  "ktls_last_error t \<noteq> [] \<and> length (te_text (report lib f t)) \<le> 255 \<and>
   ktls_last_error (ktls_say (m # msg) t) = take 255 (m # msg) \<and>
   ktls_last_error thread_err_zero = ''no failure recorded''"
  by (cases f)
    (auto simp: ktls_last_error_def thread_err_zero_def openssl_failed_def ktls_fail_text)

end
