(* ===== verification/Ktls_Host.thy ===== *)
theory Ktls_Host
  imports Ktls_Prelude
begin

text \<open>
  Which certificate a server_name picks: \<open>ktls_host_matches\<close> of src/ktls.c (RFC 6066 3,
  RFC 6125 6.4.3), with \<open>strchr\<close> and \<open>strcasecmp\<close> on C strings as lists of characters.
\<close>

definition ktls_host_matches :: "string \<Rightarrow> string \<Rightarrow> bool" where
  "ktls_host_matches pattern name =
     (if take 2 pattern = ''*.'' then
        (case dropWhile (\<lambda>c. c \<noteq> CHR ''.'') name of
           [] \<Rightarrow> False
         | _ # after_dot \<Rightarrow> strcaseeq after_dot (drop 2 pattern))
      else strcaseeq pattern name)"

text \<open>The parts of a name around its first dot.\<close>

lemma first_dot:
  assumes "CHR ''.'' \<in> set name"
  obtains label rest where "name = label @ CHR ''.'' # rest" "CHR ''.'' \<notin> set label"
  using assms by (metis split_list_first)

lemma dropWhile_first_dot:
  "CHR ''.'' \<notin> set label \<Longrightarrow> dropWhile (\<lambda>c. c \<noteq> CHR ''.'') (label @ CHR ''.'' # rest) = CHR ''.'' # rest"
  by (subst dropWhile_append2) auto

lemma host_matches_wildcard:
  "take 2 pattern = ''*.'' \<Longrightarrow> ktls_host_matches pattern name \<longleftrightarrow>
     dropWhile (\<lambda>c. c \<noteq> CHR ''.'') name \<noteq> [] \<and>
     map to_lower (tl (dropWhile (\<lambda>c. c \<noteq> CHR ''.'') name)) = map to_lower (drop 2 pattern)"
  by (cases "dropWhile (\<lambda>c. c \<noteq> CHR ''.'') name")
    (simp_all only: ktls_host_matches_def strcaseeq_def simp_thms if_True list.case list.sel list.distinct)

lemma strcaseeq_length: "strcaseeq a b \<Longrightarrow> length a = length b"
  unfolding strcaseeq_def by (metis length_map)

lemma dot_split_unique:
  assumes "l @ CHR ''.'' # r = l' @ CHR ''.'' # r'" "CHR ''.'' \<notin> set l" "CHR ''.'' \<notin> set l'"
  shows "l = l' \<and> r = r'"
proof -
  have "CHR ''.'' # r = CHR ''.'' # r'"
    using assms dropWhile_first_dot [of l r] dropWhile_first_dot [of l' r'] by metis
  with assms(1) show ?thesis by simp
qed

lemma host_matches_wild_one_label:
  "CHR ''.'' \<notin> set label \<Longrightarrow>
     ktls_host_matches (CHR ''*'' # CHR ''.'' # suffix) (label @ CHR ''.'' # rest) \<longleftrightarrow>
     strcaseeq rest suffix"
  by (simp add: ktls_host_matches_def dropWhile_first_dot)

lemma host_matches_wild:
  "ktls_host_matches (CHR ''*'' # CHR ''.'' # suffix) name \<longleftrightarrow>
     (\<exists>label rest. name = label @ CHR ''.'' # rest \<and> CHR ''.'' \<notin> set label \<and> strcaseeq rest suffix)"
proof (cases "CHR ''.'' \<in> set name")
  case True
  then obtain l r where name: "name = l @ CHR ''.'' # r" and l: "CHR ''.'' \<notin> set l"
    by (rule first_dot)
  have "l = label \<and> r = rest"
    if "name = label @ CHR ''.'' # rest" "CHR ''.'' \<notin> set label" for label rest
    using that name l by (intro dot_split_unique) simp_all
  moreover have "ktls_host_matches (CHR ''*'' # CHR ''.'' # suffix) name \<longleftrightarrow> strcaseeq r suffix"
    unfolding name by (rule host_matches_wild_one_label [OF l])
  ultimately show ?thesis using name l by metis
next
  case False
  then have "dropWhile (\<lambda>c. c \<noteq> CHR ''.'') name = []" by (rule dropWhile_neq_absent)
  then have "\<not> ktls_host_matches (CHR ''*'' # CHR ''.'' # suffix) name"
    by (subst host_matches_wildcard) simp_all
  moreover have "CHR ''.'' \<in> set name" if "name = label @ CHR ''.'' # rest" for label rest
    unfolding that by simp
  ultimately show ?thesis using False by blast
qed

lemma host_matches_plain:
  "take 2 pattern \<noteq> ''*.'' \<Longrightarrow> ktls_host_matches pattern name \<longleftrightarrow> strcaseeq pattern name"
  by (simp add: ktls_host_matches_def)

lemma host_matches_wild_length:
  "ktls_host_matches (CHR ''*'' # CHR ''.'' # suffix) name \<Longrightarrow> length suffix < length name"
  by (auto simp: host_matches_wild dest: strcaseeq_length)

lemma host_matches_wild_two_labels:
  "\<not> ktls_host_matches (CHR ''*'' # CHR ''.'' # suffix) (label @ CHR ''.'' # label2 @ CHR ''.'' # suffix)"
proof
  assume "ktls_host_matches (CHR ''*'' # CHR ''.'' # suffix) (label @ CHR ''.'' # label2 @ CHR ''.'' # suffix)"
  then obtain l r where split: "label @ CHR ''.'' # label2 @ CHR ''.'' # suffix = l @ CHR ''.'' # r"
    and l: "CHR ''.'' \<notin> set l" and r: "strcaseeq r suffix"
    by (auto simp: host_matches_wild)
  have "length l \<le> length label"
  proof (rule ccontr)
    assume "\<not> length l \<le> length label"
    then have "(label @ CHR ''.'' # label2 @ CHR ''.'' # suffix) ! length label \<in> set l"
      unfolding split by (simp add: nth_append)
    with l show False by simp
  qed
  moreover have "length label + length label2 + length suffix + 2 = length l + length r + 1"
    using arg_cong [OF split, of length] by simp
  ultimately have "length r > length suffix" by linarith
  with strcaseeq_length [OF r] show False by simp
qed

lemma host_matches_case:
  assumes "strcaseeq name name'"
  shows "ktls_host_matches pattern name \<longleftrightarrow> ktls_host_matches pattern name'"
proof (cases "take 2 pattern = ''*.''")
  case False
  with assms show ?thesis by (auto simp: ktls_host_matches_def strcaseeq_def)
next
  case True
  have dot: "to_lower c = CHR ''.'' \<longleftrightarrow> c = CHR ''.''" for c
  proof (cases "65 \<le> (of_char c :: nat) \<and> (of_char c :: nat) \<le> 90")
    case True
    then have "(of_char (to_lower c) :: nat) \<noteq> of_char (CHR ''.'')" "c \<noteq> CHR ''.''"
      by (auto simp: to_lower_def)
    then show ?thesis by auto
  next
    case False
    then have "to_lower c = c" unfolding to_lower_def by (rule if_not_P)
    then show ?thesis by simp
  qed
  have drop: "map to_lower (dropWhile (\<lambda>c. c \<noteq> CHR ''.'') n) =
      dropWhile (\<lambda>c. c \<noteq> CHR ''.'') (map to_lower n)" for n
    by (simp add: dropWhile_map o_def dot)
  have "map to_lower (dropWhile (\<lambda>c. c \<noteq> CHR ''.'') name) =
      map to_lower (dropWhile (\<lambda>c. c \<noteq> CHR ''.'') name')"
    using assms by (simp add: drop strcaseeq_def)
  then have "dropWhile (\<lambda>c. c \<noteq> CHR ''.'') name = [] \<longleftrightarrow>
      dropWhile (\<lambda>c. c \<noteq> CHR ''.'') name' = []"
    "map to_lower (tl (dropWhile (\<lambda>c. c \<noteq> CHR ''.'') name)) =
      map to_lower (tl (dropWhile (\<lambda>c. c \<noteq> CHR ''.'') name'))"
    by (metis Nil_is_map_conv, metis map_tl)
  then show ?thesis by (simp only: host_matches_wildcard [OF True])
qed

section \<open>Properties\<close>

text \<open>
  A pattern "*.suffix" matches a name exactly when the name is one label without a dot, a
  dot, and the suffix in any letter case. The label may be empty: ".example.com" is matched by
  "*.example.com", although the comment above the function says exactly one label.
\<close>

theorem host_wildcard:
  "ktls_host_matches (CHR ''*'' # CHR ''.'' # suffix) name \<longleftrightarrow>
     (\<exists>label rest. name = label @ CHR ''.'' # rest \<and> CHR ''.'' \<notin> set label \<and>
        map to_lower rest = map to_lower suffix)"
  by (simp only: host_matches_wild strcaseeq_def)

text \<open>
  The examples of the comment, for every suffix and any labels: "*.s" matches neither
  "s" itself nor a name with two labels in front of "s", and the letter case of the name
  never matters.
\<close>

theorem host_one_label_only:
  "\<not> ktls_host_matches (CHR ''*'' # CHR ''.'' # suffix) suffix \<and>
   \<not> ktls_host_matches (CHR ''*'' # CHR ''.'' # suffix)
        (label @ CHR ''.'' # label2 @ CHR ''.'' # suffix) \<and>
   ktls_host_matches pattern (map to_lower name) = ktls_host_matches pattern name"
proof (intro conjI)
  show "\<not> ktls_host_matches (CHR ''*'' # CHR ''.'' # suffix) suffix"
    using host_matches_wild_length by blast
  show "\<not> ktls_host_matches (CHR ''*'' # CHR ''.'' # suffix)
        (label @ CHR ''.'' # label2 @ CHR ''.'' # suffix)"
    by (rule host_matches_wild_two_labels)
  have "to_lower (to_lower c) = to_lower c" for c
  proof (cases "65 \<le> (of_char c :: nat) \<and> (of_char c :: nat) \<le> 90")
    case True
    then have "(of_char (to_lower c) :: nat) = of_char c + 32" by (simp add: to_lower_def)
    then show ?thesis using True by (simp only: to_lower_def [of "to_lower c"]) simp
  next
    case False
    then have "to_lower c = c" unfolding to_lower_def by (rule if_not_P)
    then show ?thesis by simp
  qed
  then have "strcaseeq (map to_lower name) name" by (simp add: strcaseeq_def)
  then show "ktls_host_matches pattern (map to_lower name) = ktls_host_matches pattern name"
    by (rule host_matches_case)
qed

end
