(* ===== verification/Ktls_Alpn.thy ===== *)
theory Ktls_Alpn
  imports Ktls_Prelude
begin

text \<open>
  The ALPN answer of src/ktls.c: the list a server keeps (\<open>unsigned char alpn[256]\<close> and
  \<open>alpn_len\<close>, one length byte before every name), the loop of \<open>ktls_keys_set_alpn\<close> that
  writes it, and \<open>ktls_alpn_pick\<close>, which reads it against the list a ClientHello carries.
  Reading past either array is a result of its own.
\<close>

section \<open>Writing the list\<close>

text \<open>
  The loop of \<open>ktls_keys_set_alpn\<close> over the protocol names (their bytes): \<open>None\<close> where a
  name is empty, longer than 255 or does not fit, with what was written until then.
\<close>

fun alpn_write :: "bytes list \<Rightarrow> bytes \<Rightarrow> nat \<Rightarrow> nat option \<times> bytes" where
  "alpn_write [] alpn n = (Some n, alpn)"
| "alpn_write (p # ps) alpn n =
     (let l = length p
      in if l = 0 \<or> 255 < l \<or> 256 < n + 1 + l then (None, alpn)
         else alpn_write ps (memcpy_at (alpn[n := of_nat l]) (n + 1) p) (n + 1 + l))"

text \<open>A list of names in wire format.\<close>

definition alpn_name :: "bytes \<Rightarrow> bytes" where
  "alpn_name p = of_nat (length p) # p"

definition alpn_wire :: "bytes list \<Rightarrow> bytes" where
  "alpn_wire ps = concat (map alpn_name ps)"

definition alpn_names_ok :: "bytes list \<Rightarrow> bool" where
  "alpn_names_ok ps \<longleftrightarrow> (\<forall>p \<in> set ps. p \<noteq> [] \<and> length p \<le> 255)"

lemma alpn_wire_simps [simp]:
  "alpn_wire [] = []" "alpn_wire (p # ps) = of_nat (length p) # p @ alpn_wire ps"
  by (simp_all add: alpn_wire_def alpn_name_def)

lemma alpn_write_step:
  assumes "length alpn = 256" "n + 1 + length p \<le> 256"
  shows "memcpy_at (alpn[n := b]) (n + 1) p = memcpy_at alpn n (b # p)"
  using assms memcpy_at_append [of n "[b]" p alpn] memcpy_at_single [of n alpn b] by simp

lemma alpn_write_ok:
  assumes "alpn_names_ok ps" "n + length (alpn_wire ps) \<le> 256" "length alpn = 256"
  shows "alpn_write ps alpn n = (Some (n + length (alpn_wire ps)), memcpy_at alpn n (alpn_wire ps))"
  using assms
proof (induction ps arbitrary: alpn n)
  case Nil
  then show ?case by (simp add: memcpy_at_Nil)
next
  case (Cons p ps)
  let ?a = "memcpy_at alpn n (of_nat (length p) # p)"
  have fit: "n + 1 + length p \<le> 256" "alpn_names_ok ps" "p \<noteq> []" "length p \<le> 255"
    using Cons.prems by (auto simp: alpn_names_ok_def)
  have "alpn_write (p # ps) alpn n = alpn_write ps ?a (n + 1 + length p)"
    using fit Cons.prems(3) alpn_write_step [of alpn n p] by (simp add: Let_def)
  also have "\<dots> = (Some (n + 1 + length p + length (alpn_wire ps)),
      memcpy_at ?a (n + 1 + length p) (alpn_wire ps))"
    using fit Cons.prems by (intro Cons.IH) (simp_all add: length_memcpy_at)
  also have "memcpy_at ?a (n + 1 + length p) (alpn_wire ps) = memcpy_at alpn n (alpn_wire (p # ps))"
    using Cons.prems memcpy_at_append [of n "of_nat (length p) # p" "alpn_wire ps" alpn] by simp
  finally show ?case by simp
qed

lemma alpn_write_Some:
  "fst (alpn_write ps alpn n) = Some m \<Longrightarrow> n \<le> 256 \<Longrightarrow>
     alpn_names_ok ps \<and> m = n + length (alpn_wire ps) \<and> m \<le> 256"
  by (induction ps arbitrary: alpn n) (force simp: alpn_names_ok_def Let_def split: if_splits)+

lemma alpn_write_length:
  "length alpn = 256 \<Longrightarrow> length (snd (alpn_write ps alpn n)) = 256"
  by (induction ps arbitrary: alpn n) (simp_all add: Let_def length_memcpy_at)

section \<open>Picking a name\<close>

text \<open>
  \<open>AlpnOk j n\<close>: \<open>*out\<close> points at \<open>in + j\<close> and \<open>*outlen\<close> is \<open>n\<close>. \<open>AlpnOverread\<close>: one of the
  two arrays was read past its end.
\<close>

datatype alpn_result = AlpnOk nat nat | AlpnNoack | AlpnOverread

text \<open>The inner loop, over the client's list, for our name at offset \<open>i\<close>.\<close>

function alpn_inner :: "bytes \<Rightarrow> nat \<Rightarrow> bytes \<Rightarrow> nat \<Rightarrow> alpn_result" where
  "alpn_inner alpn i input j =
     (if j < length input then
        (let n = unat (alpn ! i)
         in if input ! j = alpn ! i
            then (if length input < j + 1 + n \<or> length alpn < i + 1 + n then AlpnOverread
                  else if take n (drop (j + 1) input) = take n (drop (i + 1) alpn)
                  then AlpnOk (j + 1) n
                  else alpn_inner alpn i input (j + 1 + unat (input ! j)))
            else alpn_inner alpn i input (j + 1 + unat (input ! j)))
      else AlpnNoack)"
  by pat_completeness auto
termination
  by (relation "measure (\<lambda>(alpn, i, input, j). length input - j)") auto

declare alpn_inner.simps [simp del]

text \<open>The outer loop, over our list.\<close>

function alpn_outer :: "bytes \<Rightarrow> nat \<Rightarrow> nat \<Rightarrow> bytes \<Rightarrow> alpn_result" where
  "alpn_outer alpn alpn_len i input =
     (if i < alpn_len then
        (if length alpn \<le> i then AlpnOverread
         else (case alpn_inner alpn i input 0 of
                 AlpnNoack \<Rightarrow> alpn_outer alpn alpn_len (i + 1 + unat (alpn ! i)) input
               | r \<Rightarrow> r))
      else AlpnNoack)"
  by pat_completeness auto
termination
  by (relation "measure (\<lambda>(alpn, alpn_len, i, input). alpn_len - i)") auto

declare alpn_outer.simps [simp del]

definition ktls_alpn_pick :: "bytes \<Rightarrow> nat \<Rightarrow> bytes \<Rightarrow> alpn_result" where
  "ktls_alpn_pick alpn alpn_len input = alpn_outer alpn alpn_len 0 input"

section \<open>What is picked\<close>

text \<open>The first name of ours that the client also has, and where it stands in the client's list.\<close>

fun alpn_position :: "bytes \<Rightarrow> nat \<Rightarrow> bytes list \<Rightarrow> nat option" where
  "alpn_position p j [] = None"
| "alpn_position p j (q # qs) =
     (if p = q then Some (j + 1) else alpn_position p (j + 1 + length q) qs)"

fun alpn_choice :: "bytes list \<Rightarrow> bytes list \<Rightarrow> alpn_result" where
  "alpn_choice [] offered = AlpnNoack"
| "alpn_choice (p # ps) offered =
     (case alpn_position p 0 offered of
        Some j \<Rightarrow> AlpnOk j (length p)
      | None \<Rightarrow> alpn_choice ps offered)"

lemma alpn_position_None: "alpn_position p j qs = None \<longleftrightarrow> p \<notin> set qs"
  by (induction qs arbitrary: j) auto

lemma alpn_position_Some: "alpn_position p j qs = Some k \<Longrightarrow> p \<in> set qs"
  by (metis alpn_position_None option.distinct(1))

lemma alpn_position_bytes:
  "alpn_position p (length pre) qs = Some j \<Longrightarrow>
     take (length p) (drop j (pre @ alpn_wire qs)) = p"
proof (induction qs arbitrary: pre)
  case Nil
  then show ?case by simp
next
  case (Cons q qs)
  then show ?case
    using Cons.IH [of "pre @ of_nat (length q) # q"] by (auto split: if_splits)
qed

lemma unat_name_length: "length p \<le> 255 \<Longrightarrow> unat (of_nat (length p) :: u8) = length p"
  by (simp add: unat_of_nat)

lemma name_length_eq:
  "length p \<le> 255 \<Longrightarrow> length q \<le> 255 \<Longrightarrow>
     (of_nat (length p) :: u8) = of_nat (length q) \<longleftrightarrow> length p = length q"
  by (metis unat_name_length)

lemma alpn_inner_wire:
  assumes "alpn_names_ok qs" "length p \<le> 255"
    and alpn: "alpn = us @ of_nat (length p) # p @ vs"
  shows "alpn_inner alpn (length us) (pre @ alpn_wire qs) (length pre) =
    (case alpn_position p (length pre) qs of Some j \<Rightarrow> AlpnOk j (length p) | None \<Rightarrow> AlpnNoack)"
  using assms(1)
proof (induction qs arbitrary: pre)
  case Nil
  show ?case by (subst alpn_inner.simps) simp
next
  case (Cons q qs)
  then have q: "q \<noteq> []" "length q \<le> 255" and qs: "alpn_names_ok qs"
    by (auto simp: alpn_names_ok_def)
  let ?input = "pre @ alpn_wire (q # qs)"
  have n: "unat (alpn ! length us) = length p" and m: "unat (?input ! length pre) = length q"
    using alpn assms(2) q by (simp_all add: unat_name_length)
  have next_name: "alpn_inner alpn (length us) ?input (length pre + 1 + length q) =
      (case alpn_position p (length pre + 1 + length q) qs of
         Some j \<Rightarrow> AlpnOk j (length p) | None \<Rightarrow> AlpnNoack)"
    using Cons.IH [OF qs, of "pre @ of_nat (length q) # q"] by simp
  have same_len: "?input ! length pre = alpn ! length us \<longleftrightarrow> length q = length p"
    using alpn assms(2) q by (simp add: name_length_eq)
  have here: "take (length p) (drop (length pre + 1) ?input) = q"
    "take (length p) (drop (length us + 1) alpn) = p" if "length q = length p"
    using alpn that by simp_all
  have room: "\<not> length ?input < length pre + 1 + length p" if "length q = length p"
    using that by simp
  have room': "\<not> length alpn < length us + 1 + length p" using alpn by simp
  show ?case
  proof (cases "length q = length p")
    case True
    then show ?thesis
      using here room room' next_name same_len n m
      by (subst alpn_inner.simps) (simp add: Let_def del: append_assoc)
  next
    case False
    then have "p \<noteq> q" by auto
    with False show ?thesis
      using next_name same_len n m by (subst alpn_inner.simps) (simp add: Let_def)
  qed
qed

lemma alpn_outer_wire:
  assumes "alpn_names_ok offered" "alpn_names_ok ps"
    and "alpn = us @ alpn_wire ps @ vs" "alpn_len = length us + length (alpn_wire ps)"
  shows "alpn_outer alpn alpn_len (length us) (alpn_wire offered) = alpn_choice ps offered"
  using assms(2-4)
proof (induction ps arbitrary: us)
  case Nil
  then show ?case by (subst alpn_outer.simps) simp
next
  case (Cons p ps)
  then have p: "length p \<le> 255" "alpn_names_ok ps" by (auto simp: alpn_names_ok_def)
  have inner: "alpn_inner alpn (length us) (alpn_wire offered) 0 =
      (case alpn_position p 0 offered of Some j \<Rightarrow> AlpnOk j (length p) | None \<Rightarrow> AlpnNoack)"
    using alpn_inner_wire [OF assms(1) p(1), of alpn us "alpn_wire ps @ vs" "[]"] Cons.prems(2)
    by simp
  have rest: "alpn_outer alpn alpn_len (length us + 1 + length p) (alpn_wire offered) =
      alpn_choice ps offered"
    using Cons.IH [of "us @ of_nat (length p) # p"] Cons.prems p by simp
  have "unat (alpn ! length us) = length p" using Cons.prems(2) p by (simp add: unat_name_length)
  then show ?case
    using inner rest Cons.prems
    by (subst alpn_outer.simps) (simp split: option.splits)
qed

lemma alpn_choice_cases:
  shows "alpn_choice ps offered = AlpnNoack \<longleftrightarrow> set ps \<inter> set offered = {}"
    and "alpn_choice ps offered \<noteq> AlpnOverread"
  by (induction ps) (auto simp: alpn_position_None split: option.splits dest: alpn_position_Some)

lemma alpn_choice_first:
  assumes "alpn_choice ps offered = AlpnOk j n"
  obtains us p vs where "ps = us @ p # vs" "set us \<inter> set offered = {}" "p \<in> set offered"
    "n = length p" "take n (drop j (alpn_wire offered)) = p"
  using assms
proof (induction ps arbitrary: thesis)
  case Nil
  then show ?case by simp
next
  case (Cons q ps)
  show ?case
  proof (cases "alpn_position q 0 offered")
    case None
    then have q: "q \<notin> set offered" by (simp add: alpn_position_None)
    from None Cons.prems(2) have "alpn_choice ps offered = AlpnOk j n" by simp
    then obtain us p vs where "ps = us @ p # vs" "set us \<inter> set offered = {}" "p \<in> set offered"
      "n = length p" "take n (drop j (alpn_wire offered)) = p"
      using Cons.IH by blast
    with q show ?thesis by (intro Cons.prems(1) [of "q # us" p vs]) auto
  next
    case (Some k)
    then have "q \<in> set offered" by (rule alpn_position_Some)
    moreover have "take (length q) (drop k (alpn_wire offered)) = q"
      using alpn_position_bytes [of q "[]" offered k] Some by simp
    ultimately show ?thesis
      using Some Cons.prems(2) by (intro Cons.prems(1) [of "[]" q ps]) auto
  qed
qed

section \<open>Properties\<close>

text \<open>
  The ALPN list is written exactly when every name has 1 to 255 bytes and the whole fits
  the array of 256; what is written then is the wire format of the names in their order, and
  the array never grows.
\<close>

theorem alpn_write_fits:
  assumes "length alpn = 256"
  shows "case alpn_write ps alpn 0 of
      (Some n, a) \<Rightarrow> alpn_names_ok ps \<and> n = length (alpn_wire ps) \<and> n \<le> 256 \<and>
        take n a = alpn_wire ps \<and> length a = 256
    | (None, a) \<Rightarrow> \<not> (alpn_names_ok ps \<and> length (alpn_wire ps) \<le> 256) \<and> length a = 256"
proof (cases "alpn_write ps alpn 0")
  case (Pair r a)
  have len: "length a = 256" using alpn_write_length [OF assms, of ps 0] Pair by simp
  show ?thesis
  proof (cases r)
    case None
    with alpn_write_ok [of ps 0 alpn] assms Pair len show ?thesis by auto
  next
    case (Some n)
    then have ok: "alpn_names_ok ps \<and> n = length (alpn_wire ps) \<and> n \<le> 256"
      using alpn_write_Some [of ps alpn 0 n] Pair by simp
    then have "a = memcpy_at alpn 0 (alpn_wire ps)"
      using alpn_write_ok [of ps 0 alpn] assms Pair by simp
    then have "take n a = alpn_wire ps" using ok take_memcpy_at_0 by metis
    with ok len Some Pair show ?thesis by simp
  qed
qed

theorem alpn_write_fits_witness:
  "case alpn_write [[104, 50], [104]] (replicate 256 0) 0 of
      (Some n, a) \<Rightarrow> n = 5 \<and> take n a = [2, 104, 50, 1, 104]
    | (None, a) \<Rightarrow> False"
  using alpn_write_fits [of "replicate 256 0" "[[104, 50], [104]]"]
  by (auto simp: alpn_names_ok_def split: prod.splits option.splits)

text \<open>
  C28: On a list \<open>ktls_keys_set_alpn\<close> wrote and a well-formed list of the client's, the
  callback reads neither array past its end and answers with the first name of ours the
  client also offers, pointing at that name in the client's list, or with no name when they
  have none in common.
\<close>

theorem alpn_pick_first:
  assumes "alpn_names_ok offered" "length alpn = 256" "alpn_write ps alpn 0 = (Some n, a)"
  shows "case ktls_alpn_pick a n (alpn_wire offered) of
      AlpnOk j l \<Rightarrow> (\<exists>us p vs. ps = us @ p # vs \<and> set us \<inter> set offered = {} \<and> p \<in> set offered \<and>
        l = length p \<and> take l (drop j (alpn_wire offered)) = p)
    | AlpnNoack \<Rightarrow> set ps \<inter> set offered = {}
    | AlpnOverread \<Rightarrow> False"
proof -
  have n: "alpn_names_ok ps" "n = length (alpn_wire ps)" "n \<le> 256"
    using alpn_write_Some [of ps alpn 0 n] assms(3) by simp_all
  then have a: "a = alpn_wire ps @ drop n alpn"
    using alpn_write_ok [of ps 0 alpn] assms(2,3) by (simp add: memcpy_at_def)
  have pick: "ktls_alpn_pick a n (alpn_wire offered) = alpn_choice ps offered"
    using alpn_outer_wire [OF assms(1) n(1), of a "[]" "drop n alpn" n] a n(2)
    by (simp add: ktls_alpn_pick_def)
  show ?thesis
  proof (cases "alpn_choice ps offered")
    case (AlpnOk j l)
    show ?thesis using alpn_choice_first [OF AlpnOk] by (simp only: pick AlpnOk alpn_result.case) metis
  next
    case AlpnNoack
    then have "set ps \<inter> set offered = {}" using alpn_choice_cases(1) by metis
    then show ?thesis by (simp only: pick AlpnNoack alpn_result.case)
  next
    case AlpnOverread
    then show ?thesis using alpn_choice_cases(2) by blast
  qed
qed

theorem alpn_pick_first_witness:
  "case ktls_alpn_pick (snd (alpn_write [[1, 2], [7]] (replicate 256 0) 0)) 5 [1, 9, 1, 7] of
     AlpnOk j l \<Rightarrow> take l (drop j [1, 9, 1, 7]) = [7 :: u8] | _ \<Rightarrow> False"
proof -
  have wire: "alpn_wire [[9], [7]] = [1, 9, 1, 7]" by simp
  have "alpn_names_ok [[9], [7 :: u8]]" "alpn_names_ok [[1, 2], [7 :: u8]]"
    by (simp_all add: alpn_names_ok_def)
  then have "alpn_write [[1, 2], [7]] (replicate 256 0) 0 =
      (Some 5, snd (alpn_write [[1, 2], [7]] (replicate 256 0) 0))"
    using alpn_write_ok [of "[[1, 2], [7]]" 0 "replicate 256 0"] by simp
  from alpn_pick_first [of "[[9], [7]]", OF \<open>alpn_names_ok [[9], [7]]\<close> _ this] show ?thesis
    unfolding wire
    by (auto simp: Cons_eq_append_conv split: alpn_result.splits)
qed

end
