(* ===== verification/Ktls_Keys.thy ===== *)
theory Ktls_Keys
  imports Ktls_Errors Ktls_Host Ktls_Alpn
begin

text \<open>
  The keys a listener answers with: \<open>struct ktls_keys\<close> of src/ktls.c, its OpenSSL contexts
  and every operation on them, from \<open>ktls_ctx_new\<close> to \<open>ktls_keys_free\<close>, and
  \<open>ktls_name_pick\<close>, the callback that lets a server_name choose between them.

  An OpenSSL context is modelled by what this library sets on it. The contexts that exist
  are a store from handles to such records, so that a context forgotten on an error path is
  one that stays in the store. Any call that needs memory may fail: \<open>w_faults\<close> says, call by
  call, which ones do. What OpenSSL makes of a suite list or of PEM text is a parameter.
\<close>

section \<open>The processor\<close>

text \<open>
  The processor the library was built for: what \<open>__builtin_cpu_supports ("aes")\<close> answers, the
  auxiliary vector's capabilities and the bit \<open>HWCAP_AES\<close>, or any other.
\<close>

datatype cpu = X86 int | AArch64 u64 u64 | OtherCpu

fun ktls_aes_is_fast :: "cpu \<Rightarrow> bool" where
  "ktls_aes_is_fast (X86 aes) \<longleftrightarrow> aes \<noteq> 0"
| "ktls_aes_is_fast (AArch64 hwcap hwcap_aes) \<longleftrightarrow> hwcap AND hwcap_aes \<noteq> 0"
| "ktls_aes_is_fast OtherCpu \<longleftrightarrow> False"

section \<open>Contexts and the world\<close>

record ssl_ctx =
  c_min_version :: nat
  c_max_version :: nat
  c_server_preference :: bool
  c_suites :: string
  c_keylog :: bool
  c_cert :: "nat option"
  c_key :: "nat option"
  c_verify_none :: bool
  c_alpn_cb :: bool          \<comment> \<open>\<open>ktls_alpn_pick\<close> with the keys as its argument\<close>
  c_alpn_protos :: bytes
  c_servername_cb :: bool    \<comment> \<open>\<open>ktls_name_pick\<close> with the keys as its argument\<close>

record ctx_lib = err_lib +
  TLS1_3_VERSION :: nat
  ctx_default :: ssl_ctx                       \<comment> \<open>what \<open>SSL_CTX_new\<close> returns\<close>
  suites_valid :: "string \<Rightarrow> bool"             \<comment> \<open>\<open>SSL_CTX_set_ciphersuites\<close> takes it\<close>
  pem_cert :: "string \<Rightarrow> int \<Rightarrow> nat option"     \<comment> \<open>\<open>PEM_read_bio_X509\<close>\<close>
  pem_key :: "string \<Rightarrow> int \<Rightarrow> nat option"      \<comment> \<open>\<open>PEM_read_bio_PrivateKey\<close>\<close>
  use_cert_ok :: "ssl_ctx \<Rightarrow> nat \<Rightarrow> bool"
  use_key_ok :: "ssl_ctx \<Rightarrow> nat \<Rightarrow> bool"
  key_fits :: "nat \<Rightarrow> nat \<Rightarrow> bool"             \<comment> \<open>\<open>SSL_CTX_check_private_key\<close>\<close>
  processor :: cpu

record world =
  w_ctx :: "nat \<Rightarrow> ssl_ctx option"
  w_next :: nat
  w_faults :: "bool list"
  w_err :: thread_err

record ktls_keys =
  k_ctx :: nat
  k_alpn :: bytes             \<comment> \<open>\<open>unsigned char alpn[256]\<close>\<close>
  k_alpn_len :: nat
  k_named :: "(string \<times> nat) list"
  k_suites :: string          \<comment> \<open>\<open>char suites[256]\<close>; empty when nobody asked\<close>

text \<open>Does the next call that needs memory fail?\<close>

definition fault :: "world \<Rightarrow> bool \<times> world" where
  "fault w = (case w_faults w of [] \<Rightarrow> (False, w) | b # bs \<Rightarrow> (b, w\<lparr> w_faults := bs \<rparr>))"

definition fail_with :: "'z err_lib_scheme \<Rightarrow> failure \<Rightarrow> world \<Rightarrow> (failure + 'r) \<times> world" where
  "fail_with lib f w = (Inl f, w\<lparr> w_err := report lib f (w_err w) \<rparr>)"

definition upd_ctx :: "nat \<Rightarrow> (ssl_ctx \<Rightarrow> ssl_ctx) \<Rightarrow> world \<Rightarrow> world" where
  "upd_ctx c f w = w\<lparr> w_ctx := (w_ctx w)(c := map_option f (w_ctx w c)) \<rparr>"

definition SSL_CTX_free :: "nat \<Rightarrow> world \<Rightarrow> world" where
  "SSL_CTX_free c w = w\<lparr> w_ctx := (w_ctx w)(c := None) \<rparr>"

text \<open>A new context: OpenSSL's defaults, no callback and no ALPN list.\<close>

definition blank_ctx :: "'z ctx_lib_scheme \<Rightarrow> ssl_ctx" where
  "blank_ctx lib = (ctx_default lib)\<lparr> c_keylog := False, c_cert := None, c_key := None,
     c_alpn_cb := False, c_alpn_protos := [], c_servername_cb := False \<rparr>"

definition SSL_CTX_new :: "'z ctx_lib_scheme \<Rightarrow> world \<Rightarrow> nat \<times> world" where
  "SSL_CTX_new lib w =
     (w_next w, w\<lparr> w_ctx := (w_ctx w)(w_next w \<mapsto> blank_ctx lib), w_next := w_next w + 1 \<rparr>)"

text \<open>\<open>SSL_CTX_set_ciphersuites (c, s) == 1\<close> and \<open>SSL_CTX_set_alpn_protos (c, p, n) == 0\<close>.\<close>

definition set_ciphersuites :: "'z ctx_lib_scheme \<Rightarrow> nat \<Rightarrow> string \<Rightarrow> world \<Rightarrow> bool \<times> world" where
  "set_ciphersuites lib c s w =
     (let (bad, w1) = fault w
      in if bad \<or> \<not> suites_valid lib s then (False, w1)
         else (True, upd_ctx c (\<lambda>x. x\<lparr> c_suites := s \<rparr>) w1))"

definition set_alpn_protos :: "nat \<Rightarrow> bytes \<Rightarrow> world \<Rightarrow> bool \<times> world" where
  "set_alpn_protos c p w =
     (let (bad, w1) = fault w
      in if bad then (False, w1) else (True, upd_ctx c (\<lambda>x. x\<lparr> c_alpn_protos := p \<rparr>) w1))"

section \<open>ktls_ctx_new and ktls_pem_into\<close>

definition default_suites :: "'z ctx_lib_scheme \<Rightarrow> string" where
  "default_suites lib =
     (if ktls_aes_is_fast (processor lib) then ''TLS_AES_128_GCM_SHA256:TLS_CHACHA20_POLY1305_SHA256''
      else ''TLS_CHACHA20_POLY1305_SHA256:TLS_AES_128_GCM_SHA256'')"

definition ktls_ctx_new :: "'z ctx_lib_scheme \<Rightarrow> world \<Rightarrow> (failure + nat) \<times> world" where
  "ktls_ctx_new lib w =
     (let (no_mem, w1) = fault w
      in if no_mem then fail_with lib (Fail ''SSL_CTX_new'') w1
         else
           (let (c, w2) = SSL_CTX_new lib w1;
                (bad, w3) = fault w2
            in if bad then
                 (let (r, w4) = fail_with lib (Fail ''set_proto_version(TLS1.3)'') w3
                  in (r, SSL_CTX_free c w4))
               else
                 (let w4 = upd_ctx c (\<lambda>x. x\<lparr> c_min_version := TLS1_3_VERSION lib,
                              c_max_version := TLS1_3_VERSION lib, c_server_preference := True \<rparr>) w3;
                      (ok, w5) = set_ciphersuites lib c (default_suites lib) w4
                  in if \<not> ok then
                       (let (r, w6) = fail_with lib (Fail ''set_ciphersuites'') w5
                        in (r, SSL_CTX_free c w6))
                     else (Inr c, upd_ctx c (\<lambda>x. x\<lparr> c_keylog := True \<rparr>) w5))))"

definition ktls_pem_into ::
    "'z ctx_lib_scheme \<Rightarrow> nat \<Rightarrow> string \<Rightarrow> bool \<Rightarrow> world \<Rightarrow> (failure + unit) \<times> world" where
  "ktls_pem_into lib c pem is_key w =
     (let (no_mem, w1) = fault w
      in if no_mem then fail_with lib (Fail ''BIO_new_mem_buf'') w1
         else if is_key then
           (case (pem_key lib pem (c_int (length pem)), w_ctx w1 c) of
              (Some k, Some x) \<Rightarrow>
                if use_key_ok lib x k then (Inr (), upd_ctx c (\<lambda>x. x\<lparr> c_key := Some k \<rparr>) w1)
                else fail_with lib (Fail ''use_PrivateKey'') w1
            | _ \<Rightarrow> fail_with lib (Fail ''use_PrivateKey'') w1)
         else
           (case (pem_cert lib pem (c_int (length pem)), w_ctx w1 c) of
              (Some k, Some x) \<Rightarrow>
                if use_cert_ok lib x k then (Inr (), upd_ctx c (\<lambda>x. x\<lparr> c_cert := Some k \<rparr>) w1)
                else fail_with lib (Fail ''use_certificate'') w1
            | _ \<Rightarrow> fail_with lib (Fail ''use_certificate'') w1))"

definition check_private_key :: "'z ctx_lib_scheme \<Rightarrow> nat \<Rightarrow> world \<Rightarrow> bool" where
  "check_private_key lib c w =
     (case w_ctx w c of
        None \<Rightarrow> False
      | Some x \<Rightarrow> (case (c_cert x, c_key x) of (Some d, Some k) \<Rightarrow> key_fits lib d k | _ \<Rightarrow> False))"

text \<open>
  The part \<open>ktls_keys_server\<close> and \<open>ktls_keys_add_certificate\<close> have in common: a new context
  with the pair loaded and checked, or no context at all.
\<close>

definition pair_ctx ::
    "'z ctx_lib_scheme \<Rightarrow> string \<Rightarrow> string \<Rightarrow> world \<Rightarrow> (failure + nat) \<times> world" where
  "pair_ctx lib cert key w =
     (case ktls_ctx_new lib w of
        (Inl f, w1) \<Rightarrow> (Inl f, w1)
      | (Inr c, w1) \<Rightarrow>
          (case ktls_pem_into lib c cert False w1 of
             (Inl f, w2) \<Rightarrow> (Inl f, SSL_CTX_free c w2)
           | (Inr _, w2) \<Rightarrow>
               (case ktls_pem_into lib c key True w2 of
                  (Inl f, w3) \<Rightarrow> (Inl f, SSL_CTX_free c w3)
                | (Inr _, w3) \<Rightarrow>
                    if \<not> check_private_key lib c w3 then
                      (let (r, w4) = fail_with lib (Fail ''the private key does not match the certificate'') w3
                       in (r, SSL_CTX_free c w4))
                    else (Inr c, w3))))"

section \<open>Making and freeing keys\<close>

definition keys_zero :: "nat \<Rightarrow> ktls_keys" where
  "keys_zero c = \<lparr> k_ctx = c, k_alpn = replicate 256 0, k_alpn_len = 0, k_named = [], k_suites = [] \<rparr>"

definition ktls_keys_server ::
    "'z ctx_lib_scheme \<Rightarrow> string \<Rightarrow> string \<Rightarrow> world \<Rightarrow> (failure + ktls_keys) \<times> world" where
  "ktls_keys_server lib cert key w =
     (let (no_mem, w1) = fault w
      in if no_mem then fail_with lib (Say ''out of memory'') w1
         else (case pair_ctx lib cert key w1 of
                 (Inl f, w2) \<Rightarrow> (Inl f, w2)
               | (Inr c, w2) \<Rightarrow> (Inr (keys_zero c), w2)))"

definition ktls_keys_client :: "'z ctx_lib_scheme \<Rightarrow> world \<Rightarrow> (failure + ktls_keys) \<times> world" where
  "ktls_keys_client lib w =
     (let (no_mem, w1) = fault w
      in if no_mem then fail_with lib (Say ''out of memory'') w1
         else (case ktls_ctx_new lib w1 of
                 (Inl f, w2) \<Rightarrow> (Inl f, w2)
               | (Inr c, w2) \<Rightarrow>
                   (Inr (keys_zero c), upd_ctx c (\<lambda>x. x\<lparr> c_verify_none := True \<rparr>) w2)))"

definition ktls_keys_free :: "ktls_keys option \<Rightarrow> world \<Rightarrow> world" where
  "ktls_keys_free keys w =
     (case keys of
        None \<Rightarrow> w
      | Some k \<Rightarrow> SSL_CTX_free (k_ctx k) (fold (\<lambda>(host, c). SSL_CTX_free c) (k_named k) w))"

section \<open>Suites, ALPN and further certificates\<close>

definition ktls_ctx_follow ::
    "'z ctx_lib_scheme \<Rightarrow> ktls_keys \<Rightarrow> nat \<Rightarrow> world \<Rightarrow> (failure + unit) \<times> world" where
  "ktls_ctx_follow lib keys c w =
     (let (ok, w1) = (if k_suites keys \<noteq> [] then set_ciphersuites lib c (k_suites keys) w else (True, w))
      in if \<not> ok then fail_with lib (Fail ''set_ciphersuites'') w1
         else if k_alpn_len keys \<noteq> 0 then
           (let w2 = upd_ctx c (\<lambda>x. x\<lparr> c_alpn_cb := True \<rparr>) w1;
                (ok2, w3) = set_alpn_protos c (take (k_alpn_len keys) (k_alpn keys)) w2
            in if \<not> ok2 then fail_with lib (Fail ''SSL_CTX_set_alpn_protos'') w3 else (Inr (), w3))
         else (Inr (), w1))"

text \<open>The loops over the named contexts; they stop at the first one that refuses.\<close>

fun all_ciphersuites ::
    "'z ctx_lib_scheme \<Rightarrow> string \<Rightarrow> (string \<times> nat) list \<Rightarrow> world \<Rightarrow> (failure + unit) \<times> world" where
  "all_ciphersuites lib s [] w = (Inr (), w)"
| "all_ciphersuites lib s ((host, c) # cs) w =
     (let (ok, w1) = set_ciphersuites lib c s w
      in if \<not> ok then fail_with lib (Fail ''set_ciphersuites'') w1 else all_ciphersuites lib s cs w1)"

fun all_alpn ::
    "'z ctx_lib_scheme \<Rightarrow> bytes \<Rightarrow> (string \<times> nat) list \<Rightarrow> world \<Rightarrow> (failure + unit) \<times> world" where
  "all_alpn lib p [] w = (Inr (), w)"
| "all_alpn lib p ((host, c) # cs) w =
     (let w1 = upd_ctx c (\<lambda>x. x\<lparr> c_alpn_cb := True \<rparr>) w;
          (ok, w2) = set_alpn_protos c p w1
      in if \<not> ok then fail_with lib (Fail ''SSL_CTX_set_alpn_protos'') w2 else all_alpn lib p cs w2)"

definition suites_msg :: string where
  "suites_msg = ''ktls_keys_set_ciphers: the suite list is empty or too long''"

definition ktls_keys_set_ciphers ::
    "'z ctx_lib_scheme \<Rightarrow> string option \<Rightarrow> ktls_keys \<Rightarrow> world \<Rightarrow> (failure + unit) \<times> ktls_keys \<times> world" where
  "ktls_keys_set_ciphers lib suites keys w =
     (let s = (case suites of None \<Rightarrow> [] | Some s \<Rightarrow> s)
      in if length s = 0 \<or> 256 \<le> length s then
           (case fail_with lib (Say suites_msg) w of (r, w1) \<Rightarrow> (r, keys, w1))
         else
           (let (ok, w1) = set_ciphersuites lib (k_ctx keys) s w
            in if \<not> ok then
                 (case fail_with lib (Fail ''set_ciphersuites'') w1 of (r, w2) \<Rightarrow> (r, keys, w2))
               else
                 (let keys1 = keys\<lparr> k_suites := s \<rparr>
                  in case all_ciphersuites lib s (k_named keys1) w1 of (r, w2) \<Rightarrow> (r, keys1, w2))))"

definition alpn_msg :: string where
  "alpn_msg = ''ktls_keys_set_alpn: the protocol names do not fit''"

definition ktls_keys_set_alpn ::
    "'z ctx_lib_scheme \<Rightarrow> bytes list \<Rightarrow> ktls_keys \<Rightarrow> world \<Rightarrow> (failure + unit) \<times> ktls_keys \<times> world" where
  "ktls_keys_set_alpn lib protocols keys w =
     (case alpn_write protocols (k_alpn keys) 0 of
        (None, a) \<Rightarrow>
          (case fail_with lib (Say alpn_msg) w of (r, w1) \<Rightarrow> (r, keys\<lparr> k_alpn := a \<rparr>, w1))
      | (Some n, a) \<Rightarrow>
          (let keys1 = keys\<lparr> k_alpn := a, k_alpn_len := n \<rparr>;
               w1 = upd_ctx (k_ctx keys) (\<lambda>x. x\<lparr> c_alpn_cb := True \<rparr>) w;
               (ok, w2) = set_alpn_protos (k_ctx keys) (take n a) w1
           in if \<not> ok then
                (case fail_with lib (Fail ''SSL_CTX_set_alpn_protos'') w2 of (r, w3) \<Rightarrow> (r, keys1, w3))
              else (case all_alpn lib (take n a) (k_named keys1) w2 of (r, w3) \<Rightarrow> (r, keys1, w3))))"

definition host_msg :: string where
  "host_msg = ''ktls_keys_add_certificate: the host name is empty or too long''"

definition named_msg :: string where
  "named_msg = ''ktls_keys_add_certificate: that host name was already named''"

definition ktls_keys_add_certificate ::
    "'z ctx_lib_scheme \<Rightarrow> string option \<Rightarrow> string \<Rightarrow> string \<Rightarrow> ktls_keys \<Rightarrow> world \<Rightarrow>
      (failure + unit) \<times> ktls_keys \<times> world" where
  "ktls_keys_add_certificate lib host cert key keys w =
     (let h = (case host of None \<Rightarrow> [] | Some h \<Rightarrow> h)
      in if length h = 0 \<or> 256 \<le> length h then
           (case fail_with lib (Say host_msg) w of (r, w1) \<Rightarrow> (r, keys, w1))
         else if list_ex (\<lambda>(g, _). strcaseeq g h) (k_named keys) then
           (case fail_with lib (Say named_msg) w of (r, w1) \<Rightarrow> (r, keys, w1))
         else
           (case pair_ctx lib cert key w of
              (Inl f, w1) \<Rightarrow> (Inl f, keys, w1)
            | (Inr c, w1) \<Rightarrow>
                (case ktls_ctx_follow lib keys c w1 of
                   (Inl f, w2) \<Rightarrow> (Inl f, keys, SSL_CTX_free c w2)
                 | (Inr _, w2) \<Rightarrow>
                     (let (no_mem, w3) = fault w2
                      in if no_mem then
                           (case fail_with lib (Say ''out of memory'') w3 of
                              (r, w4) \<Rightarrow> (r, keys, SSL_CTX_free c w4))
                         else (Inr (), keys\<lparr> k_named := k_named keys @ [(h, c)] \<rparr>,
                               upd_ctx (k_ctx keys) (\<lambda>x. x\<lparr> c_servername_cb := True \<rparr>) w3)))))"

section \<open>Choosing a certificate\<close>

datatype tlsext_result = SSL_TLSEXT_ERR_OK | SSL_TLSEXT_ERR_ALERT_FATAL

text \<open>
  The context in force afterwards; \<open>name\<close> is what \<open>SSL_get_servername\<close> answers, \<open>set_ok\<close>
  whether \<open>SSL_set_SSL_CTX\<close> took the new context.
\<close>

fun pick_named :: "(string \<times> nat) list \<Rightarrow> string \<Rightarrow> nat option" where
  "pick_named [] name = None"
| "pick_named ((host, c) # cs) name =
     (if \<not> ktls_host_matches host name then pick_named cs name else Some c)"

definition ktls_name_pick ::
    "'z err_lib_scheme \<Rightarrow> ktls_keys \<Rightarrow> string option \<Rightarrow> bool \<Rightarrow> nat \<Rightarrow> thread_err \<Rightarrow>
      tlsext_result \<times> nat \<times> thread_err" where
  "ktls_name_pick lib keys name set_ok in_force t =
     (case name of
        None \<Rightarrow> (SSL_TLSEXT_ERR_OK, in_force, t)
      | Some n \<Rightarrow>
          (case pick_named (k_named keys) n of
             None \<Rightarrow> (SSL_TLSEXT_ERR_OK, in_force, t)
           | Some c \<Rightarrow> if set_ok then (SSL_TLSEXT_ERR_OK, c, t)
                       else (SSL_TLSEXT_ERR_ALERT_FATAL, in_force,
                             openssl_failed lib ''SSL_set_SSL_CTX'' t)))"

section \<open>What the calls do to the store\<close>

named_theorems store_simps

lemma fault_sel [store_simps]:
  "fault w = (b, w') \<Longrightarrow> w_ctx w' = w_ctx w" "fault w = (b, w') \<Longrightarrow> w_next w' = w_next w"
  by (auto simp: fault_def split: list.splits)

lemma fail_with_sel [simp]:
  "fst (fail_with lib f w) = Inl f" "w_ctx (snd (fail_with lib f w)) = w_ctx w"
  "w_next (snd (fail_with lib f w)) = w_next w"
  by (simp_all add: fail_with_def)

lemma upd_ctx_sel [simp]:
  "w_ctx (upd_ctx c f w) = (w_ctx w)(c := map_option f (w_ctx w c))"
  "w_next (upd_ctx c f w) = w_next w"
  by (simp_all add: upd_ctx_def)

lemma SSL_CTX_free_sel [simp]:
  "w_ctx (SSL_CTX_free c w) = (w_ctx w)(c := None)" "w_next (SSL_CTX_free c w) = w_next w"
  by (simp_all add: SSL_CTX_free_def)

lemma set_ciphersuites_store:
  assumes "set_ciphersuites lib c s w = (ok, w')"
  shows "w_next w' = w_next w"
    "w_ctx w' = (if ok then (w_ctx w)(c := map_option (\<lambda>x. x\<lparr> c_suites := s \<rparr>) (w_ctx w c))
                 else w_ctx w)"
    "ok \<Longrightarrow> suites_valid lib s"
  using assms
  by (auto simp: set_ciphersuites_def Let_def fault_sel split: prod.splits if_splits)

lemma set_alpn_protos_store:
  assumes "set_alpn_protos c p w = (ok, w')"
  shows "w_next w' = w_next w"
    "w_ctx w' = (if ok then (w_ctx w)(c := map_option (\<lambda>x. x\<lparr> c_alpn_protos := p \<rparr>) (w_ctx w c))
                 else w_ctx w)"
  using assms
  by (auto simp: set_alpn_protos_def Let_def fault_sel split: prod.splits if_splits)

text \<open>Handles not yet given out name no context.\<close>

definition world_wf :: "world \<Rightarrow> bool" where
  "world_wf w \<longleftrightarrow> (\<forall>c \<ge> w_next w. w_ctx w c = None)"

lemma world_wf_free_new:
  "world_wf w \<Longrightarrow> (w_ctx w)(w_next w := None) = w_ctx w"
  by (auto simp: world_wf_def)

definition fresh_ctx :: "'z ctx_lib_scheme \<Rightarrow> ssl_ctx" where
  "fresh_ctx lib = (blank_ctx lib)\<lparr> c_min_version := TLS1_3_VERSION lib,
     c_max_version := TLS1_3_VERSION lib, c_server_preference := True,
     c_suites := default_suites lib, c_keylog := True \<rparr>"

lemma ktls_ctx_new_store:
  assumes "ktls_ctx_new lib w = (r, w')" "world_wf w"
  shows "case r of
      Inl f \<Rightarrow> w_ctx w' = w_ctx w \<and> w_next w \<le> w_next w'
    | Inr c \<Rightarrow> c = w_next w \<and> w_next w' = w_next w + 1 \<and>
        w_ctx w' = (w_ctx w)(c \<mapsto> fresh_ctx lib)"
proof -
  obtain b w1 where w1: "fault w = (b, w1)" by fastforce
  have s1: "w_ctx w1 = w_ctx w" "w_next w1 = w_next w" using fault_sel [OF w1] by simp_all
  show ?thesis
  proof (cases b)
    case True
    with assms(1) w1 s1 show ?thesis
      by (auto simp: ktls_ctx_new_def fail_with_def)
  next
    case False
    let ?c = "w_next w"
    obtain w2 where w2: "SSL_CTX_new lib w1 = (?c, w2)" and
      s2: "w_ctx w2 = (w_ctx w)(?c \<mapsto> blank_ctx lib)" "w_next w2 = ?c + 1"
      by (simp add: SSL_CTX_new_def s1)
    obtain b3 w3 where w3: "fault w2 = (b3, w3)" by fastforce
    have s3: "w_ctx w3 = w_ctx w2" "w_next w3 = w_next w2" using fault_sel [OF w3] by simp_all
    show ?thesis
    proof (cases b3)
      case True
      with assms w1 False w2 w3 s3 s2 show ?thesis
        by (auto simp: ktls_ctx_new_def fail_with_def world_wf_free_new)
    next
      case fine: False
      define w4 where "w4 = upd_ctx ?c (\<lambda>x. x\<lparr> c_min_version := TLS1_3_VERSION lib,
          c_max_version := TLS1_3_VERSION lib, c_server_preference := True \<rparr>) w3"
      obtain ok w5 where w5: "set_ciphersuites lib ?c (default_suites lib) w4 = (ok, w5)"
        by fastforce
      note s5 = set_ciphersuites_store [OF w5]
      have new: "ktls_ctx_new lib w = (if \<not> ok then
          (let (r, w6) = fail_with lib (Fail ''set_ciphersuites'') w5 in (r, SSL_CTX_free ?c w6))
        else (Inr ?c, upd_ctx ?c (\<lambda>x. x\<lparr> c_keylog := True \<rparr>) w5))"
        using w1 False w2 w3 fine w5 by (simp add: ktls_ctx_new_def w4_def)
      show ?thesis
      proof (cases ok)
        case True
        with new assms(1) s5 s3 s2 show ?thesis
          by (auto simp: w4_def fresh_ctx_def)
      next
        case bad: False
        with new assms s5 s3 s2 show ?thesis
          by (auto simp: w4_def fail_with_def world_wf_free_new)
      qed
    qed
  qed
qed

lemma ktls_pem_into_store:
  assumes "ktls_pem_into lib c pem is_key w = (r, w')"
  shows "w_next w' = w_next w"
    "\<And>f. r = Inl f \<Longrightarrow> w_ctx w' = w_ctx w"
    "r = Inr u \<Longrightarrow> \<exists>x k. w_ctx w c = Some x \<and>
       (if is_key then pem_key lib pem (c_int (length pem)) else pem_cert lib pem (c_int (length pem))) = Some k \<and>
       w_ctx w' = (w_ctx w)(c \<mapsto> (if is_key then x\<lparr> c_key := Some k \<rparr> else x\<lparr> c_cert := Some k \<rparr>))"
  using assms
  by (auto simp: ktls_pem_into_def Let_def fail_with_def fault_sel
      split: prod.splits if_splits option.splits)

lemma pair_ctx_store:
  assumes "pair_ctx lib cert key w = (r, w')" "world_wf w"
  shows "case r of
      Inl f \<Rightarrow> w_ctx w' = w_ctx w \<and> w_next w \<le> w_next w'
    | Inr c \<Rightarrow> c = w_next w \<and> w_next w' = w_next w + 1 \<and>
        (\<exists>d k. pem_cert lib cert (c_int (length cert)) = Some d \<and>
           pem_key lib key (c_int (length key)) = Some k \<and> key_fits lib d k \<and>
           w_ctx w' = (w_ctx w)(c \<mapsto> (fresh_ctx lib)\<lparr> c_cert := Some d, c_key := Some k \<rparr>))"
proof -
  obtain r1 w1 where new: "ktls_ctx_new lib w = (r1, w1)" by fastforce
  note s1 = ktls_ctx_new_store [OF new assms(2)]
  show ?thesis
  proof (cases r1)
    case (Inl f)
    with new s1 assms(1) show ?thesis by (auto simp: pair_ctx_def)
  next
    case c: (Inr c)
    then have c_eq: "c = w_next w" and s1: "w_next w1 = w_next w + 1"
      "w_ctx w1 = (w_ctx w)(c \<mapsto> fresh_ctx lib)" using s1 by auto
    have free: "(w_ctx w)(c := None) = w_ctx w"
      using assms(2) by (simp add: c_eq world_wf_free_new)
    obtain r2 w2 where p2: "ktls_pem_into lib c cert False w1 = (r2, w2)" by fastforce
    note s2 = ktls_pem_into_store [OF p2]
    show ?thesis
    proof (cases r2)
      case (Inl f)
      with new c p2 s2 s1 free assms(1) show ?thesis by (auto simp: pair_ctx_def)
    next
      case r2: (Inr u2)
      then obtain d where d: "pem_cert lib cert (c_int (length cert)) = Some d"
        "w_ctx w2 = (w_ctx w)(c \<mapsto> (fresh_ctx lib)\<lparr> c_cert := Some d \<rparr>)"
        using s2(3) s1(2) by auto
      obtain r3 w3 where p3: "ktls_pem_into lib c key True w2 = (r3, w3)" by fastforce
      note s3 = ktls_pem_into_store [OF p3]
      show ?thesis
      proof (cases r3)
        case (Inl f)
        with new c p2 r2 p3 s3 s2(1) d s1 free assms(1) show ?thesis by (auto simp: pair_ctx_def)
      next
        case r3: (Inr u3)
        then obtain k where k: "pem_key lib key (c_int (length key)) = Some k"
          "w_ctx w3 = (w_ctx w)(c \<mapsto> (fresh_ctx lib)\<lparr> c_cert := Some d, c_key := Some k \<rparr>)"
          using s3(3) d(2) by auto
        have check: "check_private_key lib c w3 \<longleftrightarrow> key_fits lib d k"
          using k(2) by (simp add: check_private_key_def)
        show ?thesis
        proof (cases "key_fits lib d k")
          case True
          with new c p2 r2 p3 r3 check assms(1) have "r = Inr c" "w' = w3"
            by (simp_all add: pair_ctx_def)
          with True k d(1) c_eq s1(1) s2(1) s3(1) show ?thesis by auto
        next
          case False
          with new c p2 r2 p3 r3 check assms(1) k(2) s1(1) s2(1) s3(1) free show ?thesis
            by (auto simp: pair_ctx_def fail_with_def)
        qed
      qed
    qed
  qed
qed

section \<open>The invariant of keys\<close>

definition key_ctxs :: "ktls_keys \<Rightarrow> nat list" where
  "key_ctxs keys = k_ctx keys # map snd (k_named keys)"

definition suites_in_force :: "'z ctx_lib_scheme \<Rightarrow> ktls_keys \<Rightarrow> string" where
  "suites_in_force lib keys = (if k_suites keys = [] then default_suites lib else k_suites keys)"

definition alpn_in_force :: "ktls_keys \<Rightarrow> bytes" where
  "alpn_in_force keys = take (k_alpn_len keys) (k_alpn keys)"

text \<open>A context answers the way the keys say: TLS 1.3, our order, the suites, the ALPN list.\<close>

definition ctx_ok :: "'z ctx_lib_scheme \<Rightarrow> ktls_keys \<Rightarrow> ssl_ctx \<Rightarrow> bool" where
  "ctx_ok lib keys x \<longleftrightarrow>
     c_min_version x = TLS1_3_VERSION lib \<and> c_max_version x = TLS1_3_VERSION lib \<and>
     c_server_preference x \<and> c_keylog x \<and>
     c_suites x = suites_in_force lib keys \<and> c_alpn_protos x = alpn_in_force keys \<and>
     (k_alpn_len keys \<noteq> 0 \<longrightarrow> c_alpn_cb x)"

text \<open>What every call keeps, whether it succeeds or not.\<close>

definition keys_shape :: "ktls_keys \<Rightarrow> world \<Rightarrow> bool" where
  "keys_shape keys w \<longleftrightarrow>
     world_wf w \<and> distinct (key_ctxs keys) \<and> (\<forall>c \<in> set (key_ctxs keys). w_ctx w c \<noteq> None) \<and>
     length (k_alpn keys) = 256 \<and> k_alpn_len keys \<le> 256 \<and> length (k_suites keys) \<le> 255 \<and>
     distinct (map (map to_lower \<circ> fst) (k_named keys)) \<and>
     (\<forall>(host, c) \<in> set (k_named keys). host \<noteq> [] \<and> length host \<le> 255) \<and>
     (k_named keys \<noteq> [] \<longrightarrow> (\<exists>x. w_ctx w (k_ctx keys) = Some x \<and> c_servername_cb x))"

text \<open>What a call that succeeds keeps.\<close>

definition keys_inv :: "'z ctx_lib_scheme \<Rightarrow> ktls_keys \<Rightarrow> world \<Rightarrow> bool" where
  "keys_inv lib keys w \<longleftrightarrow>
     keys_shape keys w \<and>
     (\<forall>c \<in> set (key_ctxs keys). \<exists>x. w_ctx w c = Some x \<and> ctx_ok lib keys x)"

text \<open>A change made to a set of contexts, each once.\<close>

definition change_all :: "(ssl_ctx \<Rightarrow> ssl_ctx) \<Rightarrow> nat set \<Rightarrow> (nat \<Rightarrow> ssl_ctx option) \<Rightarrow> nat \<Rightarrow> ssl_ctx option" where
  "change_all f S m = (\<lambda>c. if c \<in> S then map_option f (m c) else m c)"

lemma change_all_empty [simp]: "change_all f {} m = m"
  by (simp add: change_all_def)

lemma change_all_insert:
  "c \<notin> S \<Longrightarrow> change_all f S (m(c := map_option f (m c))) = change_all f (insert c S) m"
  by (auto simp: change_all_def)

lemma all_ciphersuites_ok:
  assumes "all_ciphersuites lib s cs w = (Inr u, w')" "distinct (map snd cs)"
  shows "w_next w' = w_next w \<and>
    w_ctx w' = change_all (\<lambda>x. x\<lparr> c_suites := s \<rparr>) (set (map snd cs)) (w_ctx w)"
  using assms
proof (induction cs arbitrary: w)
  case Nil
  then show ?case by simp
next
  case (Cons p cs)
  obtain h c where p: "p = (h, c)" by (cases p)
  obtain ok w1 where w1: "set_ciphersuites lib c s w = (ok, w1)" by fastforce
  from Cons.prems(1) p w1 have ok: "ok" "all_ciphersuites lib s cs w1 = (Inr u, w')"
    by (auto simp: fail_with_def split: if_splits)
  with Cons.IH Cons.prems(2) set_ciphersuites_store [OF w1] p show ?case
    by (simp add: change_all_insert)
qed

lemma all_alpn_ok:
  assumes "all_alpn lib a cs w = (Inr u, w')" "distinct (map snd cs)"
  shows "w_next w' = w_next w \<and>
    w_ctx w' = change_all (\<lambda>x. x\<lparr> c_alpn_cb := True, c_alpn_protos := a \<rparr>) (set (map snd cs)) (w_ctx w)"
  using assms
proof (induction cs arbitrary: w)
  case Nil
  then show ?case by simp
next
  case (Cons p cs)
  obtain h c where p: "p = (h, c)" by (cases p)
  obtain ok w1 where
    w1: "set_alpn_protos c a (upd_ctx c (\<lambda>x. x\<lparr> c_alpn_cb := True \<rparr>) w) = (ok, w1)" by fastforce
  from Cons.prems(1) p w1 have ok: "ok" "all_alpn lib a cs w1 = (Inr u, w')"
    by (auto simp: fail_with_def split: if_splits)
  have "w_ctx w1 = (w_ctx w)
      (c := map_option (\<lambda>x. x\<lparr> c_alpn_cb := True, c_alpn_protos := a \<rparr>) (w_ctx w c))"
    using set_alpn_protos_store [OF w1] ok by (cases "w_ctx w c") simp_all
  with ok Cons.IH Cons.prems(2) set_alpn_protos_store(1) [OF w1] p show ?case
    by (simp add: change_all_insert)
qed

lemma fresh_ctx_ok:
  "ctx_ok lib (keys_zero c) (fresh_ctx lib)"
  "ctx_ok lib (keys_zero c) ((fresh_ctx lib)\<lparr> c_cert := d, c_key := k \<rparr>)"
  "ctx_ok lib (keys_zero c) ((fresh_ctx lib)\<lparr> c_verify_none := v \<rparr>)"
  by (simp_all add: keys_zero_def ctx_ok_def fresh_ctx_def blank_ctx_def suites_in_force_def
      alpn_in_force_def)

lemma keys_inv_zero:
  assumes "world_wf w" "w_ctx w' = (w_ctx w)(c \<mapsto> x)" "c = w_next w" "w_next w' = w_next w + 1"
    "ctx_ok lib (keys_zero c) x"
  shows "keys_inv lib (keys_zero c) w'"
  using assms
  by (auto simp: keys_inv_def keys_shape_def keys_zero_def key_ctxs_def world_wf_def)

text \<open>A server's keys: the invariant holds, and a failing call leaves no context behind.\<close>

lemma keys_server_store:
  assumes "ktls_keys_server lib cert key w = (r, w')" "world_wf w"
  shows "case r of Inl f \<Rightarrow> w_ctx w' = w_ctx w
    | Inr keys \<Rightarrow> keys_inv lib keys w' \<and> k_ctx keys = w_next w \<and>
        (\<forall>c. c \<noteq> w_next w \<longrightarrow> w_ctx w' c = w_ctx w c)"
proof -
  obtain b w1 where w1: "fault w = (b, w1)" by fastforce
  have s1: "w_ctx w1 = w_ctx w" "w_next w1 = w_next w" using fault_sel [OF w1] by simp_all
  obtain r2 w2 where p: "pair_ctx lib cert key w1 = (r2, w2)" by fastforce
  have wf1: "world_wf w1" using assms(2) s1 by (simp add: world_wf_def)
  note s2 = pair_ctx_store [OF p wf1]
  show ?thesis
  proof (cases b)
    case True
    with assms(1) w1 s1 show ?thesis by (auto simp: ktls_keys_server_def fail_with_def)
  next
    case False
    show ?thesis
    proof (cases r2)
      case (Inl f)
      with False assms(1) w1 p s2 s1 show ?thesis by (auto simp: ktls_keys_server_def)
    next
      case (Inr c)
      with s2 obtain d k where st: "c = w_next w1" "w_next w2 = w_next w1 + 1"
        "w_ctx w2 = (w_ctx w1)(c \<mapsto> (fresh_ctx lib)\<lparr> c_cert := Some d, c_key := Some k \<rparr>)" by auto
      have "keys_inv lib (keys_zero c) w2"
        using keys_inv_zero [OF wf1 st(3,1,2)] fresh_ctx_ok(2) by blast
      with Inr False assms(1) w1 p st s1 show ?thesis
        by (auto simp: ktls_keys_server_def keys_zero_def)
    qed
  qed
qed

lemma keys_client_store:
  assumes "ktls_keys_client lib w = (r, w')" "world_wf w"
  shows "case r of Inl f \<Rightarrow> w_ctx w' = w_ctx w
    | Inr keys \<Rightarrow> keys_inv lib keys w' \<and> k_ctx keys = w_next w \<and>
        (\<forall>c. c \<noteq> w_next w \<longrightarrow> w_ctx w' c = w_ctx w c)"
proof -
  obtain b w1 where w1: "fault w = (b, w1)" by fastforce
  have s1: "w_ctx w1 = w_ctx w" "w_next w1 = w_next w" using fault_sel [OF w1] by simp_all
  obtain r2 w2 where p: "ktls_ctx_new lib w1 = (r2, w2)" by fastforce
  have wf1: "world_wf w1" using assms(2) s1 by (simp add: world_wf_def)
  note s2 = ktls_ctx_new_store [OF p wf1]
  show ?thesis
  proof (cases b)
    case True
    with assms(1) w1 s1 show ?thesis by (auto simp: ktls_keys_client_def fail_with_def)
  next
    case False
    show ?thesis
    proof (cases r2)
      case (Inl f)
      with False assms(1) w1 p s2 s1 show ?thesis by (auto simp: ktls_keys_client_def)
    next
      case (Inr c)
      define w3 where "w3 = upd_ctx c (\<lambda>x. x\<lparr> c_verify_none := True \<rparr>) w2"
      from Inr s2 have st: "c = w_next w1" "w_next w3 = w_next w1 + 1"
        "w_ctx w3 = (w_ctx w1)(c \<mapsto> (fresh_ctx lib)\<lparr> c_verify_none := True \<rparr>)"
        by (auto simp: w3_def)
      have "keys_inv lib (keys_zero c) w3"
        using keys_inv_zero [OF wf1 st(3,1,2)] fresh_ctx_ok(3) by blast
      with Inr False assms(1) w1 p st s1 show ?thesis
        by (auto simp: ktls_keys_client_def keys_zero_def w3_def)
    qed
  qed
qed

end
