(* ===== verification/Ktls_Keys_Calls.thy ===== *)
theory Ktls_Keys_Calls
  imports Ktls_Keys
begin

text \<open>
  The calls that configure keys, in any order and with failures anywhere: after calls that
  succeed every context of the keys answers alike, whatever the order they came in, and
  whatever failed, the keys own exactly the contexts they list, so that freeing them gives
  back the store as it was.
\<close>

section \<open>One call\<close>

datatype keys_call =
    SetCiphers "string option"
  | SetAlpn "bytes list"
  | AddCertificate "string option" string string

definition keys_do ::
    "'z ctx_lib_scheme \<Rightarrow> keys_call \<Rightarrow> ktls_keys \<Rightarrow> world \<Rightarrow> (failure + unit) \<times> ktls_keys \<times> world" where
  "keys_do lib call keys w =
     (case call of
        SetCiphers s \<Rightarrow> ktls_keys_set_ciphers lib s keys w
      | SetAlpn ps \<Rightarrow> ktls_keys_set_alpn lib ps keys w
      | AddCertificate host cert key \<Rightarrow> ktls_keys_add_certificate lib host cert key keys w)"

text \<open>
  What a call may do to the store: it touches no context but those of the keys, and a
  context it adds to the keys was not there before.
\<close>

definition owns_only :: "ktls_keys \<Rightarrow> world \<Rightarrow> ktls_keys \<Rightarrow> world \<Rightarrow> bool" where
  "owns_only keys w keys' w' \<longleftrightarrow>
     k_ctx keys' = k_ctx keys \<and>
     (\<forall>c. c \<notin> set (key_ctxs keys') \<longrightarrow> w_ctx w' c = w_ctx w c) \<and>
     set (key_ctxs keys) \<subseteq> set (key_ctxs keys') \<and>
     (\<forall>c \<in> set (key_ctxs keys') - set (key_ctxs keys). w_ctx w c = None)"

lemma owns_only_refl [intro, simp]: "w_ctx w' = w_ctx w \<Longrightarrow> k_ctx keys' = k_ctx keys \<Longrightarrow>
    k_named keys' = k_named keys \<Longrightarrow> owns_only keys w keys' w'"
  by (simp add: owns_only_def key_ctxs_def)

lemma owns_only_trans:
  assumes "owns_only keys w keys1 w1" "owns_only keys1 w1 keys2 w2"
  shows "owns_only keys w keys2 w2"
  unfolding owns_only_def
proof (intro conjI ballI allI impI)
  show "k_ctx keys2 = k_ctx keys" using assms by (simp add: owns_only_def)
  show "set (key_ctxs keys) \<subseteq> set (key_ctxs keys2)" using assms by (auto simp: owns_only_def)
  fix c
  show "c \<notin> set (key_ctxs keys2) \<Longrightarrow> w_ctx w2 c = w_ctx w c"
    using assms unfolding owns_only_def by (metis subsetD)
  show "c \<in> set (key_ctxs keys2) - set (key_ctxs keys) \<Longrightarrow> w_ctx w c = None"
    using assms unfolding owns_only_def by (metis DiffD1 DiffD2 DiffI)
qed

text \<open>A change to contexts the keys own, by a function that leaves the callback in place.\<close>

definition keeps_names :: "(nat \<Rightarrow> ssl_ctx option) \<Rightarrow> (nat \<Rightarrow> ssl_ctx option) \<Rightarrow> bool" where
  "keeps_names m m' \<longleftrightarrow> (\<forall>c. map_option c_servername_cb (m' c) = map_option c_servername_cb (m c))"

lemma keeps_names_refl [simp]: "keeps_names m m"
  by (simp add: keeps_names_def)

lemma keeps_names_trans: "keeps_names m m1 \<Longrightarrow> keeps_names m1 m2 \<Longrightarrow> keeps_names m m2"
  by (simp add: keeps_names_def)

lemma keeps_names_None: "keeps_names m m' \<Longrightarrow> m' c = None \<longleftrightarrow> m c = None"
  by (metis keeps_names_def map_option_is_None)

lemma keeps_names_cb:
  "keeps_names m m' \<Longrightarrow> m c = Some x \<Longrightarrow> c_servername_cb x \<Longrightarrow> \<exists>y. m' c = Some y \<and> c_servername_cb y"
  unfolding keeps_names_def by (metis map_option_eq_Some)

lemma keeps_names_upd [simp]:
  "(\<And>x. c_servername_cb (f x) = c_servername_cb x) \<Longrightarrow> keeps_names m (m(c := map_option f (m c)))"
  by (simp add: keeps_names_def option.map_comp o_def)

definition touches :: "nat set \<Rightarrow> world \<Rightarrow> world \<Rightarrow> bool" where
  "touches S w w' \<longleftrightarrow> w_next w' = w_next w \<and> keeps_names (w_ctx w) (w_ctx w') \<and>
     (\<forall>c. c \<notin> S \<longrightarrow> w_ctx w' c = w_ctx w c)"

lemma touches_refl [simp]: "touches S w w"
  by (simp add: touches_def)

lemma touches_trans: "touches S w w1 \<Longrightarrow> touches S w1 w2 \<Longrightarrow> touches S w w2"
  by (auto simp: touches_def intro: keeps_names_trans)

lemma touches_mono: "touches S w w' \<Longrightarrow> S \<subseteq> T \<Longrightarrow> touches T w w'"
  by (auto simp: touches_def)

lemma fail_with_touches: "fail_with lib f w = (r, w') \<Longrightarrow> touches S w w' \<and> r = Inl f"
  by (auto simp: fail_with_def touches_def)

lemma touches_upd:
  "(\<And>x. c_servername_cb (f x) = c_servername_cb x) \<Longrightarrow> c \<in> S \<Longrightarrow> touches S w (upd_ctx c f w)"
  by (auto simp: touches_def)

lemma set_ciphersuites_touches:
  "set_ciphersuites lib c s w = (ok, w') \<Longrightarrow> c \<in> S \<Longrightarrow> touches S w w'"
  using set_ciphersuites_store [of lib c s w ok w'] by (auto simp: touches_def)

lemma set_alpn_protos_touches:
  "set_alpn_protos c p w = (ok, w') \<Longrightarrow> c \<in> S \<Longrightarrow> touches S w w'"
  using set_alpn_protos_store [of c p w ok w'] by (auto simp: touches_def)

lemma all_ciphersuites_touches:
  "all_ciphersuites lib s cs w = (r, w') \<Longrightarrow> snd ` set cs \<subseteq> S \<Longrightarrow> touches S w w'"
proof (induction cs arbitrary: w)
  case Nil
  then show ?case by (simp add: touches_def)
next
  case (Cons p cs)
  obtain h c where p: "p = (h, c)" by (cases p)
  obtain ok w1 where w1: "set_ciphersuites lib c s w = (ok, w1)" by fastforce
  have "touches S w w1" using set_ciphersuites_touches [OF w1] Cons.prems(2) p by simp
  moreover have "touches S w1 w'"
    using Cons p w1 by (auto split: if_splits dest: fail_with_touches)
  ultimately show ?case by (rule touches_trans)
qed

lemma all_alpn_touches:
  "all_alpn lib a cs w = (r, w') \<Longrightarrow> snd ` set cs \<subseteq> S \<Longrightarrow> touches S w w'"
proof (induction cs arbitrary: w)
  case Nil
  then show ?case by (simp add: touches_def)
next
  case (Cons p cs)
  obtain h c where p: "p = (h, c)" by (cases p)
  let ?w1 = "upd_ctx c (\<lambda>x. x\<lparr> c_alpn_cb := True \<rparr>) w"
  obtain ok w2 where w2: "set_alpn_protos c a ?w1 = (ok, w2)" by fastforce
  have "touches S w ?w1" using Cons.prems(2) p by (intro touches_upd) simp_all
  moreover have "touches S ?w1 w2" using set_alpn_protos_touches [OF w2] Cons.prems(2) p by simp
  moreover have "touches S w2 w'"
    using Cons p w2 by (auto split: if_splits dest: fail_with_touches)
  ultimately show ?case by (blast intro: touches_trans)
qed

lemma touches_shape:
  assumes "touches (set (key_ctxs keys)) w w'" "keys_shape keys w"
    "k_ctx keys' = k_ctx keys" "k_named keys' = k_named keys"
    "length (k_alpn keys') = 256" "k_alpn_len keys' \<le> 256" "length (k_suites keys') \<le> 255"
  shows "keys_shape keys' w'" and "owns_only keys w keys' w'"
proof -
  have k: "key_ctxs keys' = key_ctxs keys" using assms(3,4) by (simp add: key_ctxs_def)
  show "keys_shape keys' w'"
  proof -
    have names: "keeps_names (w_ctx w) (w_ctx w')" and next_eq: "w_next w' = w_next w"
      using assms(1) by (simp_all add: touches_def)
    have none: "w_ctx w' c = None \<longleftrightarrow> w_ctx w c = None" for c
      by (rule keeps_names_None [OF names])
    have "k_named keys \<noteq> [] \<Longrightarrow> \<exists>x. w_ctx w' (k_ctx keys) = Some x \<and> c_servername_cb x"
      using assms(2) keeps_names_cb [OF names] by (auto simp: keys_shape_def)
    then show ?thesis
      using assms(2-7) k by (simp add: keys_shape_def world_wf_def none next_eq)
  qed
  show "owns_only keys w keys' w'"
    using assms(1,3) k by (simp add: owns_only_def touches_def)
qed

section \<open>Suites and ALPN\<close>

lemma change_key_ctxs:
  assumes "distinct (key_ctxs keys)" "m1 = m(k_ctx keys := map_option f (m (k_ctx keys)))"
  shows "change_all f (set (map snd (k_named keys))) m1 = change_all f (set (key_ctxs keys)) m"
  using assms change_all_insert [of "k_ctx keys" "set (map snd (k_named keys))" f m]
  by (simp add: key_ctxs_def)

lemma change_all_ctx_ok:
  assumes "keys_inv lib keys w" "w_ctx w' = change_all f (set (key_ctxs keys)) (w_ctx w)"
    "k_ctx keys' = k_ctx keys" "k_named keys' = k_named keys" "keys_shape keys' w'"
    "\<And>x. ctx_ok lib keys x \<Longrightarrow> ctx_ok lib keys' (f x)"
  shows "keys_inv lib keys' w'"
  using assms by (force simp: keys_inv_def change_all_def key_ctxs_def)

lemma set_ciphers_laws:
  assumes op: "ktls_keys_set_ciphers lib suites keys w = (r, keys', w')" and shape: "keys_shape keys w"
  shows "keys_shape keys' w' \<and> owns_only keys w keys' w' \<and>
    (keys_inv lib keys w \<longrightarrow> r = Inr () \<longrightarrow> keys_inv lib keys' w')"
proof -
  let ?S = "set (key_ctxs keys)"
  define s where "s = (case suites of None \<Rightarrow> [] | Some s \<Rightarrow> s)"
  have kS: "k_ctx keys \<in> ?S" "snd ` set (k_named keys) \<subseteq> ?S" by (auto simp: key_ctxs_def)
  have lens: "length (k_alpn keys) = 256" "k_alpn_len keys \<le> 256" "length (k_suites keys) \<le> 255"
    using shape by (simp_all add: keys_shape_def)
  show ?thesis
  proof (cases "length s = 0 \<or> 256 \<le> length s")
    case True
    then have "touches ?S w w' \<and> keys' = keys \<and> r \<noteq> Inr ()"
      using op by (auto simp: ktls_keys_set_ciphers_def s_def Let_def
          split: prod.splits dest: fail_with_touches)
    then show ?thesis using touches_shape [of keys w w' keys'] shape lens by simp
  next
    case ok_len: False
    obtain ok w1 where w1: "set_ciphersuites lib (k_ctx keys) s w = (ok, w1)" by fastforce
    have t1: "touches ?S w w1" by (rule set_ciphersuites_touches [OF w1 kS(1)])
    show ?thesis
    proof (cases ok)
      case False
      then have "touches ?S w1 w' \<and> keys' = keys \<and> r \<noteq> Inr ()"
        using op w1 ok_len by (auto simp: ktls_keys_set_ciphers_def s_def [symmetric] Let_def
            split: prod.splits dest: fail_with_touches)
      then show ?thesis
        using touches_shape [of keys w w' keys'] shape lens t1 touches_trans by blast
    next
      case True
      obtain w2 where w2: "all_ciphersuites lib s (k_named keys) w1 = (r, w2)"
        "keys' = keys\<lparr> k_suites := s \<rparr>" "w' = w2"
        using op w1 ok_len True by (auto simp: ktls_keys_set_ciphers_def s_def [symmetric] Let_def
            split: prod.splits)
      have t2: "touches ?S w w'"
        using touches_trans [OF t1] all_ciphersuites_touches [OF w2(1) kS(2)] w2(3) by simp
      have s': "keys_shape keys' w'" and o': "owns_only keys w keys' w'"
        using touches_shape [OF t2 shape, of keys'] lens ok_len w2(2) by simp_all
      moreover have "keys_inv lib keys' w'" if inv: "keys_inv lib keys w" and r: "r = Inr ()"
      proof (rule change_all_ctx_ok [OF inv _ _ _ s'])
        have d: "distinct (key_ctxs keys)" using shape by (simp add: keys_shape_def)
        show "w_ctx w' = change_all (\<lambda>x. x\<lparr> c_suites := s \<rparr>) ?S (w_ctx w)"
          using all_ciphersuites_ok [OF w2(1) [unfolded r]] d
            set_ciphersuites_store(2) [OF w1] True w2(3)
          by (subst change_key_ctxs [OF d, symmetric]) (simp_all add: key_ctxs_def)
        show "ctx_ok lib keys' (x\<lparr> c_suites := s \<rparr>)" if "ctx_ok lib keys x" for x
          using that w2(2) ok_len
          by (auto simp: ctx_ok_def suites_in_force_def alpn_in_force_def)
      qed (simp_all add: w2(2))
      ultimately show ?thesis by blast
    qed
  qed
qed

lemma alpn_write_Some_facts:
  assumes "alpn_write ps alpn 0 = (Some n, a)" "length alpn = 256"
  shows "n \<le> 256" "length a = 256" "take n a = alpn_wire ps" "n = length (alpn_wire ps)"
    "alpn_names_ok ps"
proof -
  have n: "alpn_names_ok ps" "n = length (alpn_wire ps)" "n \<le> 256"
    using alpn_write_Some [of ps alpn 0 n] assms by simp_all
  moreover have "a = memcpy_at alpn 0 (alpn_wire ps)"
    using alpn_write_ok [of ps 0 alpn] n assms by simp
  ultimately show "n \<le> 256" "length a = 256" "take n a = alpn_wire ps" "n = length (alpn_wire ps)"
    "alpn_names_ok ps"
    using assms(2) by (simp_all add: length_memcpy_at take_memcpy_at_0)
qed

lemma set_alpn_laws:
  assumes op: "ktls_keys_set_alpn lib ps keys w = (r, keys', w')" and shape: "keys_shape keys w"
  shows "keys_shape keys' w' \<and> owns_only keys w keys' w' \<and>
    (keys_inv lib keys w \<longrightarrow> r = Inr () \<longrightarrow> keys_inv lib keys' w')"
proof -
  let ?S = "set (key_ctxs keys)"
  have kS: "k_ctx keys \<in> ?S" "snd ` set (k_named keys) \<subseteq> ?S" by (auto simp: key_ctxs_def)
  have lens: "length (k_alpn keys) = 256" "k_alpn_len keys \<le> 256" "length (k_suites keys) \<le> 255"
    using shape by (simp_all add: keys_shape_def)
  obtain n a where n: "alpn_write ps (k_alpn keys) 0 = (n, a)" by fastforce
  have a_len: "length a = 256" using alpn_write_length [of "k_alpn keys" ps 0] lens n by simp
  show ?thesis
  proof (cases n)
    case None
    then have "touches ?S w w' \<and> keys' = keys\<lparr> k_alpn := a \<rparr> \<and> r \<noteq> Inr ()"
      using op n by (auto simp: ktls_keys_set_alpn_def split: prod.splits dest: fail_with_touches)
    then show ?thesis using touches_shape [of keys w w' keys'] shape lens a_len by simp
  next
    case (Some m)
    note wr = alpn_write_Some_facts [OF n [unfolded Some] lens(1)]
    let ?k1 = "keys\<lparr> k_alpn := a, k_alpn_len := m \<rparr>"
    let ?w1 = "upd_ctx (k_ctx keys) (\<lambda>x. x\<lparr> c_alpn_cb := True \<rparr>) w"
    let ?f = "\<lambda>x. x\<lparr> c_alpn_cb := True, c_alpn_protos := take m a \<rparr>"
    obtain ok w2 where w2: "set_alpn_protos (k_ctx keys) (take m a) ?w1 = (ok, w2)" by fastforce
    have "touches ?S w ?w1" using kS(1) by (intro touches_upd) simp_all
    then have t2: "touches ?S w w2"
      using set_alpn_protos_touches [OF w2 kS(1)] by (rule touches_trans)
    have k': "keys' = ?k1"
      using op n Some w2 by (auto simp: ktls_keys_set_alpn_def Let_def split: prod.splits if_splits)
    have rest: "if ok then all_alpn lib (take m a) (k_named keys) w2 = (r, w')
        else fail_with lib (Fail ''SSL_CTX_set_alpn_protos'') w2 = (r, w')"
      using op n Some w2 by (auto simp: ktls_keys_set_alpn_def Let_def split: prod.splits if_splits)
    then have "touches ?S w2 w'"
      using all_alpn_touches [of lib "take m a" "k_named keys" w2 r w' ?S] kS(2)
      by (auto dest: fail_with_touches split: if_splits)
    with t2 have t': "touches ?S w w'" by (rule touches_trans)
    have s': "keys_shape keys' w'" and o': "owns_only keys w keys' w'"
      using touches_shape [OF t' shape, of keys'] lens wr a_len k' by simp_all
    moreover have "keys_inv lib keys' w'" if inv: "keys_inv lib keys w" and r: "r = Inr ()"
    proof (rule change_all_ctx_ok [OF inv _ _ _ s'])
      have d: "distinct (key_ctxs keys)" using shape by (simp add: keys_shape_def)
      have ok: "ok" "all_alpn lib (take m a) (k_named keys) w2 = (Inr (), w')"
        using rest r by (auto dest: fail_with_touches split: if_splits)
      have "w_ctx w2 = (w_ctx w)(k_ctx keys := map_option ?f (w_ctx w (k_ctx keys)))"
        using set_alpn_protos_store(2) [OF w2] ok(1) by (cases "w_ctx w (k_ctx keys)") simp_all
      then show "w_ctx w' = change_all ?f ?S (w_ctx w)"
        using all_alpn_ok [OF ok(2)] d
        by (subst change_key_ctxs [OF d, symmetric]) (simp_all add: key_ctxs_def)
      show "ctx_ok lib keys' (?f x)" if "ctx_ok lib keys x" for x
        using that k' by (auto simp: ctx_ok_def suites_in_force_def alpn_in_force_def)
    qed (simp_all add: k')
    ultimately show ?thesis by blast
  qed
qed

section \<open>A further certificate\<close>

lemma ctx_follow_touches:
  assumes "ktls_ctx_follow lib keys c w = (r, w')"
  shows "touches {c} w w'"
proof -
  obtain ok w1 where w1: "(if k_suites keys \<noteq> [] then set_ciphersuites lib c (k_suites keys) w
      else (True, w)) = (ok, w1)" by fastforce
  have t1: "touches {c} w w1"
    using w1 set_ciphersuites_touches [of lib c "k_suites keys" w ok w1 "{c}"]
    by (auto simp: touches_def split: if_splits)
  let ?w2 = "upd_ctx c (\<lambda>x. x\<lparr> c_alpn_cb := True \<rparr>) w1"
  obtain ok2 w3 where w3: "set_alpn_protos c (take (k_alpn_len keys) (k_alpn keys)) ?w2 = (ok2, w3)"
    by fastforce
  have "touches {c} w1 ?w2" by (intro touches_upd) simp_all
  then have t3: "touches {c} w1 w3"
    using set_alpn_protos_touches [OF w3] by (blast intro: touches_trans)
  have "touches {c} w1 w'"
    using assms w1 w3 t3
    by (auto simp: ktls_ctx_follow_def Let_def
        split: if_splits dest: fail_with_touches intro: touches_trans)
  with t1 show ?thesis by (rule touches_trans)
qed

lemma ctx_follow_ok:
  assumes "ktls_ctx_follow lib keys c w = (Inr u, w')" "w_ctx w c = Some x" "ctx_ok lib (keys_zero c0) x"
  shows "\<exists>y. w_ctx w' c = Some y \<and> ctx_ok lib keys y"
proof -
  obtain ok w1 where w1: "(if k_suites keys \<noteq> [] then set_ciphersuites lib c (k_suites keys) w
      else (True, w)) = (ok, w1)" by fastforce
  have ok: "ok" using assms(1) w1 by (auto simp: ktls_ctx_follow_def Let_def fail_with_def split: if_splits)
  have x1: "w_ctx w1 c = Some (x\<lparr> c_suites := suites_in_force lib keys \<rparr>)"
  proof (cases "k_suites keys = []")
    case True
    with w1 assms(2,3) show ?thesis by (simp add: suites_in_force_def ctx_ok_def keys_zero_def)
  next
    case False
    with w1 ok set_ciphersuites_store(2) [of lib c "k_suites keys" w ok w1] assms(2) show ?thesis
      by (simp add: suites_in_force_def)
  qed
  show ?thesis
  proof (cases "k_alpn_len keys = 0")
    case True
    with assms(1) w1 ok have "w' = w1" by (simp add: ktls_ctx_follow_def Let_def)
    with x1 assms(3) True show ?thesis by (simp add: ctx_ok_def alpn_in_force_def keys_zero_def)
  next
    case False
    let ?w2 = "upd_ctx c (\<lambda>x. x\<lparr> c_alpn_cb := True \<rparr>) w1"
    obtain ok2 w3 where w3: "set_alpn_protos c (take (k_alpn_len keys) (k_alpn keys)) ?w2 = (ok2, w3)"
      by fastforce
    with assms(1) w1 ok False have "ok2" "w' = w3"
      by (auto simp: ktls_ctx_follow_def Let_def fail_with_def split: if_splits)
    with set_alpn_protos_store(2) [OF w3] x1 assms(3) show ?thesis
      by (simp add: ctx_ok_def alpn_in_force_def)
  qed
qed

text \<open>A refused certificate leaves the keys and the store as they were.\<close>

lemma add_certificate_refused:
  assumes op: "ktls_keys_add_certificate lib host cert key keys w = (Inl f, keys', w')"
    and "world_wf w"
  shows "keys' = keys \<and> w_ctx w' = w_ctx w \<and> world_wf w'"
proof -
  obtain h where h: "h = (case host of None \<Rightarrow> [] | Some h \<Rightarrow> h)" by simp
  obtain r1 w1 where p: "pair_ctx lib cert key w = (r1, w1)" by fastforce
  note s1 = pair_ctx_store [OF p assms(2)]
  consider (len) "length h = 0 \<or> 256 \<le> length h"
    | (named) "\<not> (length h = 0 \<or> 256 \<le> length h)" "list_ex (\<lambda>(g, _). strcaseeq g h) (k_named keys)"
    | (go) "\<not> (length h = 0 \<or> 256 \<le> length h)" "\<not> list_ex (\<lambda>(g, _). strcaseeq g h) (k_named keys)"
    by blast
  then show ?thesis
  proof cases
    case len
    with op h assms(2) show ?thesis
      by (auto simp: ktls_keys_add_certificate_def fail_with_def world_wf_def)
  next
    case named
    with op h assms(2) show ?thesis
      by (auto simp: ktls_keys_add_certificate_def fail_with_def world_wf_def)
  next
    case go
    show ?thesis
    proof (cases r1)
      case (Inl e)
      with op h go p s1 assms(2) show ?thesis
        by (auto simp: ktls_keys_add_certificate_def world_wf_def)
    next
      case (Inr c)
      obtain r2 w2 where fo: "ktls_ctx_follow lib keys c w1 = (r2, w2)" by fastforce
      obtain b w3 where b: "fault w2 = (b, w3)" by fastforce
      have t: "touches {c} w1 w2" by (rule ctx_follow_touches [OF fo])
      have fr: "w_next w2 = w_next w + 1" "(w_ctx w2)(c := None) = w_ctx w"
        using t s1 Inr assms(2) by (auto simp: touches_def world_wf_def fun_eq_iff)
      then have wf: "\<And>v. w_ctx v = w_ctx w \<Longrightarrow> w_next v = w_next w2 \<Longrightarrow> world_wf v"
        using assms(2) by (simp add: world_wf_def)
      have "keys' = keys \<and> w_ctx w' = (w_ctx w2)(c := None) \<and> w_next w' = w_next w2"
        using op h go p Inr fo b fault_sel [OF b]
        by (auto simp: ktls_keys_add_certificate_def Let_def fail_with_def
            split: prod.splits sum.splits if_splits)
      with fr wf show ?thesis by simp
    qed
  qed
qed

lemma add_certificate_added:
  assumes op: "ktls_keys_add_certificate lib host cert key keys w = (Inr u, keys', w')"
    and wf: "world_wf w"
  shows "\<exists>h c y. host = Some h \<and> h \<noteq> [] \<and> length h \<le> 255 \<and>
    \<not> list_ex (\<lambda>(g, _). strcaseeq g h) (k_named keys) \<and> c = w_next w \<and> ctx_ok lib keys y \<and>
    keys' = keys\<lparr> k_named := k_named keys @ [(h, c)] \<rparr> \<and> w_next w' = w_next w + 1 \<and>
    w_ctx w' = ((w_ctx w)(c \<mapsto> y))
      (k_ctx keys := map_option (\<lambda>x. x\<lparr> c_servername_cb := True \<rparr>) (((w_ctx w)(c \<mapsto> y)) (k_ctx keys)))"
proof -
  define h where "h = (case host of None \<Rightarrow> [] | Some h \<Rightarrow> h)"
  obtain r1 w1 where p: "pair_ctx lib cert key w = (r1, w1)" by fastforce
  have go: "\<not> (length h = 0 \<or> 256 \<le> length h)" "\<not> list_ex (\<lambda>(g, _). strcaseeq g h) (k_named keys)"
    using op by (auto simp: ktls_keys_add_certificate_def h_def [symmetric] fail_with_def split: if_splits)
  then obtain c where c: "r1 = Inr c"
    using op p by (cases r1) (simp_all add: ktls_keys_add_certificate_def h_def [symmetric])
  obtain r2 w2 where fo: "ktls_ctx_follow lib keys c w1 = (r2, w2)" by fastforce
  obtain b w3 where b: "fault w2 = (b, w3)" by fastforce
  have op': "(case r2 of Inl f \<Rightarrow> (Inl f, keys, SSL_CTX_free c w2)
      | Inr _ \<Rightarrow> if b then (case fail_with lib (Say ''out of memory'') w3 of
                      (r, w4) \<Rightarrow> (r, keys, SSL_CTX_free c w4))
                else (Inr (), keys\<lparr> k_named := k_named keys @ [(h, c)] \<rparr>,
                      upd_ctx (k_ctx keys) (\<lambda>x. x\<lparr> c_servername_cb := True \<rparr>) w3)) = (Inr u, keys', w')"
    using op p c go fo b
    by (auto simp: ktls_keys_add_certificate_def h_def [symmetric] Let_def split: sum.splits)
  have r2: "r2 = Inr ()" and nb: "\<not> b" and
    k': "keys' = keys\<lparr> k_named := k_named keys @ [(h, c)] \<rparr>" and
    w': "w' = upd_ctx (k_ctx keys) (\<lambda>x. x\<lparr> c_servername_cb := True \<rparr>) w3"
    using op' by (auto simp: fail_with_def split: sum.splits if_splits)
  obtain d k where s1: "c = w_next w" "w_next w1 = w_next w + 1"
    "w_ctx w1 = (w_ctx w)(c \<mapsto> (fresh_ctx lib)\<lparr> c_cert := d, c_key := k \<rparr>)"
    using pair_ctx_store [OF p wf] c by auto
  obtain y where y: "w_ctx w2 c = Some y" "ctx_ok lib keys y"
    using ctx_follow_ok [OF fo [unfolded r2] _ fresh_ctx_ok(2)] s1(3) by auto
  have t: "touches {c} w1 w2" by (rule ctx_follow_touches [OF fo])
  have "w_ctx w3 = (w_ctx w)(c \<mapsto> y)" "w_next w3 = w_next w + 1"
    using t y(1) s1 fault_sel [OF b] by (auto simp: touches_def fun_eq_iff)
  with w' k' go y(2) s1(1) h_def show ?thesis
    by (cases host) auto
qed

lemma add_certificate_laws:
  assumes op: "ktls_keys_add_certificate lib host cert key keys w = (r, keys', w')"
    and shape: "keys_shape keys w"
  shows "keys_shape keys' w' \<and> owns_only keys w keys' w' \<and>
    (keys_inv lib keys w \<longrightarrow> r = Inr () \<longrightarrow> keys_inv lib keys' w')"
proof (cases r)
  case (Inl f)
  have wf: "world_wf w" using shape by (simp add: keys_shape_def)
  from Inl add_certificate_refused [OF op [unfolded Inl] wf] shape show ?thesis
    by (simp add: keys_shape_def)
next
  case (Inr u)
  have wf: "world_wf w" using shape by (simp add: keys_shape_def)
  obtain h y where a: "h \<noteq> []" "length h \<le> 255"
      "\<not> list_ex (\<lambda>(g, _). strcaseeq g h) (k_named keys)"
      "ctx_ok lib keys y" "keys' = keys\<lparr> k_named := k_named keys @ [(h, w_next w)] \<rparr>"
      "w_next w' = w_next w + 1" and
    m: "w_ctx w' = ((w_ctx w)(w_next w \<mapsto> y))
      (k_ctx keys := map_option (\<lambda>x. x\<lparr> c_servername_cb := True \<rparr>)
         (((w_ctx w)(w_next w \<mapsto> y)) (k_ctx keys)))"
    using add_certificate_added [OF op [unfolded Inr] wf] by blast
  have fresh: "w_next w \<notin> set (key_ctxs keys)" "w_ctx w (w_next w) = None"
    using shape by (auto simp: keys_shape_def world_wf_def)
  have kc: "key_ctxs keys' = key_ctxs keys @ [w_next w]" "k_ctx keys' = k_ctx keys"
    by (simp_all add: key_ctxs_def a(5))
  have main: "k_ctx keys \<in> set (key_ctxs keys)" by (simp add: key_ctxs_def)
  have ne: "k_ctx keys \<noteq> w_next w" using fresh(1) main by metis
  obtain x0 where x0: "w_ctx w (k_ctx keys) = Some x0"
    using shape main by (auto simp: keys_shape_def)
  have m': "w_ctx w' = (w_ctx w)(w_next w \<mapsto> y, k_ctx keys \<mapsto> x0\<lparr> c_servername_cb := True \<rparr>)"
    using m ne x0 by simp
  have named: "map to_lower h \<notin> (map to_lower \<circ> fst) ` set (k_named keys)"
    using a(3) by (auto simp: list_ex_iff strcaseeq_def)
  have "keys_shape keys' w'"
    using shape a(1,2) named fresh ne kc m' x0
    by (auto simp: keys_shape_def a(5,6) world_wf_def)
  moreover have "owns_only keys w keys' w'"
    using main ne fresh kc m' by (auto simp: owns_only_def)
  moreover have "keys_inv lib keys' w'" if "keys_inv lib keys w"
    using that calculation(1) a(4) fresh(1) ne kc m' x0
    by (auto simp: keys_inv_def ctx_ok_def suites_in_force_def alpn_in_force_def a(5))
  ultimately show ?thesis by blast
qed

section \<open>Any sequence of calls\<close>

text \<open>Every call is made, whatever those before it answered; the answers are kept.\<close>

fun run_calls :: "('c \<Rightarrow> 'k \<Rightarrow> 'w \<Rightarrow> ('f + unit) \<times> 'k \<times> 'w) \<Rightarrow> 'c list \<Rightarrow> 'k \<Rightarrow> 'w \<Rightarrow>
    ('f + unit) list \<times> 'k \<times> 'w" where
  "run_calls oper [] k w = ([], k, w)"
| "run_calls oper (c # cs) k w =
     (let (r, k1, w1) = oper c k w; (rs, k2, w2) = run_calls oper cs k1 w1 in (r # rs, k2, w2))"

text \<open>
  What configuring calls promise: a shape every call keeps, a good state that every call
  which succeeds keeps, and a bound on what a call touches.
\<close>

locale configurable =
  fixes oper :: "'c \<Rightarrow> 'k \<Rightarrow> 'w \<Rightarrow> ('f + unit) \<times> 'k \<times> 'w"
    and shape :: "'k \<Rightarrow> 'w \<Rightarrow> bool"
    and good :: "'k \<Rightarrow> 'w \<Rightarrow> bool"
    and owns :: "'k \<Rightarrow> 'w \<Rightarrow> 'k \<Rightarrow> 'w \<Rightarrow> bool"
  assumes oper_shape: "oper c k w = (r, k', w') \<Longrightarrow> shape k w \<Longrightarrow> shape k' w'"
    and oper_owns: "oper c k w = (r, k', w') \<Longrightarrow> shape k w \<Longrightarrow> owns k w k' w'"
    and oper_good: "oper c k w = (Inr (), k', w') \<Longrightarrow> good k w \<Longrightarrow> good k' w'"
    and good_shape: "good k w \<Longrightarrow> shape k w"
    and owns_refl: "owns k w k w"
    and owns_trans: "owns k w k1 w1 \<Longrightarrow> owns k1 w1 k2 w2 \<Longrightarrow> owns k w k2 w2"
begin

lemma run_shape:
  "run_calls oper cs k w = (rs, k', w') \<Longrightarrow> shape k w \<Longrightarrow> shape k' w' \<and> owns k w k' w'"
proof (induction cs arbitrary: k w rs)
  case Nil
  then show ?case by (simp add: owns_refl)
next
  case (Cons c cs)
  obtain r k1 w1 where o: "oper c k w = (r, k1, w1)" by (cases "oper c k w")
  obtain rs1 k2 w2 where "run_calls oper cs k1 w1 = (rs1, k2, w2)"
    by (cases "run_calls oper cs k1 w1")
  with Cons.prems o have r: "run_calls oper cs k1 w1 = (rs1, k', w')" by simp
  show ?case
    using Cons.IH [OF r oper_shape [OF o Cons.prems(2)]] oper_owns [OF o Cons.prems(2)] owns_trans
    by blast
qed

lemma run_good:
  "run_calls oper cs k w = (rs, k', w') \<Longrightarrow> good k w \<Longrightarrow> set rs \<subseteq> {Inr ()} \<Longrightarrow> good k' w'"
proof (induction cs arbitrary: k w rs)
  case Nil
  then show ?case by simp
next
  case (Cons c cs)
  obtain r k1 w1 where o: "oper c k w = (r, k1, w1)" by (cases "oper c k w")
  obtain rs1 k2 w2 where "run_calls oper cs k1 w1 = (rs1, k2, w2)"
    by (cases "run_calls oper cs k1 w1")
  with Cons.prems o have r: "run_calls oper cs k1 w1 = (rs1, k', w')" and
    rs: "r = Inr ()" "set rs1 \<subseteq> {Inr ()}" by auto
  show ?case by (rule Cons.IH [OF r oper_good [OF o [unfolded rs(1)] Cons.prems(2)] rs(2)])
qed

end

lemma keys_do_laws:
  assumes "keys_do lib call keys w = (r, keys', w')" "keys_shape keys w"
  shows "keys_shape keys' w' \<and> owns_only keys w keys' w' \<and>
    (keys_inv lib keys w \<longrightarrow> r = Inr () \<longrightarrow> keys_inv lib keys' w')"
  using assms by (cases call)
    (simp_all add: keys_do_def set_ciphers_laws set_alpn_laws add_certificate_laws)

lemma keys_inv_shape: "keys_inv lib keys w \<Longrightarrow> keys_shape keys w"
  by (simp add: keys_inv_def)

interpretation kc: configurable "keys_do lib" keys_shape "keys_inv lib" owns_only for lib
  by unfold_locales (auto dest: keys_do_laws keys_inv_shape intro: owns_only_trans)

section \<open>Freeing\<close>

lemma free_all_ctx:
  "w_ctx (fold (\<lambda>(host, c). SSL_CTX_free c) cs w) = (\<lambda>c. if c \<in> snd ` set cs then None else w_ctx w c)"
  by (induction cs arbitrary: w) (auto simp: fun_eq_iff)

lemma keys_free_ctx:
  "w_ctx (ktls_keys_free (Some keys) w) = (\<lambda>c. if c \<in> set (key_ctxs keys) then None else w_ctx w c)"
  by (auto simp: ktls_keys_free_def free_all_ctx key_ctxs_def fun_eq_iff)

lemma free_gives_back:
  assumes "owns_only keys w1 keys' w2" "key_ctxs keys = [c0]" "w_ctx w c0 = None"
    "\<And>c. c \<noteq> c0 \<Longrightarrow> w_ctx w1 c = w_ctx w c"
  shows "w_ctx (ktls_keys_free (Some keys') w2) = w_ctx w"
proof
  fix c
  show "w_ctx (ktls_keys_free (Some keys') w2) c = w_ctx w c"
    using assms by (cases "c = c0") (auto simp: keys_free_ctx owns_only_def)
qed

lemma keys_server_one:
  "ktls_keys_server lib cert key w = (Inr keys, w1) \<Longrightarrow> k_ctx keys = n \<Longrightarrow> key_ctxs keys = [n]"
  by (auto simp: ktls_keys_server_def key_ctxs_def keys_zero_def Let_def fail_with_def
      split: prod.splits sum.splits if_splits)

section \<open>Choosing between them\<close>

text \<open>The first certificate added whose name matches; the one the keys were made with otherwise.\<close>

lemma pick_named_find:
  "pick_named cs name = map_option snd (find (\<lambda>(host, c). ktls_host_matches host name) cs)"
  by (induction cs) auto

lemma pick_named_member:
  assumes "pick_named cs name = Some c"
  obtains host where "(host, c) \<in> set cs" "ktls_host_matches host name"
  using assms by (induction cs name rule: pick_named.induct) (auto split: if_splits)

lemma pick_named_split:
  "pick_named cs n = Some d \<Longrightarrow>
     \<exists>us host vs. cs = us @ (host, d) # vs \<and> ktls_host_matches host n \<and>
       (\<nexists>h e. (h, e) \<in> set us \<and> ktls_host_matches h n)"
proof (induction cs)
  case Nil
  then show ?case by simp
next
  case (Cons p cs)
  obtain h e where p: "p = (h, e)" by (cases p)
  show ?case
  proof (cases "ktls_host_matches h n")
    case True
    with Cons.prems p have "p # cs = [] @ (h, d) # cs" by simp
    with True show ?thesis by fastforce
  next
    case False
    with Cons.prems p have "pick_named cs n = Some d" by simp
    then obtain us host vs where "cs = us @ (host, d) # vs" "ktls_host_matches host n"
      "\<nexists>h e. (h, e) \<in> set us \<and> ktls_host_matches h n" using Cons.IH by blast
    with False p show ?thesis by (intro exI [of _ "(h, e) # us"]) auto
  qed
qed

lemma pick_named_None: "pick_named cs name = None \<longleftrightarrow> (\<forall>(host, c) \<in> set cs. \<not> ktls_host_matches host name)"
  by (auto simp: pick_named_find find_None_iff)

section \<open>Properties\<close>


text \<open>
  C19: No context is leaked and none freed twice: whatever calls are made on a server's keys,
  whichever of them fail and wherever in them memory runs out, freeing the keys leaves
  exactly the contexts there were before they were made.
\<close>

theorem keys_give_back:
  assumes "world_wf w" "ktls_keys_server lib cert key w = (Inr keys, w1)"
    and "run_calls (keys_do lib) calls keys w1 = (rs, keys', w2)"
  shows "w_ctx (ktls_keys_free (Some keys') w2) = w_ctx w \<and> distinct (key_ctxs keys') \<and>
    (\<forall>c \<in> set (key_ctxs keys'). w_ctx w2 c \<noteq> None)"
proof -
  have s: "keys_inv lib keys w1" "k_ctx keys = w_next w"
    "\<And>c. c \<noteq> w_next w \<Longrightarrow> w_ctx w1 c = w_ctx w c"
    using keys_server_store [OF assms(2,1)] by simp_all
  have shape: "keys_shape keys w1" using s(1) by (rule keys_inv_shape)
  have one: "key_ctxs keys = [w_next w]" by (rule keys_server_one [OF assms(2) s(2)])
  have r: "keys_shape keys' w2 \<and> owns_only keys w1 keys' w2"
    by (rule kc.run_shape [OF assms(3) shape])
  have "w_ctx (ktls_keys_free (Some keys') w2) = w_ctx w"
    by (rule free_gives_back [OF _ one _ s(3)])
      (use r assms(1) in \<open>simp_all add: world_wf_def\<close>)
  with r show ?thesis by (simp add: keys_shape_def)
qed

text \<open>
  C32: A server's keys hold the certificate and the private key of the two texts, and the
  private key fits the certificate; when anything is wrong, or memory runs out anywhere on
  the way, there are no keys and no context is left behind.
\<close>

theorem server_keys_checked:
  assumes "world_wf w" "length cert < 2 ^ 31" "length key < 2 ^ 31"
  shows "case ktls_keys_server lib cert key w of
      (Inl f, w') \<Rightarrow> w_ctx w' = w_ctx w
    | (Inr keys, w') \<Rightarrow> (\<exists>x d k. w_ctx w' = (w_ctx w)(k_ctx keys \<mapsto> x) \<and> w_ctx w (k_ctx keys) = None \<and>
        c_cert x = Some d \<and> c_key x = Some k \<and> pem_cert lib cert (int (length cert)) = Some d \<and>
        pem_key lib key (int (length key)) = Some k \<and> key_fits lib d k)"
proof -
  obtain b w1 where w1: "fault w = (b, w1)" by fastforce
  have s1: "w_ctx w1 = w_ctx w" "w_next w1 = w_next w" using fault_sel [OF w1] by simp_all
  have wf1: "world_wf w1" using assms(1) s1 by (simp add: world_wf_def)
  obtain r w2 where p: "pair_ctx lib cert key w1 = (r, w2)" by fastforce
  note st = pair_ctx_store [OF p wf1]
  show ?thesis
  proof (cases "\<not> b \<and> \<not> isl r")
    case True
    then obtain c where c: "r = Inr c" "\<not> b" by (cases r) auto
    then have new: "ktls_keys_server lib cert key w = (Inr (keys_zero c), w2)"
      using w1 p by (simp add: ktls_keys_server_def)
    show ?thesis
      using st c(1) s1 assms wf1 by (auto simp: new keys_zero_def world_wf_def)
  next
    case False
    then show ?thesis using w1 p st s1
      by (cases b; cases r) (auto simp: ktls_keys_server_def fail_with_def)
  qed
qed

text \<open>
  C31: Adding a certificate is all or nothing: refused, it leaves the keys and every context
  as they were; accepted, the keys have one more name at the end, one no other entry has in
  any letter case, whose context answers the way the keys do and is new.
\<close>

theorem add_certificate_all_or_nothing:
  assumes "world_wf w"
  shows "case ktls_keys_add_certificate lib host cert key keys w of
      (Inl f, keys', w') \<Rightarrow> keys' = keys \<and> w_ctx w' = w_ctx w
    | (Inr u, keys', w') \<Rightarrow> (\<exists>h c y. host = Some h \<and> 1 \<le> length h \<and> length h \<le> 255 \<and>
        (\<nexists>g d. (g, d) \<in> set (k_named keys) \<and> map to_lower g = map to_lower h) \<and>
        keys' = keys\<lparr> k_named := k_named keys @ [(h, c)] \<rparr> \<and> w_ctx w c = None \<and>
        w_ctx w' c \<noteq> None \<and> ctx_ok lib keys y \<and> (c = k_ctx keys \<or> w_ctx w' c = Some y))"
proof (cases "ktls_keys_add_certificate lib host cert key keys w")
  case (fields r keys' w')
  show ?thesis
  proof (cases r)
    case (Inl f)
    have "keys' = keys \<and> w_ctx w' = w_ctx w"
      using add_certificate_refused [OF _ assms] fields Inl by blast
    then show ?thesis using fields Inl by simp
  next
    case (Inr u)
    obtain h c y where a: "host = Some h" "h \<noteq> []" "length h \<le> 255"
      "\<not> list_ex (\<lambda>(g, _). strcaseeq g h) (k_named keys)" "c = w_next w" "ctx_ok lib keys y"
      "keys' = keys\<lparr> k_named := k_named keys @ [(h, c)] \<rparr>"
      "w_ctx w' = ((w_ctx w)(c \<mapsto> y))(k_ctx keys := map_option (\<lambda>x. x\<lparr> c_servername_cb := True \<rparr>)
         (((w_ctx w)(c \<mapsto> y)) (k_ctx keys)))"
      using add_certificate_added [OF _ assms] fields Inr by blast
    have "1 \<le> length h" using a(2) by (cases h) simp_all
    moreover have "\<nexists>g d. (g, d) \<in> set (k_named keys) \<and> map to_lower g = map to_lower h"
      using a(4) by (auto simp: list_ex_iff strcaseeq_def)
    moreover have "w_ctx w c = None" using assms a(5) by (simp add: world_wf_def)
    moreover have "w_ctx w' c \<noteq> None" "c = k_ctx keys \<or> w_ctx w' c = Some y"
      using a(8) by auto
    ultimately show ?thesis using fields Inr a(1,3,6,7) by auto
  qed
qed

text \<open>
  A call to set the ALPN list that fails at a later name has already overwritten the list
  in force: the names before the bad one stand at the front of the array, while the length
  and the contexts keep the old value. The callback then answers from a list nobody gave.
\<close>

theorem failed_set_alpn_overwrites:
  assumes "length (k_alpn keys) = 256" "alpn_names_ok ps" "length (alpn_wire ps) \<le> 256"
    and "bad = [] \<or> 255 < length bad"
  shows "\<exists>w'. ktls_keys_set_alpn lib (ps @ bad # qs) keys w =
      (Inl (Say alpn_msg), keys\<lparr> k_alpn := memcpy_at (k_alpn keys) 0 (alpn_wire ps) \<rparr>, w') \<and>
    w_ctx w' = w_ctx w"
proof -
  have app: "alpn_write (us @ vs) a n = alpn_write vs a' m"
    if "alpn_write us a n = (Some m, a')" for us vs :: "bytes list" and a a' n m
    using that by (induction us arbitrary: a n) (auto simp: Let_def split: if_splits)
  have "alpn_write ps (k_alpn keys) 0 =
      (Some (length (alpn_wire ps)), memcpy_at (k_alpn keys) 0 (alpn_wire ps))"
    using alpn_write_ok [OF assms(2), of 0 "k_alpn keys"] assms(1,3) by simp
  then have "alpn_write (ps @ bad # qs) (k_alpn keys) 0 =
      (None, memcpy_at (k_alpn keys) 0 (alpn_wire ps))"
    using app assms(4) by (auto simp: Let_def)
  then show ?thesis by (simp add: ktls_keys_set_alpn_def fail_with_def)
qed

text \<open>
  C29: A server_name is answered from the first certificate whose name matches it, with a
  context that still exists and answers the way the keys say; a client that names nothing,
  or a name nothing matches, keeps the context it had.
\<close>

theorem name_pick_answers:
  assumes "keys_inv lib keys w" "ktls_name_pick lib keys name True c0 t = (r, c, t')"
  shows "r = SSL_TLSEXT_ERR_OK \<and> t' = t \<and>
    (case name of
       None \<Rightarrow> c = c0
     | Some n \<Rightarrow>
        c = c0 \<and> (\<nexists>host d. (host, d) \<in> set (k_named keys) \<and> ktls_host_matches host n) \<or>
        (\<exists>us host vs x. k_named keys = us @ (host, c) # vs \<and> ktls_host_matches host n \<and>
           (\<nexists>h d. (h, d) \<in> set us \<and> ktls_host_matches h n) \<and>
           w_ctx w c = Some x \<and> ctx_ok lib keys x))"
proof (cases name)
  case None
  with assms(2) show ?thesis by (simp add: ktls_name_pick_def)
next
  case (Some n)
  show ?thesis
  proof (cases "pick_named (k_named keys) n")
    case none: None
    with assms(2) Some show ?thesis
      by (auto simp: ktls_name_pick_def pick_named_None)
  next
    case (Some d)
    then have d: "r = SSL_TLSEXT_ERR_OK" "c = d" "t' = t"
      using assms(2) \<open>name = Some n\<close> by (simp_all add: ktls_name_pick_def)
    obtain us host vs where us: "k_named keys = us @ (host, d) # vs" "ktls_host_matches host n"
      "\<nexists>h e. (h, e) \<in> set us \<and> ktls_host_matches h n" using pick_named_split [OF Some] by blast
    then have "d \<in> set (key_ctxs keys)" by (simp add: key_ctxs_def)
    then obtain x where "w_ctx w d = Some x" "ctx_ok lib keys x"
      using assms(1) by (auto simp: keys_inv_def)
    with us have "\<exists>us host vs x. k_named keys = us @ (host, c) # vs \<and> ktls_host_matches host n \<and>
        (\<nexists>h d. (h, d) \<in> set us \<and> ktls_host_matches h n) \<and> w_ctx w c = Some x \<and> ctx_ok lib keys x"
      unfolding d(2) by blast
    with d(1,3) \<open>name = Some n\<close> show ?thesis by simp
  qed
qed

end
