(* ===== verification/Ktls_Keys_Evidence.thy ===== *)
theory Ktls_Keys_Evidence
  imports Ktls_Keys_Calls
begin

text \<open>
  The properties of keys at concrete inputs: a stand-in for what OpenSSL makes of PEM texts
  and suite lists, a server's keys made with it, and each theorem applied to them.
\<close>

definition demo_ctx :: ssl_ctx where
  "demo_ctx = \<lparr> c_min_version = 0, c_max_version = 0, c_server_preference = False, c_suites = [],
     c_keylog = False, c_cert = None, c_key = None, c_verify_none = False, c_alpn_cb = False,
     c_alpn_protos = [], c_servername_cb = False \<rparr>"

text \<open>A PEM text is a letter and a digit; a key fits the certificate with its digit.\<close>

definition demo_ctx_lib :: ctx_lib where
  "demo_ctx_lib = \<lparr> err_string_n = (\<lambda>e n. ''error''), strerror = (\<lambda>e. ''errno''), fail_codes = (\<lambda>_. []),
     TLS1_3_VERSION = 0x304, ctx_default = demo_ctx, suites_valid = (\<lambda>s. s \<noteq> ''none''),
     pem_cert = (\<lambda>s n. case s of [c, d] \<Rightarrow> if c = CHR ''C'' then Some (of_char d) else None | _ \<Rightarrow> None),
     pem_key = (\<lambda>s n. case s of [c, d] \<Rightarrow> if c = CHR ''K'' then Some (of_char d) else None | _ \<Rightarrow> None),
     use_cert_ok = (\<lambda>_ _. True), use_key_ok = (\<lambda>_ _. True), key_fits = (\<lambda>d k. d = k),
     processor = X86 1 \<rparr>"

definition world_zero :: world where
  "world_zero = \<lparr> w_ctx = (\<lambda>_. None), w_next = 0, w_faults = [], w_err = thread_err_zero \<rparr>"

lemma world_zero_wf [simp]: "world_wf world_zero"
  by (simp add: world_wf_def world_zero_def)

definition demo_made :: "(failure + ktls_keys) \<times> world" where
  "demo_made = ktls_keys_server demo_ctx_lib ''C1'' ''K1'' world_zero"

definition demo_calls :: "keys_call list" where
  "demo_calls = [AddCertificate (Some ''a.org'') ''C2'' ''K2'', SetCiphers (Some ''S''), AddCertificate (Some ''*.org'') ''C3'' ''K3'']"

definition demo_ran :: "(failure + unit) list \<times> ktls_keys \<times> world" where
  "demo_ran = run_calls (keys_do demo_ctx_lib) demo_calls (projr (fst demo_made)) (snd demo_made)"

lemmas run_simps = ktls_keys_server_def pair_ctx_def ktls_ctx_new_def ktls_pem_into_def
  check_private_key_def fault_def fail_with_def upd_ctx_def SSL_CTX_new_def SSL_CTX_free_def
  set_ciphersuites_def blank_ctx_def default_suites_def keys_zero_def Let_def
  ktls_keys_add_certificate_def ktls_ctx_follow_def ktls_keys_set_ciphers_def
  strcaseeq_def to_lower_def

lemma demo_made_end: "demo_made = (Inr (keys_zero 0), world_zero\<lparr> w_ctx :=
    [0 \<mapsto> (fresh_ctx demo_ctx_lib)\<lparr> c_cert := Some 49, c_key := Some 49 \<rparr>], w_next := 1 \<rparr>)"
  by (simp add: demo_made_def run_simps world_zero_def demo_ctx_lib_def demo_ctx_def fresh_ctx_def)

lemma demo_ran_end:
  "case demo_ran of (rs, keys, w) \<Rightarrow> list_all (\<lambda>r. r = Inr ()) rs \<and> k_ctx keys = 0 \<and>
     k_named keys = [(''a.org'', 1), (''*.org'', 2)] \<and> k_suites keys = ''S''"
  by (simp add: demo_ran_def demo_made_end demo_calls_def keys_do_def run_simps fresh_ctx_def
      world_zero_def demo_ctx_lib_def demo_ctx_def)

lemma demo_made_eq: "ktls_keys_server demo_ctx_lib ''C1'' ''K1'' world_zero =
    (Inr (projr (fst demo_made)), snd demo_made)"
  unfolding demo_made_def [symmetric] by (simp add: demo_made_end)

lemma demo_ran_eq:
  obtains rs keys w where
    "run_calls (keys_do demo_ctx_lib) demo_calls (projr (fst demo_made)) (snd demo_made) = (rs, keys, w)"
    "set rs \<subseteq> {Inr ()}" "k_named keys = [(''a.org'', 1), (''*.org'', 2)]" "k_suites keys = ''S''"
    "k_ctx keys = 0"
  using demo_ran_end unfolding demo_ran_def
  by (cases "run_calls (keys_do demo_ctx_lib) demo_calls (projr (fst demo_made)) (snd demo_made)")
    (auto simp: list_all_iff)


theorem keys_give_back_witness:
  "\<exists>rs keys w. run_calls (keys_do demo_ctx_lib) demo_calls (projr (fst demo_made)) (snd demo_made) =
       (rs, keys, w) \<and> w_ctx (ktls_keys_free (Some keys) w) = (\<lambda>_. None)"
proof -
  obtain rs keys w where
    r: "run_calls (keys_do demo_ctx_lib) demo_calls (projr (fst demo_made)) (snd demo_made) = (rs, keys, w)"
    by (rule demo_ran_eq)
  from keys_give_back [OF world_zero_wf demo_made_eq r] r show ?thesis by (auto simp: world_zero_def)
qed

theorem server_keys_checked_witness:
  "(\<exists>x. w_ctx (snd demo_made) (k_ctx (projr (fst demo_made))) = Some x \<and> c_cert x = c_key x) \<and>
   w_ctx (snd (ktls_keys_server demo_ctx_lib ''C1'' ''K2'' world_zero)) = (\<lambda>_. None)"
proof
  show "\<exists>x. w_ctx (snd demo_made) (k_ctx (projr (fst demo_made))) = Some x \<and> c_cert x = c_key x"
    using server_keys_checked [OF world_zero_wf, of "''C1''" "''K1''" demo_ctx_lib]
    unfolding demo_made_eq by (auto simp: demo_ctx_lib_def)
  have "isl (fst (ktls_keys_server demo_ctx_lib ''C1'' ''K2'' world_zero))"
    by (simp add: run_simps world_zero_def demo_ctx_lib_def demo_ctx_def)
  then show "w_ctx (snd (ktls_keys_server demo_ctx_lib ''C1'' ''K2'' world_zero)) = (\<lambda>_. None)"
    using server_keys_checked [OF world_zero_wf, of "''C1''" "''K2''" demo_ctx_lib]
    by (cases "ktls_keys_server demo_ctx_lib ''C1'' ''K2'' world_zero")
      (auto simp: world_zero_def split: sum.splits)
qed

theorem add_certificate_all_or_nothing_witness:
  "case ktls_keys_add_certificate demo_ctx_lib (Some ''a.org'') ''C2'' ''K3'' (keys_zero 0) world_zero of
     (r, keys, w) \<Rightarrow> isl r \<and> keys = keys_zero 0 \<and> w_ctx w = (\<lambda>_. None)"
proof -
  have "isl (fst (ktls_keys_add_certificate demo_ctx_lib (Some ''a.org'') ''C2'' ''K3'' (keys_zero 0) world_zero))"
    by (simp add: run_simps world_zero_def demo_ctx_lib_def demo_ctx_def)
  then show ?thesis
    using add_certificate_all_or_nothing [OF world_zero_wf, where lib = demo_ctx_lib and
      host = "Some ''a.org''" and cert = "''C2''" and key = "''K3''" and keys = "keys_zero 0"]
    by (cases "ktls_keys_add_certificate demo_ctx_lib (Some ''a.org'') ''C2'' ''K3'' (keys_zero 0) world_zero")
      (auto simp: world_zero_def split: sum.splits)
qed

text \<open>Keys with the list "h2", and a call that fails at its second name: the callback now
  answers a client that offers "x" with "x".\<close>

definition h2_keys :: ktls_keys where
  "h2_keys = (keys_zero 0)\<lparr> k_alpn := [2, 104, 50] @ replicate 253 0, k_alpn_len := 3 \<rparr>"

theorem failed_set_alpn_overwrites_witness:
  "\<exists>keys w. ktls_keys_set_alpn demo_ctx_lib [[120], []] h2_keys world_zero = (Inl (Say alpn_msg), keys, w) \<and>
     take 3 (k_alpn keys) = [1, 120, 50] \<and> k_alpn_len keys = 3 \<and>
     ktls_alpn_pick (k_alpn keys) (k_alpn_len keys) [1, 120] = AlpnOk 1 1"
proof -
  obtain w' where
    w': "ktls_keys_set_alpn demo_ctx_lib ([[120]] @ [] # []) h2_keys world_zero =
      (Inl (Say alpn_msg), h2_keys\<lparr> k_alpn := memcpy_at (k_alpn h2_keys) 0 (alpn_wire [[120]]) \<rparr>, w')"
    using failed_set_alpn_overwrites [where keys = h2_keys and ps = "[[120]]" and bad = "[]" and
        lib = demo_ctx_lib and qs = "[]" and w = world_zero]
    by (auto simp: h2_keys_def alpn_names_ok_def)
  then show ?thesis
    by (simp add: h2_keys_def memcpy_at_def ktls_alpn_pick_def alpn_outer.simps alpn_inner.simps)
qed

theorem name_pick_answers_witness:
  "\<exists>rs keys w x. run_calls (keys_do demo_ctx_lib) demo_calls (projr (fst demo_made)) (snd demo_made) =
       (rs, keys, w) \<and> ktls_name_pick demo_ctx_lib keys (Some ''b.Org'') True 0 thread_err_zero =
       (SSL_TLSEXT_ERR_OK, 2, thread_err_zero) \<and>
     w_ctx w 2 = Some x \<and> c_suites x = ''S''"
proof -
  obtain rs keys w where
    r: "run_calls (keys_do demo_ctx_lib) demo_calls (projr (fst demo_made)) (snd demo_made) = (rs, keys, w)"
      "set rs \<subseteq> {Inr ()}" "k_named keys = [(''a.org'', 1), (''*.org'', 2)]" "k_suites keys = ''S''"
    by (rule demo_ran_eq)
  have "keys_inv demo_ctx_lib (projr (fst demo_made)) (snd demo_made)"
    using keys_server_store [OF demo_made_eq world_zero_wf] by simp
  then have inv: "keys_inv demo_ctx_lib keys w" by (rule kc.run_good [OF r(1) _ r(2)])
  have "ktls_host_matches ''*.org'' ''b.Org''" "\<not> ktls_host_matches ''a.org'' ''b.Org''"
    by code_simp+
  then have p: "ktls_name_pick demo_ctx_lib keys (Some ''b.Org'') True 0 thread_err_zero =
       (SSL_TLSEXT_ERR_OK, 2, thread_err_zero)"
    by (simp add: ktls_name_pick_def r(3))
  from name_pick_answers [OF inv p] r p show ?thesis
    by (auto simp: ctx_ok_def suites_in_force_def)
qed

end
