(* ===== verification/Ktls_Scan.thy ===== *)
theory Ktls_Scan
  imports Ktls_Prelude
begin

text \<open>
  The record scanner of src/ktls.c: \<open>struct ktls_records\<close>, \<open>ktls_scan\<close> and
  \<open>ktls_records_between\<close>. TLS records (RFC 8446 5.1: a five-byte header, the last two
  bytes of it the big-endian length of the body) pass through \<open>feed\<close> and \<open>take\<close> in
  pieces; the scanner notes the stream offset just past every record, up to 64 of them.

  First the code's chunked scanner, then a scanner that reads one byte at a time and the
  proof that the two are the same function, then what the scanner finds in a stream of
  well-formed records.
\<close>

section \<open>The scanner as the code has it\<close>

record ktls_records =
  r_offset :: u64
  r_body_left :: u64
  r_head :: bytes          \<comment> \<open>\<open>uint8_t head[5]\<close>\<close>
  r_head_len :: nat
  r_ends :: "u64 list"     \<comment> \<open>\<open>uint64_t ends[64]\<close>\<close>
  r_count :: nat
  r_overflowed :: bool

text \<open>What \<open>calloc\<close> leaves.\<close>

definition records_zero :: ktls_records where
  "records_zero = \<lparr> r_offset = 0, r_body_left = 0, r_head = replicate 5 0, r_head_len = 0,
     r_ends = replicate 64 0, r_count = 0, r_overflowed = False \<rparr>"

text \<open>\<open>if (r->count < 64) r->ends[r->count++] = r->offset; else r->overflowed = true;\<close>\<close>

definition note_end :: "ktls_records \<Rightarrow> ktls_records" where
  "note_end r = (if r_count r < 64
     then r\<lparr> r_ends := (r_ends r)[r_count r := r_offset r], r_count := r_count r + 1 \<rparr>
     else r\<lparr> r_overflowed := True \<rparr>)"

text \<open>\<open>((uint64_t) head[3] << 8) | head[4]\<close>\<close>

definition body_length :: "bytes \<Rightarrow> u64" where
  "body_length h = push_bit 8 (ucast (h ! 3)) OR ucast (h ! 4)"

text \<open>The end of a header, and the end of a piece of body.\<close>

definition header_done :: "ktls_records \<Rightarrow> ktls_records" where
  "header_done r =
     (let r' = r\<lparr> r_body_left := body_length (r_head r), r_head_len := 0 \<rparr>
      in if r_body_left r' = 0 then note_end r' else r')"

definition eat_header :: "ktls_records \<Rightarrow> bytes \<Rightarrow> ktls_records" where
  "eat_header r p = r\<lparr> r_head := memcpy_at (r_head r) (r_head_len r) p,
     r_head_len := r_head_len r + length p, r_offset := r_offset r + of_nat (length p) \<rparr>"

definition eat_body :: "ktls_records \<Rightarrow> nat \<Rightarrow> ktls_records" where
  "eat_body r n =
     (let r' = r\<lparr> r_body_left := r_body_left r - of_nat n, r_offset := r_offset r + of_nat n \<rparr>
      in if r_body_left r' = 0 then note_end r' else r')"

lemma note_end_sel [simp]:
  "r_head_len (note_end r) = r_head_len r" "r_body_left (note_end r) = r_body_left r"
  "r_head (note_end r) = r_head r" "r_offset (note_end r) = r_offset r"
  by (simp_all add: note_end_def)

lemma header_done_sel [simp]:
  "r_head_len (header_done r) = 0" "r_body_left (header_done r) = body_length (r_head r)"
  "r_head (header_done r) = r_head r" "r_offset (header_done r) = r_offset r"
  by (simp_all add: header_done_def Let_def)

lemma eat_body_sel [simp]:
  "r_head_len (eat_body r n) = r_head_len r"
  "r_body_left (eat_body r n) = r_body_left r - of_nat n"
  "r_head (eat_body r n) = r_head r" "r_offset (eat_body r n) = r_offset r + of_nat n"
  by (simp_all add: eat_body_def Let_def)

lemma eat_header_sel [simp]:
  "r_head_len (eat_header r p) = r_head_len r + length p"
  "r_body_left (eat_header r p) = r_body_left r"
  "r_offset (eat_header r p) = r_offset r + of_nat (length p)"
  by (simp_all add: eat_header_def)

text \<open>
  The loop: \<open>take\<close> bytes are missing from the header, \<open>got\<close> of them are here. The
  measure also covers a full header buffer, which no reachable state has.
\<close>

function ktls_scan :: "ktls_records \<Rightarrow> bytes \<Rightarrow> ktls_records" where
  "ktls_scan r p =
     (if p = [] then r
      else if r_body_left r = 0 then
        (let got = (if length p < 5 - r_head_len r then length p else 5 - r_head_len r);
             r1 = eat_header r (take got p)
         in if r_head_len r1 < 5 then r1
            else ktls_scan (header_done r1) (drop got p))
      else
        (let got = (if length p < unat (r_body_left r) then length p else unat (r_body_left r))
         in ktls_scan (eat_body r got) (drop got p)))"
  by pat_completeness auto
termination
  apply (relation "measure (\<lambda>(r, p). 2 * length p + (if 5 \<le> r_head_len r then 1 else 0))")
    apply (auto simp: Let_def unat_gt_0)
  done

declare ktls_scan.simps [simp del]

text \<open>\<open>ktls_records_between\<close>: how many noted ends lie in (after, upto].\<close>

definition ktls_records_between :: "ktls_records \<Rightarrow> u64 \<Rightarrow> u64 \<Rightarrow> u64" where
  "ktls_records_between r after til =
     foldl (\<lambda>n i. if after < r_ends r ! i \<and> r_ends r ! i \<le> til then n + 1 else n)
       0 [0..<r_count r]"

section \<open>One byte at a time\<close>

text \<open>The reference: the same bookkeeping for a single byte.\<close>

definition scan_byte :: "ktls_records \<Rightarrow> u8 \<Rightarrow> ktls_records" where
  "scan_byte r b =
     (if r_body_left r = 0 then
        (let r1 = eat_header r [b] in if r_head_len r1 < 5 then r1 else header_done r1)
      else eat_body r 1)"

lemma scan_byte_cases:
  "r_body_left r = 0 \<Longrightarrow> r_head_len r + 1 < 5 \<Longrightarrow> scan_byte r b = eat_header r [b]"
  "r_body_left r = 0 \<Longrightarrow> 5 \<le> r_head_len r + 1 \<Longrightarrow> scan_byte r b = header_done (eat_header r [b])"
  "r_body_left r \<noteq> 0 \<Longrightarrow> scan_byte r b = eat_body r 1"
  by (simp_all add: scan_byte_def Let_def)

text \<open>What every reachable scanner satisfies.\<close>

definition records_wf :: "ktls_records \<Rightarrow> bool" where
  "records_wf r \<longleftrightarrow> length (r_head r) = 5 \<and> r_head_len r < 5 \<and>
     length (r_ends r) = 64 \<and> r_count r \<le> 64 \<and>
     (r_overflowed r \<longrightarrow> r_count r = 64) \<and> (r_body_left r \<noteq> 0 \<longrightarrow> r_head_len r = 0)"

lemma records_wf_zero [simp]: "records_wf records_zero"
  by (simp add: records_wf_def records_zero_def)

lemma note_end_arrays:
  assumes "length (r_ends r) = 64" "r_count r \<le> 64" "r_overflowed r \<longrightarrow> r_count r = 64"
  shows "length (r_ends (note_end r)) = 64" "r_count (note_end r) \<le> 64"
    "r_overflowed (note_end r) \<longrightarrow> r_count (note_end r) = 64"
  using assms by (auto simp: note_end_def)

lemma records_wf_scan_byte: "records_wf r \<Longrightarrow> records_wf (scan_byte r b)"
  using note_end_arrays
  by (auto simp: records_wf_def scan_byte_def eat_header_def header_done_def eat_body_def
      Let_def mem_simps note_end_def)

lemma records_wf_scan_bytes: "records_wf r \<Longrightarrow> records_wf (foldl scan_byte r p)"
  by (induction p arbitrary: r) (simp_all add: records_wf_scan_byte)

text \<open>A piece that does not complete the header, and one that does not end the body.\<close>

lemma eat_header_append:
  assumes "r_head_len r + length p + length q \<le> length (r_head r)"
  shows "eat_header (eat_header r p) q = eat_header r (p @ q)"
  using assms by (simp add: eat_header_def memcpy_at_append ac_simps)

lemma scan_bytes_in_header:
  assumes "records_wf r" "r_body_left r = 0" "r_head_len r + length p < 5"
  shows "foldl scan_byte r p = eat_header r p"
  using assms(3)
proof (induction p rule: rev_induct)
  case Nil
  show ?case by (simp add: eat_header_def mem_simps)
next
  case (snoc b p)
  then have "foldl scan_byte r p = eat_header r p" by simp
  moreover from snoc.prems assms have "eat_header (eat_header r p) [b] = eat_header r (p @ [b])"
    by (intro eat_header_append) (simp add: records_wf_def)
  ultimately show ?case
    using snoc.prems assms(2) by (simp add: scan_byte_cases(1))
qed

lemma scan_bytes_header:
  assumes "records_wf r" "r_body_left r = 0" "r_head_len r + length p = 5"
  shows "foldl scan_byte r p = header_done (eat_header r p)"
proof -
  from assms have "p \<noteq> []" by (auto simp: records_wf_def)
  then obtain q b where p: "p = q @ [b]" by (cases p rule: rev_exhaust) auto
  with assms have q: "foldl scan_byte r q = eat_header r q"
    by (intro scan_bytes_in_header) auto
  from p assms have "eat_header (eat_header r q) [b] = eat_header r p"
    by (auto intro!: eat_header_append simp: records_wf_def)
  with p q assms show ?thesis by (simp add: scan_byte_cases(2))
qed

lemma eat_body_inside:
  assumes "n < unat (r_body_left r)"
  shows "eat_body r n = r\<lparr> r_body_left := r_body_left r - of_nat n,
      r_offset := r_offset r + of_nat n \<rparr>"
proof -
  from assms have "of_nat n \<noteq> r_body_left r"
    by (rule of_nat_neq_word)
  then show ?thesis by (auto simp: eat_body_def Let_def)
qed

lemma eat_body_append:
  assumes "n < unat (r_body_left r)"
  shows "eat_body (eat_body r n) m = eat_body r (n + m)"
  using assms by (simp add: eat_body_inside) (simp add: eat_body_def algebra_simps)

lemma scan_bytes_body:
  assumes "r_body_left r \<noteq> 0" "p \<noteq> []" "length p \<le> unat (r_body_left r)"
  shows "foldl scan_byte r p = eat_body r (length p)"
  using assms(2,3)
proof (induction p rule: rev_induct)
  case Nil
  then show ?case by simp
next
  case (snoc b p)
  show ?case
  proof (cases "p = []")
    case True
    with assms(1) show ?thesis by (simp add: scan_byte_cases(3))
  next
    case False
    with snoc have IH: "foldl scan_byte r p = eat_body r (length p)"
      and short: "length p < unat (r_body_left r)" by auto
    from short have "r_body_left (eat_body r (length p)) \<noteq> 0"
      using of_nat_neq_word by fastforce
    with IH short show ?thesis by (simp add: scan_byte_cases(3) eat_body_append)
  qed
qed

lemma ktls_scan_bytes: "records_wf r \<Longrightarrow> ktls_scan r p = foldl scan_byte r p"
proof (induction r p rule: ktls_scan.induct)
  case (1 r p)
  show ?case
  proof (cases "p = []")
    case True
    then show ?thesis by (simp add: ktls_scan.simps)
  next
    case p: False
    show ?thesis
    proof (cases "r_body_left r = 0")
      case hdr: True
      define got where "got = (if length p < 5 - r_head_len r then length p else 5 - r_head_len r)"
      show ?thesis
      proof (cases "r_head_len r + got < 5")
        case True
        then have "take got p = p" "length p < 5 - r_head_len r"
          by (auto simp: got_def split: if_splits)
        with True p hdr "1.prems" show ?thesis
          by (subst ktls_scan.simps) (simp add: got_def scan_bytes_in_header)
      next
        case False
        with "1.prems" have len: "r_head_len r + length (take got p) = 5" "got \<le> length p"
          by (auto simp: got_def records_wf_def split: if_splits)
        then have piece: "foldl scan_byte r (take got p) = header_done (eat_header r (take got p))"
          using "1.prems" hdr by (intro scan_bytes_header) auto
        then have "records_wf (header_done (eat_header r (take got p)))"
          using records_wf_scan_bytes [OF "1.prems", of "take got p"] by simp
        moreover have "ktls_scan r p = ktls_scan (header_done (eat_header r (take got p))) (drop got p)"
          using p hdr len by (subst ktls_scan.simps) (simp add: got_def [symmetric] Let_def)
        ultimately have "ktls_scan r p = foldl scan_byte (header_done (eat_header r (take got p))) (drop got p)"
          using "1.IH"(1) [OF p hdr got_def refl] len by simp
        with piece show ?thesis by (metis append_take_drop_id foldl_append)
      qed
    next
      case body: False
      define got where
        "got = (if length p < unat (r_body_left r) then length p else unat (r_body_left r))"
      from p body have len: "length (take got p) = got" "take got p \<noteq> []"
        "got \<le> unat (r_body_left r)"
        by (auto simp: got_def unat_gt_0)
      then have piece: "foldl scan_byte r (take got p) = eat_body r got"
        using body scan_bytes_body [of r "take got p"] by simp
      then have "records_wf (eat_body r got)"
        using records_wf_scan_bytes [OF "1.prems", of "take got p"] by simp
      with p body have "ktls_scan r p = foldl scan_byte (eat_body r got) (drop got p)"
        using "1.IH"(2) [OF p body got_def]
        by (subst ktls_scan.simps) (simp add: got_def [symmetric] Let_def)
      with piece show ?thesis by (metis append_take_drop_id foldl_append)
    qed
  qed
qed

lemma records_wf_scan: "records_wf r \<Longrightarrow> records_wf (ktls_scan r p)"
  by (simp add: ktls_scan_bytes records_wf_scan_bytes)

interpretation scan: stream_consumer ktls_scan records_wf
  by unfold_locales
    (simp_all add: ktls_scan.simps [of _ "[]"] ktls_scan_bytes records_wf_scan_bytes)

section \<open>Streams of well-formed records\<close>

text \<open>
  A record on the wire: content type, two bytes of legacy version, body. Its bytes carry
  the body's length in the last two bytes of the header.
\<close>

type_synonym wire = "u8 \<times> u8 \<times> u8 \<times> bytes"

fun wire_header :: "wire \<Rightarrow> bytes" where
  "wire_header (t, maj, mnr, body) =
     [t, maj, mnr, of_nat (length body div 256), of_nat (length body)]"

fun wire_body :: "wire \<Rightarrow> bytes" where
  "wire_body (t, maj, mnr, body) = body"

definition wire_bytes :: "wire \<Rightarrow> bytes" where
  "wire_bytes w = wire_header w @ wire_body w"

definition wire_ok :: "wire \<Rightarrow> bool" where
  "wire_ok w \<longleftrightarrow> length (wire_body w) < 65536"

definition wires :: "wire list \<Rightarrow> bytes" where
  "wires ws = concat (map wire_bytes ws)"

text \<open>The offsets just past each record of a stream that starts at offset \<open>n\<close>.\<close>

fun wire_ends :: "nat \<Rightarrow> wire list \<Rightarrow> nat list" where
  "wire_ends n [] = []"
| "wire_ends n (w # ws) = (n + length (wire_bytes w)) # wire_ends (n + length (wire_bytes w)) ws"

lemma length_wire_header [simp]: "length (wire_header w) = 5"
  by (cases w) simp

lemma wires_simps [simp]: "wires [] = []" "wires (w # ws) = wire_bytes w @ wires ws"
  "wires (us @ ws) = wires us @ wires ws"
  by (simp_all add: wires_def)

lemma length_wire_ends [simp]: "length (wire_ends n ws) = length ws"
  by (induction ws arbitrary: n) simp_all

lemma wire_ends_append:
  "wire_ends n (us @ ws) = wire_ends n us @ wire_ends (n + length (wires us)) ws"
  by (induction us arbitrary: n) (simp_all add: add.assoc)

lemma wire_ends_bounds: "e \<in> set (wire_ends n ws) \<Longrightarrow> n < e \<and> e \<le> n + length (wires ws)"
  by (induction ws arbitrary: n) (force simp: wire_bytes_def)+

lemma wire_length_word:
  assumes "n < 65536"
  shows "push_bit 8 (ucast (of_nat (n div 256) :: u8)) OR ucast (of_nat n :: u8) = (of_nat n :: u64)"
proof (rule bit_word_eqI)
  fix k :: nat
  assume "k < LENGTH(64)"
  have hi: "k < 16" if "bit n k"
  proof (rule ccontr)
    assume "\<not> k < 16"
    then have "(2::nat) ^ 16 \<le> 2 ^ k" by (intro power_increasing) auto
    with assms have "n div 2 ^ k = 0" by (intro div_less) simp
    with that show False by (simp add: bit_iff_odd)
  qed
  have "n div 256 = drop_bit 8 n" by (simp add: drop_bit_eq_div)
  then show "bit (push_bit 8 (ucast (of_nat (n div 256) :: u8)) OR ucast (of_nat n :: u8) :: u64) k
      \<longleftrightarrow> bit (of_nat n :: u64) k"
    using \<open>k < LENGTH(64)\<close> hi by (auto simp: bit_simps)
qed

lemma body_length_wire_header:
  "wire_ok w \<Longrightarrow> body_length (wire_header w) = of_nat (length (wire_body w))"
  by (cases w) (simp add: body_length_def wire_ok_def wire_length_word)

text \<open>Between two records.\<close>

definition at_boundary :: "ktls_records \<Rightarrow> bool" where
  "at_boundary r \<longleftrightarrow> records_wf r \<and> r_body_left r = 0 \<and> r_head_len r = 0"

lemma at_boundary_zero [simp]: "at_boundary records_zero"
  by (simp add: at_boundary_def) (simp add: records_zero_def)

definition noted_ends :: "ktls_records \<Rightarrow> u64 list" where
  "noted_ends r = take (r_count r) (r_ends r)"

lemma noted_ends_zero [simp]: "noted_ends records_zero = []"
  by (simp add: noted_ends_def records_zero_def)

lemma noted_ends_note_end:
  assumes "records_wf r"
  shows "noted_ends (note_end r) = take 64 (noted_ends r @ [r_offset r])"
    "r_overflowed (note_end r) \<longleftrightarrow> r_overflowed r \<or> 64 \<le> length (noted_ends r)"
  using assms
  by (auto simp: noted_ends_def note_end_def records_wf_def take_Suc_conv_app_nth)

lemma length_noted_ends: "records_wf r \<Longrightarrow> length (noted_ends r) = r_count r"
  by (simp add: noted_ends_def records_wf_def)

lemma scan_header:
  "at_boundary r \<Longrightarrow> length h = 5 \<Longrightarrow> ktls_scan r h = header_done (eat_header r h)"
  by (simp add: at_boundary_def ktls_scan_bytes scan_bytes_header)

lemma header_done_wire:
  assumes "at_boundary r" "wire_ok w"
  shows "r_body_left (header_done (eat_header r (wire_header w))) = of_nat (length (wire_body w))"
proof -
  from assms(1) have "r_head (eat_header r (wire_header w)) = wire_header w"
    by (simp add: at_boundary_def records_wf_def eat_header_def memcpy_at_def)
  with assms(2) show ?thesis by (simp add: body_length_wire_header)
qed

lemma scan_wire:
  assumes r: "at_boundary r" and w: "wire_ok w"
  shows "at_boundary (ktls_scan r (wire_bytes w))"
    "r_offset (ktls_scan r (wire_bytes w)) = r_offset r + of_nat (length (wire_bytes w))"
    "noted_ends (ktls_scan r (wire_bytes w)) =
       take 64 (noted_ends r @ [r_offset r + of_nat (length (wire_bytes w))])"
    "r_overflowed (ktls_scan r (wire_bytes w)) \<longleftrightarrow>
       r_overflowed r \<or> 64 \<le> length (noted_ends r)"
proof -
  let ?h = "eat_header r (wire_header w)"
  let ?r = "header_done ?h"
  define z where "z = r\<lparr> r_head := r_head ?h, r_head_len := 0, r_body_left := 0,
      r_offset := r_offset r + of_nat (length (wire_bytes w)) \<rparr>"
  have wf: "records_wf r" using r by (simp add: at_boundary_def)
  then have wf': "records_wf (ktls_scan r (wire_bytes w))" by (rule records_wf_scan)
  have "r_body_left ?r = of_nat (length (wire_body w))"
    using r w by (rule header_done_wire)
  then have left: "unat (r_body_left ?r) = length (wire_body w)"
    using w by (simp add: wire_ok_def unat_of_nat)
  have eq: "ktls_scan r (wire_bytes w) = note_end z"
  proof (cases "wire_body w = []")
    case True
    with left have "body_length (r_head ?h) = 0" by (simp add: unat_eq_0)
    then have "?r = note_end (?h\<lparr> r_body_left := 0, r_head_len := 0 \<rparr>)"
      by (simp add: header_done_def)
    also have "?h\<lparr> r_body_left := 0, r_head_len := 0 \<rparr> = z"
      using True by (cases r) (simp add: z_def eat_header_def wire_bytes_def)
    finally show ?thesis
      using True scan_header [OF r length_wire_header [of w]] by (simp add: wire_bytes_def)
  next
    case False
    have "ktls_scan r (wire_bytes w) = ktls_scan ?r (wire_body w)"
      using scan.consume_append [OF wf] scan_header [OF r length_wire_header [of w]]
      by (metis wire_bytes_def)
    also have "\<dots> = eat_body ?r (length (wire_body w))"
      using left False scan_bytes_body [of ?r "wire_body w"]
        records_wf_scan [OF wf, of "wire_header w"] scan_header [OF r length_wire_header [of w]]
      by (simp add: ktls_scan_bytes unat_eq_0 flip: unat_gt_0)
    also have "\<dots> = note_end z"
    proof -
      have nz: "body_length (r_head ?h) \<noteq> 0" using left False by auto
      have fin: "r_body_left ?r - of_nat (length (wire_body w)) = 0"
        using header_done_wire [OF r w] by simp
      have "?r\<lparr> r_body_left := 0, r_offset := r_offset ?r + of_nat (length (wire_body w)) \<rparr> = z"
        using nz by (cases r) (simp add: header_done_def z_def eat_header_def wire_bytes_def)
      moreover have "r_body_left z = 0" by (simp add: z_def)
      ultimately show ?thesis using fin by (simp add: eat_body_def Let_def del: header_done_sel)
    qed
    finally show ?thesis .
  qed
  have wfz: "records_wf z"
    using wf r by (simp add: z_def records_wf_def eat_header_def at_boundary_def mem_simps)
  show "at_boundary (ktls_scan r (wire_bytes w))"
    using wf' by (simp add: at_boundary_def eq) (simp add: z_def)
  show "r_offset (ktls_scan r (wire_bytes w)) = r_offset r + of_nat (length (wire_bytes w))"
    by (simp add: eq z_def)
  have same: "noted_ends z = noted_ends r" "r_overflowed z = r_overflowed r"
    "r_offset z = r_offset r + of_nat (length (wire_bytes w))"
    by (simp_all add: z_def noted_ends_def)
  show "noted_ends (ktls_scan r (wire_bytes w)) =
       take 64 (noted_ends r @ [r_offset r + of_nat (length (wire_bytes w))])"
    using noted_ends_note_end(1) [OF wfz] by (simp only: eq same)
  show "r_overflowed (ktls_scan r (wire_bytes w)) \<longleftrightarrow> r_overflowed r \<or> 64 \<le> length (noted_ends r)"
    using noted_ends_note_end(2) [OF wfz] by (simp only: eq same)
qed

text \<open>A whole stream of records, and one that breaks off inside a record.\<close>

lemma scan_wires:
  assumes "at_boundary r" "\<forall>w \<in> set ws. wire_ok w" "r_offset r = of_nat n"
  shows "at_boundary (ktls_scan r (wires ws)) \<and>
    r_offset (ktls_scan r (wires ws)) = of_nat (n + length (wires ws)) \<and>
    noted_ends (ktls_scan r (wires ws)) =
      take 64 (noted_ends r @ map of_nat (wire_ends n ws)) \<and>
    (r_overflowed (ktls_scan r (wires ws)) \<longleftrightarrow>
      r_overflowed r \<or> 64 < length (noted_ends r) + length ws)"
  using assms
proof (induction ws arbitrary: r n)
  case Nil
  then have "length (noted_ends r) \<le> 64" "r_overflowed r \<longrightarrow> length (noted_ends r) = 64"
    by (auto simp: at_boundary_def records_wf_def length_noted_ends)
  with Nil show ?case by (simp add: scan.consume_Nil)
next
  case (Cons w ws)
  define r' where "r' = ktls_scan r (wire_bytes w)"
  have w: "wire_ok w" and wf: "records_wf r" using Cons.prems by (auto simp: at_boundary_def)
  note one = scan_wire [OF Cons.prems(1) w, folded r'_def]
  have len: "length (noted_ends r) \<le> 64"
    using wf by (simp add: length_noted_ends) (simp add: records_wf_def)
  have split: "ktls_scan r (wires (w # ws)) = ktls_scan r' (wires ws)"
    using scan.consume_append [OF wf] by (simp add: r'_def)
  have off: "r_offset r' = of_nat (n + length (wire_bytes w))"
    using one(2) Cons.prems(3) by simp
  have ws: "\<forall>x \<in> set ws. wire_ok x" using Cons.prems(2) by simp
  have IH: "at_boundary (ktls_scan r' (wires ws)) \<and>
    r_offset (ktls_scan r' (wires ws)) = of_nat (n + length (wire_bytes w) + length (wires ws)) \<and>
    noted_ends (ktls_scan r' (wires ws)) =
      take 64 (noted_ends r' @ map of_nat (wire_ends (n + length (wire_bytes w)) ws)) \<and>
    (r_overflowed (ktls_scan r' (wires ws)) \<longleftrightarrow>
      r_overflowed r' \<or> 64 < length (noted_ends r') + length ws)"
    by (rule Cons.IH [OF one(1) ws off])
  have "noted_ends (ktls_scan r' (wires ws)) =
      take 64 (noted_ends r @ map of_nat (wire_ends n (w # ws)))"
  proof -
    have "noted_ends r' = take 64 (noted_ends r @ [of_nat (n + length (wire_bytes w))])"
      using one(3) Cons.prems(3) by simp
    then show ?thesis
      using IH take_append_take [of 64 "noted_ends r @ [of_nat (n + length (wire_bytes w))]"]
      by (simp del: take_append of_nat_add)
  qed
  moreover have "r_overflowed (ktls_scan r' (wires ws)) \<longleftrightarrow>
      r_overflowed r \<or> 64 < length (noted_ends r) + length (w # ws)"
    using IH one(3,4) len by auto
  ultimately show ?case using IH split by (simp add: add.assoc)
qed

lemma scan_partial:
  assumes r: "at_boundary r" and w: "wire_ok w" and p: "wire_bytes w = p @ q" "q \<noteq> []"
  shows "noted_ends (ktls_scan r p) = noted_ends r"
    "r_overflowed (ktls_scan r p) = r_overflowed r"
    "r_offset (ktls_scan r p) = r_offset r + of_nat (length p)"
proof -
  have wf: "records_wf r" using r by (simp add: at_boundary_def)
  have "noted_ends (ktls_scan r p) = noted_ends r \<and>
    r_overflowed (ktls_scan r p) = r_overflowed r \<and>
    r_offset (ktls_scan r p) = r_offset r + of_nat (length p)"
  proof (cases "length p < 5")
    case True
    then have "ktls_scan r p = eat_header r p"
      using r by (simp add: ktls_scan_bytes wf scan_bytes_in_header at_boundary_def)
    then show ?thesis by (simp add: eat_header_def noted_ends_def)
  next
    case False
    define b where "b = drop 5 p"
    from False have "take 5 (wire_header w @ wire_body w) = take 5 p"
      "drop 5 (wire_header w @ wire_body w) = b @ q"
      using p by (simp_all add: wire_bytes_def b_def)
    then have "take 5 p = wire_header w" and body: "wire_body w = b @ q"
      using False by (simp_all add: min_def)
    then have pb: "p = wire_header w @ b" "wire_body w = b @ q"
      using append_take_drop_id [of 5 p] by (simp_all add: b_def)
    let ?r = "header_done (eat_header r (wire_header w))"
    have left: "unat (r_body_left ?r) = length (wire_body w)"
      using header_done_wire [OF r w] w by (simp add: wire_ok_def unat_of_nat)
    then have nz: "body_length (r_head (eat_header r (wire_header w))) \<noteq> 0"
      using pb p by auto
    have "ktls_scan r p = ktls_scan ?r b"
      using scan.consume_append [OF wf] scan_header [OF r length_wire_header [of w]] pb
      by metis
    also have "\<dots> = eat_body ?r (length b)"
    proof (cases "b = []")
      case True
      then show ?thesis using nz by (simp add: scan.consume_Nil eat_body_def header_done_def)
    next
      case False
      then show ?thesis
        using left nz pb scan_bytes_body [of ?r b]
          records_wf_scan [OF wf, of "wire_header w"] scan_header [OF r length_wire_header [of w]]
        by (simp add: ktls_scan_bytes)
    qed
    also have "\<dots> = ?r\<lparr> r_body_left := r_body_left ?r - of_nat (length b),
        r_offset := r_offset ?r + of_nat (length b) \<rparr>"
      using left pb p by (intro eat_body_inside) simp
    finally show ?thesis
      using nz pb by (simp add: header_done_def eat_header_def noted_ends_def)
  qed
  then show "noted_ends (ktls_scan r p) = noted_ends r"
    "r_overflowed (ktls_scan r p) = r_overflowed r"
    "r_offset (ktls_scan r p) = r_offset r + of_nat (length p)" by auto
qed

section \<open>Counting records\<close>

lemma records_between_filter:
  assumes "records_wf r"
  shows "ktls_records_between r a b = of_nat (length (filter (\<lambda>e. a < e \<and> e \<le> b) (noted_ends r)))"
proof -
  have "foldl (\<lambda>n i. if a < r_ends r ! i \<and> r_ends r ! i \<le> b then n + 1 else n) 0 [0..<k] =
      (of_nat (length (filter (\<lambda>e. a < e \<and> e \<le> b) (take k (r_ends r)))) :: u64)"
    if "k \<le> length (r_ends r)" for k
    using that by (induction k) (simp_all add: take_Suc_conv_app_nth)
  then show ?thesis
    using assms by (simp add: ktls_records_between_def noted_ends_def records_wf_def)
qed

text \<open>
  The records of \<open>us\<close>, counted from the offset just before them up to any offset that does
  not reach the end of the next record.
\<close>

definition before_next :: "wire list \<Rightarrow> nat \<Rightarrow> bool" where
  "before_next vs j \<longleftrightarrow> (case vs of [] \<Rightarrow> True | v # _ \<Rightarrow> j < length (wire_bytes v))"

lemma before_next_ends:
  "before_next vs j \<Longrightarrow> e \<in> set (wire_ends n vs) \<Longrightarrow> n + j < e"
  by (cases vs) (auto simp: before_next_def dest: wire_ends_bounds)

lemma filter_wire_ends:
  assumes "before_next vs j"
  shows "filter (\<lambda>e. length (wires hs) < e \<and> e \<le> length (wires hs) + length (wires us) + j)
     (wire_ends 0 (hs @ us @ vs)) = wire_ends (length (wires hs)) us"
proof -
  let ?P = "\<lambda>e. length (wires hs) < e \<and> e \<le> length (wires hs) + length (wires us) + j"
  have "filter ?P (wire_ends 0 hs) = []"
    by (auto simp: filter_empty_conv dest: wire_ends_bounds)
  moreover have "filter ?P (wire_ends (length (wires hs)) us) = wire_ends (length (wires hs)) us"
    by (auto simp: filter_id_conv dest: wire_ends_bounds)
  moreover have "filter ?P (wire_ends (length (wires hs) + length (wires us)) vs) = []"
    using before_next_ends [OF assms] by (fastforce simp: filter_empty_conv)
  ultimately show ?thesis by (simp add: wire_ends_append)
qed

text \<open>
  The same over a scanned stream: complete records \<open>hs\<close>, \<open>us\<close> and \<open>vs\<close>, then the first
  \<open>k\<close> bytes of a record that is still on its way.
\<close>

lemma scan_stream:
  assumes "\<forall>w \<in> set ws. wire_ok w" "wire_ok w" "k < length (wire_bytes w)"
  defines "r \<equiv> ktls_scan records_zero (wires ws @ take k (wire_bytes w))"
  shows "noted_ends r = take 64 (map of_nat (wire_ends 0 ws))"
    "r_overflowed r \<longleftrightarrow> 64 < length ws"
    "r_offset r = of_nat (length (wires ws) + k)"
proof -
  let ?r = "ktls_scan records_zero (wires ws)"
  have zero: "r_offset records_zero = of_nat 0" "\<not> r_overflowed records_zero"
    by (simp_all add: records_zero_def)
  note ws = scan_wires [OF at_boundary_zero assms(1) zero(1)]
  have r: "r = ktls_scan ?r (take k (wire_bytes w))"
    unfolding r_def using scan.consume_append [OF records_wf_zero] by simp
  have w: "wire_bytes w = take k (wire_bytes w) @ drop k (wire_bytes w)"
    "drop k (wire_bytes w) \<noteq> []" using assms(3) by simp_all
  note p = scan_partial [OF _ assms(2) w, of ?r, folded r]
  show "noted_ends r = take 64 (map of_nat (wire_ends 0 ws))" using ws p(1) by simp
  show "r_overflowed r \<longleftrightarrow> 64 < length ws" using ws p(2) zero by simp
  show "r_offset r = of_nat (length (wires ws) + k)" using ws p(3) assms(3) by simp
qed

lemma records_between_stream:
  assumes ok: "\<forall>w \<in> set (hs @ us @ vs). wire_ok w" "wire_ok w" "k < length (wire_bytes w)"
    and short: "length (wires (hs @ us @ vs)) < 2 ^ 64"
    and few: "length (hs @ us @ vs) \<le> 64"
    and j: "before_next vs j" "length (wires hs) + length (wires us) + j < 2 ^ 64"
  shows "ktls_records_between (ktls_scan records_zero (wires (hs @ us @ vs) @ take k (wire_bytes w)))
      (of_nat (length (wires hs))) (of_nat (length (wires hs) + length (wires us) + j)) =
    of_nat (length us)"
proof -
  define ws where "ws = hs @ us @ vs"
  define a where "a = length (wires hs)"
  define b where "b = length (wires hs) + length (wires us) + j"
  let ?r = "ktls_scan records_zero (wires ws @ take k (wire_bytes w))"
  have ends: "noted_ends ?r = map of_nat (wire_ends 0 ws)"
    using scan_stream(1) [of ws w k] ok few by (simp add: ws_def)
  have inj: "(of_nat c :: u64) < of_nat d \<longleftrightarrow> c < d" "(of_nat c :: u64) \<le> of_nat d \<longleftrightarrow> c \<le> d"
    if "c < 2 ^ 64" "d < 2 ^ 64" for c d :: nat
    using that by (simp_all add: word_less_nat_alt word_le_nat_alt unat_of_nat)
  have ab: "a < 2 ^ 64" "b < 2 ^ 64" using short j(2) by (simp_all add: a_def b_def)
  have bound: "e < 2 ^ 64" if "e \<in> set (wire_ends 0 ws)" for e
    using wire_ends_bounds [OF that] short by (simp add: ws_def)
  have "filter (\<lambda>e. of_nat a < e \<and> e \<le> of_nat b) (noted_ends ?r) =
      map of_nat (filter (\<lambda>e. a < e \<and> e \<le> b) (wire_ends 0 ws))"
    unfolding ends filter_map o_def
    by (intro arg_cong [where f = "map of_nat"] filter_cong) (use bound ab inj in auto)
  also have "filter (\<lambda>e. a < e \<and> e \<le> b) (wire_ends 0 ws) = wire_ends a us"
    unfolding a_def b_def ws_def by (rule filter_wire_ends [OF j(1)])
  finally have "length (filter (\<lambda>e. of_nat a < e \<and> e \<le> of_nat b) (noted_ends ?r)) = length us"
    by simp
  moreover have "records_wf ?r" by (rule records_wf_scan) simp
  ultimately show ?thesis by (simp only: records_between_filter ws_def a_def b_def)
qed

text \<open>No end is noted beyond the bytes that were scanned.\<close>

lemma scan_byte_ends:
  assumes "records_wf r"
  shows "r_offset (scan_byte r b) = r_offset r + 1"
    "set (noted_ends (scan_byte r b)) \<subseteq> insert (r_offset r + 1) (set (noted_ends r))"
proof -
  have step: "set (noted_ends (note_end q)) \<subseteq> insert (r_offset q) (set (noted_ends q))"
    if "records_wf q" for q
    using set_take_subset [of 64 "noted_ends q @ [r_offset q]"]
    by (simp add: noted_ends_note_end(1) [OF that])
  have flat: "noted_ends (q\<lparr> r_body_left := u, r_head_len := v \<rparr>) = noted_ends q"
    "noted_ends (q\<lparr> r_body_left := u, r_offset := z \<rparr>) = noted_ends q"
    "noted_ends (eat_header q p) = noted_ends q" for q u v z p
    by (simp_all add: noted_ends_def eat_header_def)
  show "r_offset (scan_byte r b) = r_offset r + 1"
    by (simp add: scan_byte_def Let_def)
  show "set (noted_ends (scan_byte r b)) \<subseteq> insert (r_offset r + 1) (set (noted_ends r))"
  proof (cases "r_body_left r = 0")
    case True
    let ?h = "eat_header r [b]"
    have wf: "records_wf (?h\<lparr> r_body_left := 0, r_head_len := 0 \<rparr>)"
      using assms by (auto simp: records_wf_def eat_header_def length_memcpy_at)
    show ?thesis
    proof (cases "r_head_len ?h < 5")
      case True
      with \<open>r_body_left r = 0\<close> show ?thesis by (auto simp: scan_byte_def flat)
    next
      case False
      with \<open>r_body_left r = 0\<close> show ?thesis
        using step [OF wf] by (auto simp: scan_byte_def header_done_def Let_def flat)
    qed
  next
    case False
    let ?e = "r\<lparr> r_body_left := r_body_left r - 1, r_offset := r_offset r + 1 \<rparr>"
    have wf: "records_wf ?e" using assms False by (auto simp: records_wf_def)
    show ?thesis
      using False step [OF wf] by (auto simp: scan_byte_def eat_body_def Let_def flat)
  qed
qed

lemma scan_offset_and_ends:
  assumes "length p < 2 ^ 64"
  shows "r_offset (ktls_scan records_zero p) = of_nat (length p) \<and>
    (\<forall>e \<in> set (noted_ends (ktls_scan records_zero p)). unat e \<le> length p)"
  using assms
proof (induction p rule: rev_induct)
  case Nil
  then show ?case by (simp add: scan.consume_Nil) (simp add: records_zero_def)
next
  case (snoc b p)
  let ?r = "ktls_scan records_zero p"
  have wf: "records_wf ?r" by (rule records_wf_scan) simp
  have split: "ktls_scan records_zero (p @ [b]) = scan_byte ?r b"
    by (simp add: ktls_scan_bytes)
  have IH: "r_offset ?r = of_nat (length p)" "\<forall>e \<in> set (noted_ends ?r). unat e \<le> length p"
    using snoc by simp_all
  have "unat (of_nat (length p + 1) :: u64) = (length p + 1) mod 2 ^ LENGTH(64)"
    by (rule unat_of_nat)
  then have top: "unat (of_nat (length p + 1) :: u64) = length p + 1"
  proof -
    have "length p + 1 < 2 ^ LENGTH(64)" using snoc.prems by simp
    with \<open>unat (of_nat (length p + 1) :: u64) = (length p + 1) mod 2 ^ LENGTH(64)\<close>
    show ?thesis by (simp only: mod_less)
  qed
  have one: "r_offset ?r + 1 = of_nat (length p + 1)" using IH(1) by simp
  have "unat e \<le> length p + 1" if "e \<in> set (noted_ends (scan_byte ?r b))" for e
    using that scan_byte_ends(2) [OF wf, of b] IH(2) top unfolding one by fastforce
  then show ?case
    unfolding split using scan_byte_ends(1) [OF wf, of b] one by simp
qed

section \<open>Properties\<close>

text \<open>
  C12: However a stream is cut into the pieces the scanner is handed, what it holds at the end
  is what looking at the bytes one at a time gives: the loop's jumps over headers and bodies
  lose nothing, and no cut inside a header or a body matters.
\<close>

theorem scan_bytewise: "foldl ktls_scan records_zero ps = foldl scan_byte records_zero (concat ps)"
  by (simp add: scan.consume_pieces ktls_scan_bytes)

text \<open>
  Whatever the peer sends, no write of the scanner is out of bounds: the header buffer
  keeps its five bytes and is never full between calls, at most 64 ends are noted, and the
  scanner is inside a body only when no header byte is waiting.
\<close>

theorem scan_in_bounds:
  "let r = foldl ktls_scan records_zero ps in
     length (r_head r) = 5 \<and> r_head_len r < 5 \<and> length (r_ends r) = 64 \<and> r_count r \<le> 64 \<and>
     \<not> (r_overflowed r \<and> r_count r \<noteq> 64) \<and> \<not> (r_body_left r \<noteq> 0 \<and> r_head_len r \<noteq> 0)"
  using scan.consume_pieces_ok [OF records_wf_zero, of ps] by (auto simp: records_wf_def Let_def)

text \<open>
  C13: On complete TLS records followed by the beginning of one more, the scanner notes the
  offset just past each record, the first 64 of them, has seen every byte, and says it
  overflowed exactly when there were more than 64.
\<close>

theorem scan_notes_records:
  assumes "\<forall>v \<in> set ws. wire_ok v" "wire_ok w" "k < length (wire_bytes w)"
    and "concat ps = wires ws @ take k (wire_bytes w)"
  defines "r \<equiv> foldl ktls_scan records_zero ps"
  shows "noted_ends r = take 64 (map of_nat (wire_ends 0 ws)) \<and>
    (r_overflowed r \<longleftrightarrow> 64 < length ws) \<and> r_offset r = of_nat (length (concat ps))"
proof -
  have "r = ktls_scan records_zero (wires ws @ take k (wire_bytes w))"
    using assms(4) by (simp add: r_def scan.consume_pieces)
  with scan_stream [OF assms(1-3)] assms(3,4) show ?thesis by simp
qed

theorem scan_notes_records_witness:
  "r_offset (foldl ktls_scan records_zero [[22, 3, 3], [0, 1, 7, 23], [3]]) = 8 \<and>
   noted_ends (foldl ktls_scan records_zero [[22, 3, 3], [0, 1, 7, 23], [3]]) = [6]"
  using scan_notes_records [of "[(22, 3, 3, [7])]" "(23, 3, 0, [])" 2 "[[22, 3, 3], [0, 1, 7, 23], [3]]"]
  by (simp add: wire_ok_def wires_def wire_bytes_def)

text \<open>
  \<open>ktls_records_between\<close> is the number of record ends after one offset and up to
  another, among those the scanner noted, for any bytes in any pieces.
\<close>

theorem records_between_counts:
  "ktls_records_between (foldl ktls_scan records_zero ps) after til =
     of_nat (length (filter (\<lambda>e. after < e \<and> e \<le> til) (noted_ends (foldl ktls_scan records_zero ps))))"
  by (simp add: records_between_filter scan.consume_pieces_ok)

end
