(* ===== verification/Ktls_Keylog.thy ===== *)
theory Ktls_Keylog
  imports Ktls_Prelude
begin

text \<open>
  The traffic secrets arrive as SSLKEYLOGFILE lines, "<LABEL> <client_random> <secret>",
  and \<open>ktls_keylog\<close> with \<open>ktls_unhex\<close> of src/ktls.c reads the two it needs. Here is the
  text side of that: which line is which secret, and the hexadecimal reader with the one
  \<open>sscanf\<close> conversion it uses. The exchange's own part of the callback is in
  Ktls_Exchange.
\<close>

section \<open>sscanf (hex, "%2x", &v)\<close>

abbreviation code :: "char \<Rightarrow> nat" where
  "code c \<equiv> of_char c"

definition c_isspace :: "char \<Rightarrow> bool" where
  "c_isspace c \<longleftrightarrow> code c = 32 \<or> 9 \<le> code c \<and> code c \<le> 13"

definition hex_digit :: "char \<Rightarrow> nat option" where
  "hex_digit c =
     (if 48 \<le> code c \<and> code c \<le> 57 then Some (code c - 48)
      else if 97 \<le> code c \<and> code c \<le> 102 then Some (code c - 87)
      else if 65 \<le> code c \<and> code c \<le> 70 then Some (code c - 55)
      else None)"

text \<open>
  White space is skipped, then a field of at most two characters is read as \<open>strtoul\<close>
  would with base 16: a sign takes one of the two, and "0x" alone is no number.
\<close>

definition sscanf_2x :: "string \<Rightarrow> nat option" where
  "sscanf_2x s =
     (case dropWhile c_isspace s of
        [] \<Rightarrow> None
      | c # rest \<Rightarrow>
          if code c = 43 \<or> code c = 45 then
            (case rest of
               [] \<Rightarrow> None
             | d # _ \<Rightarrow> (case hex_digit d of
                 None \<Rightarrow> None
               | Some l \<Rightarrow> Some (if code c = 45 then (2 ^ 32 - l) mod 2 ^ 32 else l)))
          else
            (case hex_digit c of
               None \<Rightarrow> None
             | Some h \<Rightarrow>
                 (case rest of
                    [] \<Rightarrow> Some h
                  | d # _ \<Rightarrow>
                      if code c = 48 \<and> (code d = 120 \<or> code d = 88) then None
                      else (case hex_digit d of None \<Rightarrow> Some h | Some l \<Rightarrow> Some (16 * h + l)))))"

section \<open>ktls_unhex\<close>

text \<open>
  \<open>UnhexLen n\<close> is a return of 0 with \<open>*len = n\<close>, \<open>UnhexFail\<close> a return of -1 with \<open>*len\<close>
  untouched; \<open>UnhexOverrun\<close> is the C program's \<open>hex += 2\<close> stepping over the terminator of
  a text with an odd number of digits. The array is returned with what was written to it.
\<close>

datatype unhex_result = UnhexLen nat | UnhexFail | UnhexOverrun

fun unhex_loop :: "string \<Rightarrow> bytes \<Rightarrow> nat \<Rightarrow> nat \<Rightarrow> unhex_result \<times> bytes" where
  "unhex_loop [] out n cap = (UnhexLen n, out)"
| "unhex_loop (c # hs) out n cap =
     (if code c = 32 \<or> code c = 10 then (UnhexLen n, out)
      else (case sscanf_2x (c # hs) of
              None \<Rightarrow> (UnhexFail, out)
            | Some v \<Rightarrow>
                if cap \<le> n then (UnhexFail, out)
                else (case hs of
                        [] \<Rightarrow> (UnhexOverrun, out[n := of_nat v])
                      | _ # hex \<Rightarrow> unhex_loop hex (out[n := of_nat v]) (n + 1) cap)))"

definition ktls_unhex :: "string \<Rightarrow> bytes \<Rightarrow> nat \<Rightarrow> unhex_result \<times> bytes" where
  "ktls_unhex hex out cap = unhex_loop hex out 0 cap"

section \<open>Which line is which secret\<close>

text \<open>The index of the two-element arrays of \<open>struct ktls_exchange\<close>: 0 and 1.\<close>

datatype slot = ClientSlot | ServerSlot

definition kClient :: string where
  "kClient = ''CLIENT_TRAFFIC_SECRET_0 ''"

definition kServer :: string where
  "kServer = ''SERVER_TRAFFIC_SECRET_0 ''"

definition keylog_rest :: "string \<Rightarrow> (slot \<times> string) option" where
  "keylog_rest line =
     (if take (length kClient) line = kClient then Some (ClientSlot, drop (length kClient) line)
      else if take (length kServer) line = kServer then Some (ServerSlot, drop (length kServer) line)
      else None)"

text \<open>\<open>strchr (rest, ' ')\<close> and one past it: where the secret's digits start.\<close>

definition keylog_secret :: "string \<Rightarrow> (slot \<times> string) option" where
  "keylog_secret line =
     (case keylog_rest line of
        None \<Rightarrow> None
      | Some (which, rest) \<Rightarrow>
          (case dropWhile (\<lambda>c. c \<noteq> CHR '' '') rest of
             [] \<Rightarrow> None
           | sp # hex \<Rightarrow> Some (which, hex)))"

section \<open>What OpenSSL writes\<close>

text \<open>Two lower-case digits a byte.\<close>

definition hex_char :: "nat \<Rightarrow> char" where
  "hex_char n = (if n < 10 then char_of (48 + n) else char_of (87 + n))"

definition hex_of_byte :: "u8 \<Rightarrow> string" where
  "hex_of_byte b = [hex_char (unat b div 16), hex_char (unat b mod 16)]"

definition hex_of :: "bytes \<Rightarrow> string" where
  "hex_of bs = concat (map hex_of_byte bs)"

definition keylog_line :: "slot \<Rightarrow> string \<Rightarrow> bytes \<Rightarrow> string" where
  "keylog_line which random secret =
     (case which of ClientSlot \<Rightarrow> kClient | ServerSlot \<Rightarrow> kServer)
       @ random @ '' '' @ hex_of secret"

lemma hex_of_Cons [simp]: "hex_of [] = []" "hex_of (b # bs) = hex_of_byte b @ hex_of bs"
  by (simp_all add: hex_of_def)

lemma code_hex_char:
  "n < 16 \<Longrightarrow> code (hex_char n) = (if n < 10 then 48 + n else 87 + n)"
  by (simp add: hex_char_def)

lemma hex_digit_hex_char [simp]: "n < 16 \<Longrightarrow> hex_digit (hex_char n) = Some n"
  by (simp add: hex_digit_def code_hex_char)

lemma hex_char_plain:
  assumes "n < 16"
  shows "\<not> c_isspace (hex_char n)" "code (hex_char n) \<noteq> 43" "code (hex_char n) \<noteq> 45"
    "code (hex_char n) \<noteq> 120" "code (hex_char n) \<noteq> 88" "code (hex_char n) \<noteq> 32"
    "code (hex_char n) \<noteq> 10"
  using assms by (auto simp: c_isspace_def code_hex_char)

lemma byte_nibbles: "unat (b :: u8) div 16 < 16" "unat b mod 16 < 16"
proof -
  have "unat b < 2 ^ LENGTH(8)" by (rule unsigned_less)
  then show "unat b div 16 < 16" "unat b mod 16 < 16" by auto
qed

lemma sscanf_2x_hex: "sscanf_2x (hex_of_byte b @ rest) = Some (unat b)"
  using byte_nibbles [of b] by (simp add: sscanf_2x_def hex_of_byte_def hex_char_plain)

lemma unhex_loop_hex_byte:
  assumes "n < cap"
  shows "unhex_loop (hex_of_byte b @ rest) out n cap = unhex_loop rest (out[n := b]) (n + 1) cap"
proof -
  have "hex_of_byte b @ rest = hex_char (unat b div 16) # hex_char (unat b mod 16) # rest"
    by (simp add: hex_of_byte_def)
  with sscanf_2x_hex [of b rest] assms byte_nibbles [of b] show ?thesis
    by (simp add: hex_char_plain)
qed

text \<open>The end of the digits: the terminator, a space or a newline.\<close>

definition ends_hex :: "string \<Rightarrow> bool" where
  "ends_hex rest \<longleftrightarrow> (case rest of [] \<Rightarrow> True | c # _ \<Rightarrow> code c = 32 \<or> code c = 10)"

lemma unhex_loop_hex:
  assumes "n + length bs \<le> cap" "cap \<le> length out" "ends_hex rest"
  shows "unhex_loop (hex_of bs @ rest) out n cap = (UnhexLen (n + length bs), memcpy_at out n bs)"
  using assms
proof (induction bs arbitrary: out n)
  case Nil
  then show ?case by (cases rest) (simp_all add: ends_hex_def memcpy_at_Nil)
next
  case (Cons b bs)
  then have "unhex_loop (hex_of (b # bs) @ rest) out n cap =
      unhex_loop (hex_of bs @ rest) (out[n := b]) (n + 1) cap"
    by (simp add: unhex_loop_hex_byte)
  also have "\<dots> = (UnhexLen (n + 1 + length bs), memcpy_at (out[n := b]) (n + 1) bs)"
    using Cons by simp
  also have "memcpy_at (out[n := b]) (n + 1) bs = memcpy_at out n (b # bs)"
    using Cons.prems memcpy_at_append [of n "[b]" bs out] memcpy_at_single [of n out b] by simp
  finally show ?case by simp
qed

text \<open>A secret that does not fit is refused, and nothing is written past the array.\<close>

lemma unhex_loop_too_long:
  assumes "n \<le> cap" "cap < n + length bs"
  shows "fst (unhex_loop (hex_of bs @ rest) out n cap) = UnhexFail"
  using assms
proof (induction bs arbitrary: out n)
  case Nil
  then show ?case by simp
next
  case (Cons b bs)
  show ?case
  proof (cases "n < cap")
    case True
    with Cons show ?thesis by (simp add: unhex_loop_hex_byte)
  next
    case False
    with Cons.prems have "cap \<le> n" by simp
    moreover have "hex_of (b # bs) @ rest =
        hex_char (unat b div 16) # hex_char (unat b mod 16) # hex_of bs @ rest"
      by (simp add: hex_of_byte_def)
    ultimately show ?thesis
      using sscanf_2x_hex [of b "hex_of bs @ rest"] byte_nibbles [of b]
      by (simp add: hex_char_plain hex_of_byte_def)
  qed
qed

lemma unhex_loop_length: "length (snd (unhex_loop hex out n cap)) = length out"
  by (induction hex out n cap rule: unhex_loop.induct) (auto split: option.splits list.splits)

lemma unhex_loop_bound:
  "unhex_loop hex out n cap = (UnhexLen m, out') \<Longrightarrow> n \<le> cap \<Longrightarrow> m \<le> cap"
  by (induction hex out n cap rule: unhex_loop.induct)
    (auto split: option.splits list.splits if_splits)

text \<open>A secret line is recognised as what it is.\<close>

lemma keylog_secret_line:
  assumes "CHR '' '' \<notin> set random"
  shows "keylog_secret (keylog_line which random secret) = Some (which, hex_of secret)"
proof -
  have "keylog_rest (keylog_line which random secret) = Some (which, random @ '' '' @ hex_of secret)"
    by (cases which) (simp_all add: keylog_rest_def keylog_line_def kClient_def kServer_def)
  moreover have "dropWhile (\<lambda>c. c \<noteq> CHR '' '') (random @ '' '' @ hex_of secret) =
      CHR '' '' # hex_of secret"
    using assms by (subst dropWhile_append2) auto
  ultimately show ?thesis by (simp add: keylog_secret_def)
qed

end
