(* ===== verification/Ktls_Exchange.thy ===== *)
theory Ktls_Exchange
  imports Ktls_Scan Ktls_Errors Ktls_Keylog
begin

text \<open>
  The exchange of src/ktls.c: \<open>struct ktls_exchange\<close> and the operations that run the
  handshake, from \<open>ktls_exchange_open\<close> to \<open>ktls_exchange_backlog\<close>, with the key
  derivation of \<open>ktls_expand\<close>, \<open>ktls_fill\<close> and \<open>ktls_derive_both\<close> (the Linux layout of
  \<open>union ktls_info\<close>).

  OpenSSL is a parameter, the record \<open>tls_lib\<close>: an SSL object is a value of the type
  \<open>'s\<close>, its two memory BIOs are the bytes pending in them, and every call the code makes is
  a field that says what the call answers and leaves behind. An operation takes the
  exchange and the thread's error state and returns its outcome with both.
\<close>

section \<open>Types of include/ktls.h\<close>

datatype ktls_role = KTLS_SERVER | KTLS_CLIENT
datatype ktls_step = KTLS_DONE | KTLS_READING | KTLS_WRITING
datatype ktls_direction = KTLS_TX | KTLS_RX

section \<open>OpenSSL and the kernel's constants\<close>

datatype ssl_error = SSL_ERROR_WANT_READ | SSL_ERROR_WANT_WRITE | SSL_ERROR_OTHER

text \<open>
  The outcome of \<open>SSL_do_handshake\<close> or \<open>SSL_read\<close>: the return value, the SSL object
  afterwards, what is pending in the two BIOs afterwards, the lines handed to the keylog
  callback, the thread's error queue afterwards, and for a read the plaintext.
\<close>

record 's ssl_io =
  io_rc :: int
  io_ssl :: 's
  io_in :: bytes
  io_out :: bytes
  io_lines :: "string list"
  io_queue :: "nat list"
  io_data :: bytes

text \<open>\<open>KdfBytes f\<close>: \<open>EVP_KDF_derive\<close> filled the output buffer, byte \<open>i\<close> of it with \<open>f i\<close>.\<close>

datatype kdf_result = KdfNoFetch | KdfNoCtx | KdfNoDerive | KdfBytes "nat \<Rightarrow> u8"

record 's tls_lib = err_lib +
  bio_write_ret :: "bytes \<Rightarrow> int \<Rightarrow> int"   \<comment> \<open>pending bytes, length offered\<close>
  bio_read_ret :: "bytes \<Rightarrow> int \<Rightarrow> int"    \<comment> \<open>pending bytes, room offered\<close>
  bio_pending_null :: int                   \<comment> \<open>\<open>BIO_pending (NULL)\<close>\<close>
  ssl_set_state :: "ktls_role \<Rightarrow> 's \<Rightarrow> 's"
  ssl_do_handshake :: "'s \<Rightarrow> bytes \<Rightarrow> bytes \<Rightarrow> nat list \<Rightarrow> 's ssl_io"
  ssl_read :: "'s \<Rightarrow> bytes \<Rightarrow> bytes \<Rightarrow> int \<Rightarrow> nat list \<Rightarrow> 's ssl_io"
  ssl_get_error :: "'s \<Rightarrow> int \<Rightarrow> nat list \<Rightarrow> ssl_error"
  ssl_is_server :: "'s \<Rightarrow> bool"
  ssl_cipher_name :: "'s \<Rightarrow> string option"
  ssl_alpn_selected :: "'s \<Rightarrow> bytes option"
  kdf :: "bytes \<Rightarrow> string \<Rightarrow> nat \<Rightarrow> kdf_result"

text \<open>The constants of \<open>linux/tls.h\<close> the code names.\<close>

record kernel_abi =
  TLS_1_3_VERSION :: u16
  TLS_CIPHER_AES_GCM_128 :: u16
  TLS_CIPHER_CHACHA20_POLY1305 :: u16
  SOL_TLS :: int
  TLS_TX :: int
  TLS_RX :: int
  TLS_GET_RECORD_TYPE :: int
  TLS_SET_RECORD_TYPE :: int

section \<open>struct ktls_exchange\<close>

datatype ktls_cipher = NoCipher | KTLS_AES_GCM_128 | KTLS_CHACHA20_POLY1305

text \<open>
  \<open>union ktls_info\<close>: the fields the two Linux structs have, at the sizes of the cipher in
  force; all zero and empty after \<open>memset\<close>.
\<close>

record ktls_info =
  i_version :: u16
  i_cipher_type :: u16
  i_iv :: bytes
  i_key :: bytes
  i_salt :: bytes
  i_rec_seq :: bytes

definition info_zero :: ktls_info where
  "info_zero = \<lparr> i_version = 0, i_cipher_type = 0, i_iv = [], i_key = [], i_salt = [],
     i_rec_seq = replicate 8 0 \<rparr>"

record 's ktls_exchange =
  x_ssl :: "'s option"
  x_in :: "bytes option"
  x_out :: "bytes option"
  x_done :: bool
  x_tx :: ktls_records
  x_rx :: ktls_records
  x_tx_at_done :: u64
  x_rx_at_done :: u64
  x_rx_fed :: u64
  x_server :: bool
  x_cipher_name :: string
  x_alpn :: bytes
  x_alpn_len :: nat
  x_rekeyed :: "slot \<Rightarrow> bool"
  x_secret :: "slot \<Rightarrow> bytes"
  x_secret_len :: "slot \<Rightarrow> nat"
  x_cipher :: ktls_cipher
  x_info :: "slot \<Rightarrow> ktls_info"
  x_key :: "slot \<Rightarrow> bytes"
  x_iv :: "slot \<Rightarrow> bytes"

definition exchange_zero :: "'s ktls_exchange" where
  "exchange_zero = \<lparr> x_ssl = None, x_in = None, x_out = None, x_done = False,
     x_tx = records_zero, x_rx = records_zero, x_tx_at_done = 0, x_rx_at_done = 0, x_rx_fed = 0,
     x_server = False, x_cipher_name = [], x_alpn = replicate 32 0, x_alpn_len = 0,
     x_rekeyed = (\<lambda>_. False), x_secret = (\<lambda>_. replicate 64 0), x_secret_len = (\<lambda>_. 0),
     x_cipher = NoCipher, x_info = (\<lambda>_. info_zero), x_key = (\<lambda>_. replicate 32 0),
     x_iv = (\<lambda>_. replicate 12 0) \<rparr>"

text \<open>The result of an operation: the outcome, the exchange, the thread's error state.\<close>

type_synonym ('r, 's) outcome = "(failure + 'r) \<times> 's ktls_exchange \<times> thread_err"

definition failing ::
    "'z err_lib_scheme \<Rightarrow> failure \<Rightarrow> 's ktls_exchange \<Rightarrow> thread_err \<Rightarrow> ('r, 's) outcome" where
  "failing lib f x t = (Inl f, x, report lib f t)"

definition bio_bytes :: "bytes option \<Rightarrow> bytes" where
  "bio_bytes b = (case b of None \<Rightarrow> [] | Some c \<Rightarrow> c)"

definition bio_pending :: "'s tls_lib \<Rightarrow> bytes option \<Rightarrow> int" where
  "bio_pending lib b = (case b of None \<Rightarrow> bio_pending_null lib | Some c \<Rightarrow> int (length c))"

section \<open>Opening and ending\<close>

text \<open>
  \<open>ssl_new\<close> is \<open>SSL_new\<close> on the keys' default context; the three flags say whether
  \<open>calloc\<close> and the two \<open>BIO_new\<close> had memory. \<open>SSL_set_ex_data\<close> stores the exchange itself,
  which is what \<open>ktls_keylog\<close> below is given.
\<close>

definition ktls_exchange_open ::
    "'s tls_lib \<Rightarrow> ('k \<Rightarrow> 's option) \<Rightarrow> bool \<Rightarrow> bool \<Rightarrow> bool \<Rightarrow> 'k option \<Rightarrow> ktls_role \<Rightarrow> thread_err \<Rightarrow>
      (failure + 's ktls_exchange) \<times> thread_err" where
  "ktls_exchange_open lib ssl_new calloc_ok in_ok out_ok keys role t =
     (case keys of
        None \<Rightarrow> (Inl (Say ''ktls_exchange_open: no keys''), ktls_say ''ktls_exchange_open: no keys'' t)
      | Some k \<Rightarrow>
          if \<not> calloc_ok then (Inl (Say ''out of memory''), ktls_say ''out of memory'' t)
          else (case ssl_new k of
                  None \<Rightarrow> (Inl (Fail ''SSL_new''), openssl_failed lib ''SSL_new'' t)
                | Some s \<Rightarrow>
                    if \<not> in_ok \<or> \<not> out_ok then
                      (Inl (Fail ''SSL_new''), openssl_failed lib ''SSL_new'' t)
                    else (Inr (exchange_zero\<lparr> x_ssl := Some (ssl_set_state lib role s),
                            x_in := Some [], x_out := Some [] \<rparr>), t)))"

definition ktls_exchange_release :: "'s ktls_exchange option \<Rightarrow> 's ktls_exchange option" where
  "ktls_exchange_release xp =
     (case xp of
        None \<Rightarrow> None
      | Some x \<Rightarrow> (case x_ssl x of
          None \<Rightarrow> Some x
        | Some _ \<Rightarrow> Some (x\<lparr> x_ssl := None, x_in := None, x_out := None \<rparr>)))"

section \<open>Bytes in and out\<close>

definition ktls_exchange_feed ::
    "'s tls_lib \<Rightarrow> bytes \<Rightarrow> 's ktls_exchange \<Rightarrow> thread_err \<Rightarrow> (unit, 's) outcome" where
  "ktls_exchange_feed lib bs x t =
     (if x_ssl x = None then failing lib (Say ''feed after the exchange was released'') x t
      else if length bs = 0 then (Inr (), x, t)
      else
        (let n = bio_write_ret lib (bio_bytes (x_in x)) (c_int (length bs));
             x1 = x\<lparr> x_in := Some (bio_bytes (x_in x) @ take (nat n) bs) \<rparr>
         in if n \<noteq> c_int (length bs) then failing lib (Fail ''BIO_write'') x1 t
            else (Inr (), x1\<lparr> x_rx := ktls_scan (x_rx x1) bs,
                              x_rx_fed := x_rx_fed x1 + of_nat (length bs) \<rparr>, t)))"

text \<open>What is copied to \<open>out\<close>; its length is the return value, 0 on the failing branch too.\<close>

definition ktls_exchange_take ::
    "'s tls_lib \<Rightarrow> nat \<Rightarrow> 's ktls_exchange \<Rightarrow> thread_err \<Rightarrow> (bytes, 's) outcome" where
  "ktls_exchange_take lib cap x t =
     (if x_ssl x = None then failing lib (Say ''take after the exchange was released'') x t
      else
        (let pending = bio_bytes (x_out x);
             n = bio_read_ret lib pending (c_int cap)
         in if n \<le> 0 then (Inr [], x, t)
            else (let out = take (nat n) pending
                  in (Inr out, x\<lparr> x_out := Some (drop (nat n) pending),
                                 x_tx := ktls_scan (x_tx x) out \<rparr>, t))))"

section \<open>Secrets and keys\<close>

text \<open>The keylog callback: the digits of a secret line go into the slot's array.\<close>

definition ktls_keylog :: "string \<Rightarrow> 's ktls_exchange \<Rightarrow> 's ktls_exchange" where
  "ktls_keylog line x =
     (case keylog_secret line of
        None \<Rightarrow> x
      | Some (which, hex) \<Rightarrow>
          (case ktls_unhex hex (x_secret x which) 64 of
             (UnhexLen n, out) \<Rightarrow> x\<lparr> x_secret := (x_secret x)(which := out),
                                   x_secret_len := (x_secret_len x)(which := n) \<rparr>
           | (_, out) \<Rightarrow> x\<lparr> x_secret := (x_secret x)(which := out) \<rparr>))"

text \<open>
  \<open>ktls_expand\<close>: HKDF-Expand-Label with the label, SHA-256 and an empty context, by OpenSSL's
  TLS13-KDF.
\<close>

definition ktls_expand :: "'s tls_lib \<Rightarrow> bytes \<Rightarrow> string \<Rightarrow> nat \<Rightarrow> failure + bytes" where
  "ktls_expand lib secret label olen =
     (case kdf lib secret label olen of
        KdfNoFetch \<Rightarrow> Inl (Fail ''EVP_KDF_fetch(TLS13-KDF)'')
      | KdfNoCtx \<Rightarrow> Inl (Fail ''EVP_KDF_CTX_new'')
      | KdfNoDerive \<Rightarrow> Inl (Fail ''EVP_KDF_derive'')
      | KdfBytes out \<Rightarrow> Inr (map out [0..<olen]))"

definition slot_secret :: "'s ktls_exchange \<Rightarrow> slot \<Rightarrow> bytes" where
  "slot_secret x which = take (x_secret_len x which) (x_secret x which)"

definition key_length :: "ktls_cipher \<Rightarrow> nat" where
  "key_length c = (if c = KTLS_AES_GCM_128 then 16 else 32)"

text \<open>Linux splits the one derived iv per cipher: four bytes of salt and eight of iv for AES.\<close>

definition fill_info :: "kernel_abi \<Rightarrow> ktls_cipher \<Rightarrow> bytes \<Rightarrow> bytes \<Rightarrow> ktls_info" where
  "fill_info abi c key iv =
     (if c = KTLS_AES_GCM_128
      then info_zero\<lparr> i_version := TLS_1_3_VERSION abi, i_cipher_type := TLS_CIPHER_AES_GCM_128 abi,
             i_key := take 16 key, i_salt := take 4 iv, i_iv := take 8 (drop 4 iv) \<rparr>
      else info_zero\<lparr> i_version := TLS_1_3_VERSION abi,
             i_cipher_type := TLS_CIPHER_CHACHA20_POLY1305 abi,
             i_key := take 32 key, i_iv := take 12 iv \<rparr>)"

definition ktls_fill ::
    "'s tls_lib \<Rightarrow> kernel_abi \<Rightarrow> 's ktls_exchange \<Rightarrow> slot \<Rightarrow> thread_err \<Rightarrow> (unit, 's) outcome" where
  "ktls_fill lib abi x which t =
     (if x_secret_len x which = 0 then
        failing lib (Say ''the traffic secret never arrived - is this OpenSSL built with TLS 1.3?'') x t
      else
        (case ktls_expand lib (slot_secret x which) ''key'' (key_length (x_cipher x)) of
           Inl f \<Rightarrow> failing lib f x t
         | Inr k \<Rightarrow>
             (let x1 = x\<lparr> x_key := (x_key x)(which := memcpy_at (x_key x which) 0 k) \<rparr>
              in case ktls_expand lib (slot_secret x1 which) ''iv'' 12 of
                   Inl f \<Rightarrow> failing lib f x1 t
                 | Inr v \<Rightarrow>
                     (let x2 = x1\<lparr> x_iv := (x_iv x1)(which := memcpy_at (x_iv x1 which) 0 v) \<rparr>
                      in (Inr (), x2\<lparr> x_info := (x_info x2)(which :=
                            fill_info abi (x_cipher x2) (x_key x2 which) (x_iv x2 which)) \<rparr>, t)))))"

definition ktls_negotiated_cipher :: "'s tls_lib \<Rightarrow> 's \<Rightarrow> ktls_cipher" where
  "ktls_negotiated_cipher lib s =
     (case ssl_cipher_name lib s of
        None \<Rightarrow> NoCipher
      | Some name \<Rightarrow>
          if name = ''TLS_AES_128_GCM_SHA256'' then KTLS_AES_GCM_128
          else if name = ''TLS_CHACHA20_POLY1305_SHA256'' then KTLS_CHACHA20_POLY1305
          else NoCipher)"

text \<open>The slot a side writes with, and the one it reads with.\<close>

fun slot_of :: "ktls_direction \<Rightarrow> bool \<Rightarrow> slot" where
  "slot_of KTLS_TX server = (if server then ServerSlot else ClientSlot)"
| "slot_of KTLS_RX server = (if server then ClientSlot else ServerSlot)"

definition ktls_derive_both ::
    "'s tls_lib \<Rightarrow> kernel_abi \<Rightarrow> 's \<Rightarrow> 's ktls_exchange \<Rightarrow> thread_err \<Rightarrow> (unit, 's) outcome" where
  "ktls_derive_both lib abi s x t =
     (let server = ssl_is_server lib s;
          x1 = x\<lparr> x_cipher := ktls_negotiated_cipher lib s \<rparr>
      in if x_cipher x1 = NoCipher then
           failing lib (Say ''the negotiated cipher is not one the kernel is told about here'') x1 t
         else (case ktls_fill lib abi x1 (slot_of KTLS_TX server) t of
                 (Inl f, r) \<Rightarrow> (Inl f, r)
               | (Inr _, x2, t2) \<Rightarrow> ktls_fill lib abi x2 (slot_of KTLS_RX server) t2))"

section \<open>The handshake\<close>

text \<open>\<open>SSL_do_handshake\<close>, with the keylog lines it hands over on the way.\<close>

definition handshake ::
    "'s tls_lib \<Rightarrow> 's \<Rightarrow> 's ktls_exchange \<Rightarrow> thread_err \<Rightarrow> 's ssl_io" where
  "handshake lib s x t =
     ssl_do_handshake lib s (bio_bytes (x_in x)) (bio_bytes (x_out x)) (te_queue t)"

definition after_io :: "'s ssl_io \<Rightarrow> 's ktls_exchange \<Rightarrow> 's ktls_exchange" where
  "after_io io x = fold ktls_keylog (io_lines io)
     (x\<lparr> x_ssl := Some (io_ssl io), x_in := Some (io_in io), x_out := Some (io_out io) \<rparr>)"

text \<open>The last part of \<open>ktls_exchange_step\<close>: done only once nothing is owed.\<close>

definition step_answer :: "'s tls_lib \<Rightarrow> ktls_step \<Rightarrow> 's ktls_exchange \<Rightarrow> ktls_step" where
  "step_answer lib other x = (if 0 < bio_pending lib (x_out x) then KTLS_WRITING else other)"

text \<open>
  What is written down when the handshake has finished: where the application records
  begin in both directions, the side, the suite's name and the ALPN protocol.
\<close>

definition note_done :: "'s tls_lib \<Rightarrow> 's \<Rightarrow> 's ktls_exchange \<Rightarrow> 's ktls_exchange" where
  "note_done lib s x =
     (let server = ssl_is_server lib s;
          x1 = x\<lparr> x_tx_at_done := (if server then r_offset (x_tx x)
                     else r_offset (x_tx x) + of_int (bio_pending lib (x_out x))),
                  x_server := server,
                  x_rx_at_done := x_rx_fed x - of_int (bio_pending lib (x_in x)) \<rparr>;
          x2 = (case ssl_cipher_name lib s of
                  None \<Rightarrow> x1
                | Some name \<Rightarrow> x1\<lparr> x_cipher_name := snprintf_s 40 name \<rparr>);
          x3 = (case ssl_alpn_selected lib s of
                  None \<Rightarrow> x2
                | Some chosen \<Rightarrow>
                    if length chosen \<noteq> 0 \<and> length chosen \<le> 32
                    then x2\<lparr> x_alpn := memcpy_at (x_alpn x2) 0 chosen, x_alpn_len := length chosen \<rparr>
                    else x2)
      in x3\<lparr> x_done := True \<rparr>)"

definition ktls_exchange_step ::
    "'s tls_lib \<Rightarrow> kernel_abi \<Rightarrow> 's ktls_exchange \<Rightarrow> thread_err \<Rightarrow> (ktls_step, 's) outcome" where
  "ktls_exchange_step lib abi x t =
     (case x_ssl x of
        None \<Rightarrow> failing lib (Say ''step after the exchange was released'') x t
      | Some s \<Rightarrow>
          if x_done x then (Inr (step_answer lib KTLS_DONE x), x, t)
          else
            (let io = handshake lib s x t;
                 x1 = after_io io x;
                 t1 = t\<lparr> te_queue := io_queue io \<rparr>
             in if io_rc io \<noteq> 1 then
                  (case ssl_get_error lib (io_ssl io) (io_rc io) (te_queue t1) of
                     SSL_ERROR_OTHER \<Rightarrow>
                       (Inl (Fail ''SSL_do_handshake''), x1, ktls_fail lib ''SSL_do_handshake'' t1)
                   | _ \<Rightarrow> (Inr (step_answer lib KTLS_READING x1), x1, t1))
                else
                  (case ktls_derive_both lib abi (io_ssl io) x1 t1 of
                     (Inl f, r) \<Rightarrow> (Inl f, r)
                   | (Inr _, x2, t2) \<Rightarrow>
                       (let x3 = note_done lib (io_ssl io) x2
                        in (Inr (step_answer lib KTLS_DONE x3), x3, t2)))))"

definition ktls_exchange_alpn :: "'s ktls_exchange \<Rightarrow> bytes option" where
  "ktls_exchange_alpn x = (if x_alpn_len x = 0 then None else Some (take (x_alpn_len x) (x_alpn x)))"

text \<open>The plaintext copied to \<open>out\<close>; its length is the return value.\<close>

definition ktls_exchange_backlog ::
    "'s tls_lib \<Rightarrow> nat \<Rightarrow> 's ktls_exchange \<Rightarrow> thread_err \<Rightarrow> (bytes, 's) outcome" where
  "ktls_exchange_backlog lib cap x t =
     (if \<not> x_done x then (Inr [], x, t)
      else (case x_ssl x of
              None \<Rightarrow> failing lib (Say ''backlog after the exchange was released'') x t
            | Some s \<Rightarrow>
                (let io = ssl_read lib s (bio_bytes (x_in x)) (bio_bytes (x_out x)) (c_int cap)
                     (te_queue t)
                 in (Inr (if 0 < io_rc io then take (nat (io_rc io)) (io_data io) else []),
                     after_io io x, t\<lparr> te_queue := io_queue io \<rparr>))))"

definition ktls_exchange_cipher :: "'s tls_lib \<Rightarrow> 's ktls_exchange \<Rightarrow> string option" where
  "ktls_exchange_cipher lib x =
     (if x_cipher_name x \<noteq> [] then Some (x_cipher_name x)
      else (case x_ssl x of None \<Rightarrow> None | Some s \<Rightarrow> ssl_cipher_name lib s))"

text \<open>
  \<open>ktls_exchange_free\<close>: what is in the memory of the exchange when it is given back. The
  secrets and the two blobs are wiped.
\<close>

definition ktls_exchange_free :: "'s ktls_exchange option \<Rightarrow> 's ktls_exchange option" where
  "ktls_exchange_free xp =
     (case xp of
        None \<Rightarrow> None
      | Some x \<Rightarrow> Some (x\<lparr> x_secret := (\<lambda>_. replicate 64 0), x_info := (\<lambda>_. info_zero) \<rparr>))"

section \<open>What every exchange satisfies\<close>

definition exchange_wf :: "'s ktls_exchange \<Rightarrow> bool" where
  "exchange_wf x \<longleftrightarrow>
     (\<forall>w. length (x_secret x w) = 64 \<and> x_secret_len x w \<le> 64 \<and> length (x_key x w) = 32 \<and>
          length (x_iv x w) = 12 \<and> length (i_rec_seq (x_info x w)) = 8) \<and>
     length (x_alpn x) = 32 \<and> x_alpn_len x \<le> 32 \<and> length (x_cipher_name x) \<le> 39 \<and>
     (x_ssl x = None \<longleftrightarrow> x_in x = None) \<and> (x_ssl x = None \<longleftrightarrow> x_out x = None) \<and>
     (x_done x \<longrightarrow> x_cipher x \<noteq> NoCipher) \<and> records_wf (x_tx x) \<and> records_wf (x_rx x)"

text \<open>
  The contract of the operations that move no bytes across \<open>feed\<close> and \<open>take\<close>: they keep
  the invariant and leave both scanners and the count of fed bytes alone.
\<close>

locale quiet_operation =
  fixes oper :: "'s ktls_exchange \<Rightarrow> thread_err \<Rightarrow> ('r, 's) outcome"
  assumes oper_wf: "exchange_wf x \<Longrightarrow> oper x t = (r, x', t') \<Longrightarrow> exchange_wf x'"
    and oper_tx: "oper x t = (r, x', t') \<Longrightarrow> x_tx x' = x_tx x"
    and oper_rx: "oper x t = (r, x', t') \<Longrightarrow> x_rx x' = x_rx x"
    and oper_fed: "oper x t = (r, x', t') \<Longrightarrow> x_rx_fed x' = x_rx_fed x"
    and oper_done: "oper x t = (r, x', t') \<Longrightarrow> x_done x \<Longrightarrow>
      x_done x' \<and> x_tx_at_done x' = x_tx_at_done x \<and> x_rx_at_done x' = x_rx_at_done x \<and>
      x_server x' = x_server x \<and> x_cipher x' = x_cipher x"
begin

lemma oper_history:
  assumes "oper x t = (r, x', t')"
    and "x_tx x = ktls_scan records_zero sent \<and> x_rx x = ktls_scan records_zero got \<and>
         x_rx_fed x = of_nat (length got)"
  shows "x_tx x' = ktls_scan records_zero sent \<and> x_rx x' = ktls_scan records_zero got \<and>
         x_rx_fed x' = of_nat (length got)"
  using assms(2) by (simp add: oper_tx [OF assms(1)] oper_rx [OF assms(1)] oper_fed [OF assms(1)])

end

text \<open>The keylog callback touches the secrets and nothing else.\<close>

lemma ktls_keylog_sel [simp]:
  "x_ssl (ktls_keylog l x) = x_ssl x" "x_in (ktls_keylog l x) = x_in x"
  "x_out (ktls_keylog l x) = x_out x" "x_done (ktls_keylog l x) = x_done x"
  "x_tx (ktls_keylog l x) = x_tx x" "x_rx (ktls_keylog l x) = x_rx x"
  "x_tx_at_done (ktls_keylog l x) = x_tx_at_done x"
  "x_rx_at_done (ktls_keylog l x) = x_rx_at_done x"
  "x_rx_fed (ktls_keylog l x) = x_rx_fed x" "x_server (ktls_keylog l x) = x_server x"
  "x_cipher_name (ktls_keylog l x) = x_cipher_name x" "x_alpn (ktls_keylog l x) = x_alpn x"
  "x_alpn_len (ktls_keylog l x) = x_alpn_len x" "x_rekeyed (ktls_keylog l x) = x_rekeyed x"
  "x_cipher (ktls_keylog l x) = x_cipher x" "x_info (ktls_keylog l x) = x_info x"
  "x_key (ktls_keylog l x) = x_key x" "x_iv (ktls_keylog l x) = x_iv x"
  by (simp_all add: ktls_keylog_def split: option.split prod.split unhex_result.split)

lemma fold_keylog_sel [simp]:
  "x_ssl (fold ktls_keylog ls x) = x_ssl x" "x_in (fold ktls_keylog ls x) = x_in x"
  "x_out (fold ktls_keylog ls x) = x_out x" "x_done (fold ktls_keylog ls x) = x_done x"
  "x_tx (fold ktls_keylog ls x) = x_tx x" "x_rx (fold ktls_keylog ls x) = x_rx x"
  "x_tx_at_done (fold ktls_keylog ls x) = x_tx_at_done x"
  "x_rx_at_done (fold ktls_keylog ls x) = x_rx_at_done x"
  "x_rx_fed (fold ktls_keylog ls x) = x_rx_fed x" "x_server (fold ktls_keylog ls x) = x_server x"
  "x_cipher_name (fold ktls_keylog ls x) = x_cipher_name x"
  "x_alpn (fold ktls_keylog ls x) = x_alpn x"
  "x_alpn_len (fold ktls_keylog ls x) = x_alpn_len x"
  "x_rekeyed (fold ktls_keylog ls x) = x_rekeyed x"
  "x_cipher (fold ktls_keylog ls x) = x_cipher x" "x_info (fold ktls_keylog ls x) = x_info x"
  "x_key (fold ktls_keylog ls x) = x_key x" "x_iv (fold ktls_keylog ls x) = x_iv x"
  by (induction ls arbitrary: x) simp_all

lemma after_io_sel [simp]:
  "x_ssl (after_io io x) = Some (io_ssl io)" "x_in (after_io io x) = Some (io_in io)"
  "x_out (after_io io x) = Some (io_out io)" "x_done (after_io io x) = x_done x"
  "x_tx (after_io io x) = x_tx x" "x_rx (after_io io x) = x_rx x"
  "x_tx_at_done (after_io io x) = x_tx_at_done x"
  "x_rx_at_done (after_io io x) = x_rx_at_done x"
  "x_rx_fed (after_io io x) = x_rx_fed x" "x_server (after_io io x) = x_server x"
  "x_cipher_name (after_io io x) = x_cipher_name x" "x_alpn (after_io io x) = x_alpn x"
  "x_alpn_len (after_io io x) = x_alpn_len x" "x_rekeyed (after_io io x) = x_rekeyed x"
  "x_cipher (after_io io x) = x_cipher x" "x_info (after_io io x) = x_info x"
  "x_key (after_io io x) = x_key x" "x_iv (after_io io x) = x_iv x"
  by (simp_all add: after_io_def)

text \<open>The arrays of secrets keep their size, whatever the lines say.\<close>

definition secrets_wf :: "'s ktls_exchange \<Rightarrow> bool" where
  "secrets_wf x \<longleftrightarrow> (\<forall>w. length (x_secret x w) = 64 \<and> x_secret_len x w \<le> 64)"

lemma secrets_wf_keylog:
  assumes wf: "secrets_wf x"
  shows "secrets_wf (ktls_keylog l x)"
proof (cases "keylog_secret l")
  case None
  with wf show ?thesis by (simp add: ktls_keylog_def)
next
  case (Some p)
  obtain w hex where p: "p = (w, hex)" by (cases p)
  obtain res out where u: "unhex_loop hex (x_secret x w) 0 64 = (res, out)" by fastforce
  have "length out = 64"
    using unhex_loop_length [of hex "x_secret x w" 0 64] u wf by (simp add: secrets_wf_def)
  moreover have "n \<le> 64" if "res = UnhexLen n" for n
    using unhex_loop_bound [of hex "x_secret x w" 0 64 n out] u that by simp
  ultimately show ?thesis
    using Some p u wf
    by (cases res) (simp_all add: ktls_keylog_def ktls_unhex_def secrets_wf_def)
qed

lemma secrets_wf_fold_keylog: "secrets_wf x \<Longrightarrow> secrets_wf (fold ktls_keylog ls x)"
  by (induction ls arbitrary: x) (simp_all add: secrets_wf_keylog)

lemma exchange_wf_secrets: "exchange_wf x \<Longrightarrow> secrets_wf x"
  by (simp add: exchange_wf_def secrets_wf_def)

lemma exchange_wf_after_io:
  assumes "exchange_wf x" shows "exchange_wf (after_io io x)"
proof -
  have "secrets_wf (after_io io x)"
    unfolding after_io_def
    by (rule secrets_wf_fold_keylog) (use assms in \<open>simp add: exchange_wf_def secrets_wf_def\<close>)
  with assms show ?thesis by (simp add: exchange_wf_def secrets_wf_def)
qed

section \<open>The operations keep the invariant\<close>

lemma exchange_wf_open:
  "fst (ktls_exchange_open lib ssl_new a b c keys role t) = Inr x \<Longrightarrow> exchange_wf x"
  by (auto simp: ktls_exchange_open_def exchange_wf_def exchange_zero_def info_zero_def
      split: option.splits if_splits)

lemma ktls_expand_length: "ktls_expand lib s l n = Inr b \<Longrightarrow> length b = n"
  by (auto simp: ktls_expand_def split: kdf_result.splits)

text \<open>Everything \<open>ktls_fill\<close> can do.\<close>

lemma ktls_fill_cases:
  assumes "ktls_fill lib abi x w t = (r, x', t')"
  obtains (no_secret) "x_secret_len x w = 0" "x' = x" "\<exists>f. r = Inl f"
  | (no_key) f where "x_secret_len x w \<noteq> 0" "x' = x" "r = Inl f"
      "ktls_expand lib (slot_secret x w) ''key'' (key_length (x_cipher x)) = Inl f"
  | (no_iv) f k where "x_secret_len x w \<noteq> 0" "r = Inl f"
      "ktls_expand lib (slot_secret x w) ''key'' (key_length (x_cipher x)) = Inr k"
      "x' = x\<lparr> x_key := (x_key x)(w := memcpy_at (x_key x w) 0 k) \<rparr>"
  | (filled) k v where "x_secret_len x w \<noteq> 0" "r = Inr ()" "t' = t"
      "ktls_expand lib (slot_secret x w) ''key'' (key_length (x_cipher x)) = Inr k"
      "ktls_expand lib (slot_secret x w) ''iv'' 12 = Inr v"
      "x' = x\<lparr> x_key := (x_key x)(w := memcpy_at (x_key x w) 0 k),
               x_iv := (x_iv x)(w := memcpy_at (x_iv x w) 0 v),
               x_info := (x_info x)(w := fill_info abi (x_cipher x)
                  (memcpy_at (x_key x w) 0 k) (memcpy_at (x_iv x w) 0 v)) \<rparr>"
proof -
  let ?k = "ktls_expand lib (slot_secret x w) ''key'' (key_length (x_cipher x))"
  let ?v = "ktls_expand lib (slot_secret x w) ''iv'' 12"
  have same: "slot_secret (x\<lparr> x_key := z \<rparr>) w = slot_secret x w" for z
    by (simp add: slot_secret_def)
  show ?thesis
  proof (cases "x_secret_len x w = 0")
    case True
    with assms show ?thesis by (intro no_secret) (auto simp: ktls_fill_def failing_def)
  next
    case False
    show ?thesis
    proof (cases ?k)
      case (Inl f)
      with assms False show ?thesis
        by (intro no_key [of f]) (auto simp: ktls_fill_def failing_def)
    next
      case k: (Inr k)
      show ?thesis
      proof (cases ?v)
        case (Inl f)
        with assms False k show ?thesis
          by (intro no_iv [of f k]) (auto simp: ktls_fill_def failing_def same)
      next
        case (Inr v)
        with assms False k show ?thesis
          by (intro filled [of k v]) (auto simp: ktls_fill_def same)
      qed
    qed
  qed
qed

lemma fill_info_seq [simp]: "i_rec_seq (fill_info abi c k v) = replicate 8 0"
  by (simp add: fill_info_def info_zero_def)

lemma key_length_le [simp]: "key_length c \<le> 32"
  by (simp add: key_length_def)

lemma ktls_fill_sel:
  assumes "ktls_fill lib abi x w t = (r, x', t')"
  shows "x_ssl x' = x_ssl x" "x_in x' = x_in x" "x_out x' = x_out x" "x_done x' = x_done x"
    "x_tx x' = x_tx x" "x_rx x' = x_rx x" "x_tx_at_done x' = x_tx_at_done x"
    "x_rx_at_done x' = x_rx_at_done x" "x_rx_fed x' = x_rx_fed x" "x_server x' = x_server x"
    "x_cipher_name x' = x_cipher_name x" "x_alpn x' = x_alpn x" "x_alpn_len x' = x_alpn_len x"
    "x_rekeyed x' = x_rekeyed x" "x_cipher x' = x_cipher x" "x_secret x' = x_secret x"
    "x_secret_len x' = x_secret_len x"
  using assms by (cases rule: ktls_fill_cases; simp)+

lemma exchange_wf_fill:
  assumes "ktls_fill lib abi x w t = (r, x', t')" "exchange_wf x"
  shows "exchange_wf x'"
  using assms(1)
proof (cases rule: ktls_fill_cases)
  case (no_iv f k)
  with assms(2) ktls_expand_length [OF no_iv(3)] show ?thesis
    by (auto simp: exchange_wf_def length_memcpy_at)
next
  case (filled k v)
  with assms(2) ktls_expand_length [OF filled(4)] ktls_expand_length [OF filled(5)] show ?thesis
    by (auto simp: exchange_wf_def length_memcpy_at)
qed (use assms(2) in simp_all)

text \<open>Everything \<open>ktls_derive_both\<close> can do: the cipher is refused, or both slots are tried.\<close>

lemma ktls_derive_both_cases:
  assumes "ktls_derive_both lib abi s x t = (r, x', t')"
  obtains (refused) f where "r = Inl f" "x' = x\<lparr> x_cipher := NoCipher \<rparr>"
      "ktls_negotiated_cipher lib s = NoCipher"
  | (first_failed) f where "r = Inl f" "ktls_negotiated_cipher lib s \<noteq> NoCipher"
      "ktls_fill lib abi (x\<lparr> x_cipher := ktls_negotiated_cipher lib s \<rparr>)
         (slot_of KTLS_TX (ssl_is_server lib s)) t = (Inl f, x', t')"
  | (both) x2 t2 where "ktls_negotiated_cipher lib s \<noteq> NoCipher"
      "ktls_fill lib abi (x\<lparr> x_cipher := ktls_negotiated_cipher lib s \<rparr>)
         (slot_of KTLS_TX (ssl_is_server lib s)) t = (Inr (), x2, t2)"
      "ktls_fill lib abi x2 (slot_of KTLS_RX (ssl_is_server lib s)) t2 = (r, x', t')"
proof (cases "ktls_negotiated_cipher lib s = NoCipher")
  case True
  with assms show ?thesis
    by (intro refused) (auto simp: ktls_derive_both_def failing_def)
next
  case False
  let ?x1 = "x\<lparr> x_cipher := ktls_negotiated_cipher lib s \<rparr>"
  obtain r1 x2 t2 where
    fill: "ktls_fill lib abi ?x1 (slot_of KTLS_TX (ssl_is_server lib s)) t = (r1, x2, t2)"
    by (cases "ktls_fill lib abi ?x1 (slot_of KTLS_TX (ssl_is_server lib s)) t") auto
  show ?thesis
  proof (cases r1)
    case (Inl f)
    with assms False fill show ?thesis
      by (intro first_failed [of f]) (auto simp: ktls_derive_both_def)
  next
    case (Inr u)
    with assms False fill show ?thesis
      by (intro both [of x2 t2]) (auto simp: ktls_derive_both_def)
  qed
qed

lemma ktls_derive_both_sel:
  assumes "ktls_derive_both lib abi s x t = (r, x', t')"
  shows "x_ssl x' = x_ssl x" "x_in x' = x_in x" "x_out x' = x_out x" "x_done x' = x_done x"
    "x_tx x' = x_tx x" "x_rx x' = x_rx x" "x_tx_at_done x' = x_tx_at_done x"
    "x_rx_at_done x' = x_rx_at_done x" "x_rx_fed x' = x_rx_fed x" "x_server x' = x_server x"
    "x_cipher_name x' = x_cipher_name x" "x_alpn x' = x_alpn x" "x_alpn_len x' = x_alpn_len x"
    "x_rekeyed x' = x_rekeyed x" "x_secret x' = x_secret x" "x_secret_len x' = x_secret_len x"
    "x_cipher x' = ktls_negotiated_cipher lib s"
  using assms by (cases rule: ktls_derive_both_cases; simp add: ktls_fill_sel)+

lemma exchange_wf_derive_both:
  assumes "ktls_derive_both lib abi s x t = (r, x', t')" "exchange_wf x" "\<not> x_done x"
  shows "exchange_wf x'"
proof -
  have cipher: "exchange_wf (x\<lparr> x_cipher := c \<rparr>)" for c
    using assms(2,3) by (auto simp: exchange_wf_def)
  from assms(1) show ?thesis
  proof (cases rule: ktls_derive_both_cases)
    case (refused f)
    then show ?thesis by (simp add: cipher)
  next
    case (first_failed f)
    then show ?thesis using cipher by (blast intro: exchange_wf_fill)
  next
    case (both x2 t2)
    then show ?thesis using cipher by (blast intro: exchange_wf_fill)
  qed
qed

lemma note_done_sel [simp]:
  "x_ssl (note_done lib s x) = x_ssl x" "x_in (note_done lib s x) = x_in x"
  "x_out (note_done lib s x) = x_out x" "x_done (note_done lib s x) = True"
  "x_tx (note_done lib s x) = x_tx x" "x_rx (note_done lib s x) = x_rx x"
  "x_rx_fed (note_done lib s x) = x_rx_fed x"
  "x_server (note_done lib s x) = ssl_is_server lib s"
  "x_rekeyed (note_done lib s x) = x_rekeyed x" "x_cipher (note_done lib s x) = x_cipher x"
  "x_info (note_done lib s x) = x_info x" "x_key (note_done lib s x) = x_key x"
  "x_iv (note_done lib s x) = x_iv x" "x_secret (note_done lib s x) = x_secret x"
  "x_secret_len (note_done lib s x) = x_secret_len x"
  "x_tx_at_done (note_done lib s x) = (if ssl_is_server lib s then r_offset (x_tx x)
     else r_offset (x_tx x) + of_int (bio_pending lib (x_out x)))"
  "x_rx_at_done (note_done lib s x) = x_rx_fed x - of_int (bio_pending lib (x_in x))"
  by (simp_all add: note_done_def Let_def split: option.split)

lemma exchange_wf_note_done:
  "exchange_wf x \<Longrightarrow> x_cipher x \<noteq> NoCipher \<Longrightarrow> exchange_wf (note_done lib s x)"
  using length_snprintf_s [of 40]
  by (auto simp: exchange_wf_def note_done_def Let_def length_memcpy_at split: option.split)

text \<open>Everything \<open>ktls_exchange_step\<close> can do.\<close>

lemma ktls_exchange_step_cases:
  assumes "ktls_exchange_step lib abi x t = (r, x', t')"
  obtains (released) "x_ssl x = None" "x' = x"
      "r = Inl (Say ''step after the exchange was released'')"
  | (already) s where "x_ssl x = Some s" "x_done x" "x' = x" "t' = t"
      "r = Inr (step_answer lib KTLS_DONE x)"
  | (failed) s where "x_ssl x = Some s" "\<not> x_done x" "r = Inl (Fail ''SSL_do_handshake'')"
      "io_rc (handshake lib s x t) \<noteq> 1" "x' = after_io (handshake lib s x t) x"
  | (waiting) s where "x_ssl x = Some s" "\<not> x_done x" "io_rc (handshake lib s x t) \<noteq> 1"
      "x' = after_io (handshake lib s x t) x" "r = Inr (step_answer lib KTLS_READING x')"
  | (underived) s f where "x_ssl x = Some s" "\<not> x_done x" "io_rc (handshake lib s x t) = 1"
      "r = Inl f"
      "ktls_derive_both lib abi (io_ssl (handshake lib s x t)) (after_io (handshake lib s x t) x)
         (t\<lparr> te_queue := io_queue (handshake lib s x t) \<rparr>) = (Inl f, x', t')"
  | (finished) s x2 where "x_ssl x = Some s" "\<not> x_done x" "io_rc (handshake lib s x t) = 1"
      "ktls_derive_both lib abi (io_ssl (handshake lib s x t)) (after_io (handshake lib s x t) x)
         (t\<lparr> te_queue := io_queue (handshake lib s x t) \<rparr>) = (Inr (), x2, t')"
      "x' = note_done lib (io_ssl (handshake lib s x t)) x2"
      "r = Inr (step_answer lib KTLS_DONE x')"
proof (cases "x_ssl x")
  case None
  with assms show ?thesis by (intro released) (auto simp: ktls_exchange_step_def failing_def)
next
  case (Some s)
  let ?io = "handshake lib s x t"
  let ?t1 = "t\<lparr> te_queue := io_queue ?io \<rparr>"
  show ?thesis
  proof (cases "x_done x")
    case True
    with Some assms show ?thesis
      by (intro already [of s]) (auto simp: ktls_exchange_step_def)
  next
    case undone: False
    show ?thesis
    proof (cases "io_rc ?io = 1")
      case True
      obtain r2 x2 t2 where
        d: "ktls_derive_both lib abi (io_ssl ?io) (after_io ?io x) ?t1 = (r2, x2, t2)"
        by (cases "ktls_derive_both lib abi (io_ssl ?io) (after_io ?io x) ?t1") auto
      show ?thesis
      proof (cases r2)
        case (Inl f)
        with Some undone True d assms show ?thesis
          by (intro underived [of s f]) (auto simp: ktls_exchange_step_def Let_def)
      next
        case (Inr u)
        with Some undone True d assms show ?thesis
          by (intro finished [of s x2]) (auto simp: ktls_exchange_step_def Let_def)
      qed
    next
      case False
      show ?thesis
      proof (cases "ssl_get_error lib (io_ssl ?io) (io_rc ?io) (io_queue ?io) = SSL_ERROR_OTHER")
        case True
        with Some undone False assms show ?thesis
          by (intro failed [of s]) (auto simp: ktls_exchange_step_def Let_def)
      next
        case other: False
        with Some undone False assms show ?thesis
          by (intro waiting [of s])
            (auto simp: ktls_exchange_step_def Let_def split: ssl_error.splits)
      qed
    qed
  qed
qed

lemma ktls_exchange_step_sel:
  assumes "ktls_exchange_step lib abi x t = (r, x', t')"
  shows "x_tx x' = x_tx x" "x_rx x' = x_rx x" "x_rx_fed x' = x_rx_fed x"
    "x_rekeyed x' = x_rekeyed x" "x_ssl x' = None \<longleftrightarrow> x_ssl x = None"
    "x_done x \<Longrightarrow> x' = x"
  using assms
  by (cases rule: ktls_exchange_step_cases; auto simp: ktls_derive_both_sel)+

lemma exchange_wf_step:
  assumes "ktls_exchange_step lib abi x t = (r, x', t')" "exchange_wf x"
  shows "exchange_wf x'"
  using assms(1)
proof (cases rule: ktls_exchange_step_cases)
  case (underived s f)
  with assms(2) show ?thesis
    by (intro exchange_wf_derive_both [OF underived(5)]) (simp_all add: exchange_wf_after_io)
next
  case (finished s x2)
  have "exchange_wf x2"
    using assms(2) finished by (intro exchange_wf_derive_both [OF finished(4)])
      (simp_all add: exchange_wf_after_io)
  moreover have "x_cipher x2 \<noteq> NoCipher"
    using finished(4) by (cases rule: ktls_derive_both_cases) (auto simp: ktls_fill_sel)
  ultimately show ?thesis using finished by (simp add: exchange_wf_note_done)
qed (use assms(2) in \<open>simp_all add: exchange_wf_after_io\<close>)

interpretation step_op: quiet_operation "ktls_exchange_step lib abi" for lib abi
  by unfold_locales
    (auto simp: exchange_wf_step ktls_exchange_step_sel(1-3) dest: ktls_exchange_step_sel(6))

text \<open>\<open>backlog\<close> reads through the SSL and keeps the invariant too.\<close>

lemma ktls_exchange_backlog_cases:
  assumes "ktls_exchange_backlog lib cap x t = (r, x', t')"
  obtains (early) "\<not> x_done x" "x' = x" "t' = t" "r = Inr []"
  | (released) "x_done x" "x_ssl x = None" "x' = x"
      "r = Inl (Say ''backlog after the exchange was released'')"
  | (read) s io where "x_done x" "x_ssl x = Some s"
      "io = ssl_read lib s (bio_bytes (x_in x)) (bio_bytes (x_out x)) (c_int cap) (te_queue t)"
      "x' = after_io io x" "r = Inr (if 0 < io_rc io then take (nat (io_rc io)) (io_data io) else [])"
  using assms
  by (cases "x_done x"; cases "x_ssl x") (auto simp: ktls_exchange_backlog_def failing_def Let_def)

interpretation backlog_op: quiet_operation "ktls_exchange_backlog lib cap" for lib cap
proof
  fix x x' :: "'a ktls_exchange" and t t' r
  assume op: "ktls_exchange_backlog lib cap x t = (r, x', t')"
  show "exchange_wf x \<Longrightarrow> exchange_wf x'"
    using op by (cases rule: ktls_exchange_backlog_cases) (simp_all add: exchange_wf_after_io)
  show "x_tx x' = x_tx x" "x_rx x' = x_rx x" "x_rx_fed x' = x_rx_fed x"
    using op by (cases rule: ktls_exchange_backlog_cases; simp)+
  show "x_done x \<Longrightarrow> x_done x' \<and> x_tx_at_done x' = x_tx_at_done x \<and>
      x_rx_at_done x' = x_rx_at_done x \<and> x_server x' = x_server x \<and> x_cipher x' = x_cipher x"
    using op by (cases rule: ktls_exchange_backlog_cases) simp_all
qed

end
