(* ===== verification/Ktls_Handover.thy ===== *)
theory Ktls_Handover
  imports Ktls_Exchange
begin

text \<open>
  The handover of src/ktls.c: \<open>ktls_crypto_info\<close>, \<open>ktls_record_sequence\<close>,
  \<open>ktls_next_key\<close>, \<open>ktls_record_limit\<close> and \<open>ktls_offload\<close>.
\<close>

section \<open>The sequence number\<close>

text \<open>How many application records a direction has already spent.\<close>

definition spent_records :: "'s tls_lib \<Rightarrow> ktls_direction \<Rightarrow> 's ktls_exchange \<Rightarrow> u64" where
  "spent_records lib dir x =
     (case dir of
        KTLS_TX \<Rightarrow> ktls_records_between (x_tx x) (x_tx_at_done x) (r_offset (x_tx x))
      | KTLS_RX \<Rightarrow> (let consumed = x_rx_fed x - of_int (bio_pending lib (x_in x))
                   in ktls_records_between (x_rx x) (x_rx_at_done x) consumed))"

definition ktls_record_sequence :: "'s tls_lib \<Rightarrow> 's ktls_exchange \<Rightarrow> ktls_direction \<Rightarrow> u64" where
  "ktls_record_sequence lib x dir =
     (if \<not> x_done x then 0
      else if x_rekeyed x (slot_of dir (x_server x)) then 0
      else spent_records lib dir x)"

text \<open>\<open>for (i = 0; i < 8; i++) rec_seq[7 - i] = (unsigned char) (seq >> (8 * i));\<close>\<close>

definition write_seq :: "u64 \<Rightarrow> bytes \<Rightarrow> bytes" where
  "write_seq seq buf = fold (\<lambda>i b. b[7 - i := ucast (drop_bit (8 * i) seq)]) [0..<8] buf"

text \<open>\<open>sizeof (ci->aes)\<close> or \<open>sizeof (ci->chacha)\<close>: 40 or 56 bytes.\<close>

definition info_size :: "ktls_cipher \<Rightarrow> nat" where
  "info_size c = (if c = KTLS_AES_GCM_128 then 40 else 56)"

definition ktls_crypto_info ::
    "'s tls_lib \<Rightarrow> 's ktls_exchange \<Rightarrow> ktls_direction \<Rightarrow> thread_err \<Rightarrow> (ktls_info \<times> nat, 's) outcome" where
  "ktls_crypto_info lib x dir t =
     (if \<not> x_done x then failing lib (Say ''the exchange has not finished'') x t
      else if 0 < bio_pending lib (x_out x) then
        failing lib (Say ''bytes are still owed to the peer - drain ktls_exchange_take first'') x t
      else if r_overflowed (x_tx x) \<or> r_overflowed (x_rx x) then
        failing lib (Say ''too many records before the handover to count the sequence'') x t
      else
        (let which = slot_of dir (x_server x);
             seq = (if \<not> x_rekeyed x which then spent_records lib dir x else 0);
             ci = (x_info x which)\<lparr> i_rec_seq := write_seq seq (i_rec_seq (x_info x which)) \<rparr>
         in (Inr (ci, info_size (x_cipher x)), x\<lparr> x_info := (x_info x)(which := ci) \<rparr>, t)))"

section \<open>Rekeying\<close>

text \<open>RFC 8446 7.2: the next traffic secret, and the keys that follow from it.\<close>

definition ktls_next_key ::
    "'s tls_lib \<Rightarrow> kernel_abi \<Rightarrow> 's ktls_exchange \<Rightarrow> ktls_direction \<Rightarrow> thread_err \<Rightarrow> (unit, 's) outcome" where
  "ktls_next_key lib abi x dir t =
     (if \<not> x_done x then failing lib (Say ''the exchange has not finished'') x t
      else
        (let which = slot_of dir (x_server x);
             n = x_secret_len x which
         in case ktls_expand lib (slot_secret x which) ''traffic upd'' n of
              Inl f \<Rightarrow> failing lib f x t
            | Inr nxt \<Rightarrow>
                ktls_fill lib abi
                  (x\<lparr> x_secret := (x_secret x)(which := memcpy_at (x_secret x which) 0 nxt),
                      x_rekeyed := (x_rekeyed x)(which := True) \<rparr>) which t))"

definition ktls_record_limit :: "'s ktls_exchange \<Rightarrow> u64" where
  "ktls_record_limit x = (if x_cipher x = KTLS_AES_GCM_128 then push_bit 23 1 else 0)"

section \<open>The socket\<close>

text \<open>
  The system calls of the handover, in the order they are made: attaching the ULP, and
  one \<open>setsockopt\<close> per direction with its level, name, payload and length. The kernel
  answers 0 or an errno value.
\<close>

datatype syscall =
    AttachUlp int
  | SetTls int int int ktls_info nat

type_synonym kernel = "syscall \<Rightarrow> int"

text \<open>The outcome, the thread's error state and the calls the kernel accepted.\<close>

definition ktls_attach_ulp ::
    "'z err_lib_scheme \<Rightarrow> kernel \<Rightarrow> int \<Rightarrow> thread_err \<Rightarrow> (failure + unit) \<times> thread_err \<times> syscall list" where
  "ktls_attach_ulp lib kern fd t =
     (let e = kern (AttachUlp fd)
      in if e \<noteq> 0 then (Inl (Fail ''setsockopt(TCP_ULP, \"tls\")''),
             syscall_failed lib e ''setsockopt(TCP_ULP, \"tls\")'' t, [])
         else (Inr (), t, [AttachUlp fd]))"

text \<open>The names of Linux: the level, a direction's option and the two control messages.\<close>

definition ktls_sol_tls :: "kernel_abi \<Rightarrow> int" where
  [simp]: "ktls_sol_tls abi = SOL_TLS abi"

definition ktls_record_type_cmsg :: "kernel_abi \<Rightarrow> int" where
  [simp]: "ktls_record_type_cmsg abi = TLS_GET_RECORD_TYPE abi"

definition ktls_record_type_set_cmsg :: "kernel_abi \<Rightarrow> int" where
  [simp]: "ktls_record_type_set_cmsg abi = TLS_SET_RECORD_TYPE abi"

definition ktls_optname :: "kernel_abi \<Rightarrow> ktls_direction \<Rightarrow> int" where
  "ktls_optname abi dir = (case dir of KTLS_TX \<Rightarrow> TLS_TX abi | KTLS_RX \<Rightarrow> TLS_RX abi)"

definition not_initialized_msg :: string where
  "not_initialized_msg = ''kTLS is not initialized (tls module not loaded) - load it deliberately: modprobe tls, or ktls_load_module()''"

definition half_socket_msg :: string where
  "half_socket_msg = ''this kernel offloads sending but not receiving, and half a socket is not an offer this library makes''"

definition ktls_offload ::
    "'s tls_lib \<Rightarrow> kernel_abi \<Rightarrow> bool \<Rightarrow> kernel \<Rightarrow> 's ktls_exchange \<Rightarrow> int \<Rightarrow> thread_err \<Rightarrow>
      (failure + unit) \<times> 's ktls_exchange \<times> thread_err \<times> syscall list" where
  "ktls_offload lib abi initialized kern x fd t =
     (case ktls_crypto_info lib x KTLS_TX t of
        (tx, x1, t1) \<Rightarrow>
      (case ktls_crypto_info lib x1 KTLS_RX t1 of
        (rx, x2, t2) \<Rightarrow>
      (case (tx, rx) of
         (Inl f, Inr _) \<Rightarrow> (Inl f, x2, t2, [])
       | (_, Inl f) \<Rightarrow> (Inl f, x2, t2, [])
       | (Inr (txi, tx_len), Inr (rxi, rx_len)) \<Rightarrow>
           if \<not> initialized then
             (Inl (Say not_initialized_msg), x2, ktls_say not_initialized_msg t2, [])
           else if ktls_optname abi KTLS_RX < 0 then
             (Inl (Say half_socket_msg), x2, ktls_say half_socket_msg t2, [])
           else
             (case ktls_attach_ulp lib kern fd t2 of
                (Inl f, t3, calls) \<Rightarrow> (Inl f, x2, t3, calls)
              | (Inr _, t3, calls) \<Rightarrow>
                  (let set_tx = SetTls fd (ktls_sol_tls abi) (ktls_optname abi KTLS_TX) txi tx_len;
                       set_rx = SetTls fd (ktls_sol_tls abi) (ktls_optname abi KTLS_RX) rxi rx_len
                   in if kern set_tx \<noteq> 0 then
                        (Inl (Fail ''setsockopt(TLS_TX)''), x2,
                         syscall_failed lib (kern set_tx) ''setsockopt(TLS_TX)'' t3, calls)
                      else if kern set_rx \<noteq> 0 then
                        (Inl (Fail ''setsockopt(TLS_RX)''), x2,
                         syscall_failed lib (kern set_rx) ''setsockopt(TLS_RX)'' t3, calls @ [set_tx])
                      else (Inr (), x2, t3, calls @ [set_tx, set_rx]))))))"

section \<open>The sequence as bytes\<close>

lemma length_write_seq [simp]: "length (write_seq seq buf) = length buf"
proof -
  have "length (fold (\<lambda>i b. b[7 - i := ucast (drop_bit (8 * i) seq)]) is buf) = length buf" for "is"
    by (induction "is" arbitrary: buf) simp_all
  then show ?thesis by (simp add: write_seq_def)
qed

text \<open>Big-endian: what the kernel reads out of the eight bytes.\<close>

definition be_nat :: "bytes \<Rightarrow> nat" where
  "be_nat bs = foldl (\<lambda>v b. 256 * v + unat b) 0 bs"

lemma write_seq_bytes:
  assumes "length buf = 8"
  shows "write_seq seq buf = map (\<lambda>i. ucast (drop_bit (8 * (7 - i)) seq)) [0..<8]"
proof -
  obtain a b c d e f g h where buf: "buf = [a, b, c, d, e, f, g, h]"
    using assms by (auto simp: length_Suc_conv eval_nat_numeral)
  have upt: "[0..<8] = [0, 1, 2, 3, 4, 5, 6, 7 :: nat]" by (simp add: upt_rec)
  show ?thesis by (simp add: write_seq_def buf upt)
qed

lemma unat_byte_of: "unat (ucast (drop_bit k (w :: u64)) :: u8) = unat w div 2 ^ k mod 256"
proof -
  have "unat (drop_bit k w) = unat w div 2 ^ k"
    by (simp only: unat_drop_bit_eq) (simp only: drop_bit_eq_div)
  moreover have "unat (ucast (drop_bit k w) :: u8) = unat (drop_bit k w) mod 256"
    by (simp only: unsigned_ucast_eq take_bit_eq_mod) simp
  ultimately show ?thesis by simp
qed

lemma be_nat_write_seq:
  assumes "length buf = 8"
  shows "be_nat (write_seq seq buf) = unat seq"
proof -
  define n where "n = unat seq"
  have lt: "n < 2 ^ 64" unfolding n_def using unsigned_less [where 'b = 64] by simp
  have upt: "[0..<8] = [0, 1, 2, 3, 4, 5, 6, 7 :: nat]" by (simp add: upt_rec)
  have step: "256 * (n div 2 ^ (k + 8)) + n div 2 ^ k mod 256 = n div 2 ^ k" for k
    by (simp add: power_add div_mult2_eq)
  have top: "n div 2 ^ 56 mod 256 = n div 2 ^ 56" using lt by simp
  have "be_nat (write_seq seq buf) =
      256 * (256 * (256 * (256 * (256 * (256 * (256 * (n div 2 ^ 56 mod 256)
        + n div 2 ^ 48 mod 256) + n div 2 ^ 40 mod 256) + n div 2 ^ 32 mod 256)
        + n div 2 ^ 24 mod 256) + n div 2 ^ 16 mod 256) + n div 2 ^ 8 mod 256) + n mod 256"
    using unat_byte_of [of 0 seq]
    by (simp add: write_seq_bytes [OF assms] be_nat_def upt unat_byte_of n_def)
  also have "\<dots> = n"
    unfolding top
    using step [of 48] step [of 40] step [of 32] step [of 24] step [of 16] step [of 8] step [of 0]
    by simp
  finally show ?thesis by (simp add: n_def)
qed

section \<open>The operations keep the invariant\<close>

lemma ktls_crypto_info_cases:
  assumes "ktls_crypto_info lib x dir t = (r, x', t')"
  obtains (undone) "\<not> x_done x" "x' = x" "r = Inl (Say ''the exchange has not finished'')"
  | (owed) "x_done x" "0 < bio_pending lib (x_out x)" "x' = x"
      "r = Inl (Say ''bytes are still owed to the peer - drain ktls_exchange_take first'')"
  | (overflowed) "x_done x" "bio_pending lib (x_out x) \<le> 0"
      "r_overflowed (x_tx x) \<or> r_overflowed (x_rx x)" "x' = x"
      "r = Inl (Say ''too many records before the handover to count the sequence'')"
  | (answered) ci where "x_done x" "bio_pending lib (x_out x) \<le> 0"
      "\<not> r_overflowed (x_tx x)" "\<not> r_overflowed (x_rx x)" "t' = t"
      "ci = (x_info x (slot_of dir (x_server x)))\<lparr> i_rec_seq :=
         write_seq (ktls_record_sequence lib x dir) (i_rec_seq (x_info x (slot_of dir (x_server x)))) \<rparr>"
      "x' = x\<lparr> x_info := (x_info x)(slot_of dir (x_server x) := ci) \<rparr>"
      "r = Inr (ci, info_size (x_cipher x))"
proof -
  consider "\<not> x_done x" | "x_done x" "0 < bio_pending lib (x_out x)"
    | "x_done x" "bio_pending lib (x_out x) \<le> 0" "r_overflowed (x_tx x) \<or> r_overflowed (x_rx x)"
    | "x_done x" "bio_pending lib (x_out x) \<le> 0" "\<not> r_overflowed (x_tx x)" "\<not> r_overflowed (x_rx x)"
    by linarith
  then show ?thesis
  proof cases
    case 1
    with assms show ?thesis by (intro undone) (auto simp: ktls_crypto_info_def failing_def)
  next
    case 2
    with assms show ?thesis by (intro owed) (auto simp: ktls_crypto_info_def failing_def)
  next
    case 3
    with assms show ?thesis by (intro overflowed) (auto simp: ktls_crypto_info_def failing_def)
  next
    case 4
    with assms show ?thesis
      by (intro answered) (auto simp: ktls_crypto_info_def ktls_record_sequence_def Let_def)
  qed
qed

interpretation crypto_info_op: quiet_operation "\<lambda>x. ktls_crypto_info lib x dir" for lib dir
proof
  fix x x' :: "'a ktls_exchange" and t t' r
  assume op: "ktls_crypto_info lib x dir t = (r, x', t')"
  show "exchange_wf x \<Longrightarrow> exchange_wf x'"
    using op by (cases rule: ktls_crypto_info_cases) (auto simp: exchange_wf_def)
  show "x_tx x' = x_tx x" "x_rx x' = x_rx x" "x_rx_fed x' = x_rx_fed x"
    using op by (cases rule: ktls_crypto_info_cases; simp)+
  show "x_done x \<Longrightarrow> x_done x' \<and> x_tx_at_done x' = x_tx_at_done x \<and>
      x_rx_at_done x' = x_rx_at_done x \<and> x_server x' = x_server x \<and> x_cipher x' = x_cipher x"
    using op by (cases rule: ktls_crypto_info_cases) simp_all
qed

lemma ktls_next_key_cases:
  assumes "ktls_next_key lib abi x dir t = (r, x', t')"
  obtains (undone) "\<not> x_done x" "x' = x" "r = Inl (Say ''the exchange has not finished'')"
  | (unexpanded) f where "x_done x" "x' = x" "r = Inl f"
  | (turned) nxt x1 where "x_done x"
      "ktls_expand lib (slot_secret x (slot_of dir (x_server x))) ''traffic upd''
         (x_secret_len x (slot_of dir (x_server x))) = Inr nxt"
      "x1 = x\<lparr> x_secret := (x_secret x)(slot_of dir (x_server x) :=
                 memcpy_at (x_secret x (slot_of dir (x_server x))) 0 nxt),
               x_rekeyed := (x_rekeyed x)(slot_of dir (x_server x) := True) \<rparr>"
      "ktls_fill lib abi x1 (slot_of dir (x_server x)) t = (r, x', t')"
proof (cases "x_done x")
  case False
  with assms show ?thesis by (intro undone) (auto simp: ktls_next_key_def failing_def)
next
  case True
  let ?w = "slot_of dir (x_server x)"
  show ?thesis
  proof (cases "ktls_expand lib (slot_secret x ?w) ''traffic upd'' (x_secret_len x ?w)")
    case (Inl f)
    with True assms show ?thesis
      by (intro unexpanded [of f]) (auto simp: ktls_next_key_def failing_def Let_def)
  next
    case (Inr nxt)
    with True assms show ?thesis
      by (intro turned [of nxt]) (auto simp: ktls_next_key_def Let_def)
  qed
qed

interpretation next_key_op: quiet_operation "\<lambda>x. ktls_next_key lib abi x dir" for lib abi dir
proof
  fix x x' :: "'a ktls_exchange" and t t' r
  assume op: "ktls_next_key lib abi x dir t = (r, x', t')"
  show "exchange_wf x'" if wf: "exchange_wf x"
    using op
  proof (cases rule: ktls_next_key_cases)
    case (turned nxt x1)
    have "exchange_wf x1"
      using wf turned(3) ktls_expand_length [OF turned(2)]
      by (auto simp: exchange_wf_def length_memcpy_at)
    with turned(4) show ?thesis by (rule exchange_wf_fill)
  qed (use wf in simp_all)
  show "x_tx x' = x_tx x" "x_rx x' = x_rx x" "x_rx_fed x' = x_rx_fed x"
    using op by (cases rule: ktls_next_key_cases; simp add: ktls_fill_sel)+
  show "x_done x \<Longrightarrow> x_done x' \<and> x_tx_at_done x' = x_tx_at_done x \<and>
      x_rx_at_done x' = x_rx_at_done x \<and> x_server x' = x_server x \<and> x_cipher x' = x_cipher x"
    using op by (cases rule: ktls_next_key_cases) (simp_all add: ktls_fill_sel)
qed

end
