(* ===== verification/Ktls_Session.thy ===== *)
theory Ktls_Session
  imports Ktls_Handover
begin

text \<open>
  A session: any sequence of the operations of include/ktls.h on one exchange, together
  with the bytes taken from it and the bytes fed to it so far. The relation \<open>session\<close> has
  one rule per operation and outcome; its invariants say what the scanners hold, and from
  them come the facts about the record sequence the kernel is told to continue from, and
  the agreement of the two ends of a connection.
\<close>

section \<open>What feed, take and release do\<close>

lemma ktls_exchange_feed_cases:
  assumes "ktls_exchange_feed lib bs x t = (r, x', t')"
  obtains (released) "x_ssl x = None" "x' = x"
      "r = Inl (Say ''feed after the exchange was released'')"
  | (idle) "x_ssl x \<noteq> None" "bs = []" "x' = x" "r = Inr ()"
  | (refused) "x_ssl x \<noteq> None" "bs \<noteq> []" "r = Inl (Fail ''BIO_write'')"
      "bio_write_ret lib (bio_bytes (x_in x)) (c_int (length bs)) \<noteq> c_int (length bs)"
      "x' = x\<lparr> x_in := Some (bio_bytes (x_in x) @
         take (nat (bio_write_ret lib (bio_bytes (x_in x)) (c_int (length bs)))) bs) \<rparr>"
  | (fed) "x_ssl x \<noteq> None" "bs \<noteq> []" "r = Inr ()" "t' = t"
      "bio_write_ret lib (bio_bytes (x_in x)) (c_int (length bs)) = c_int (length bs)"
      "x' = x\<lparr> x_in := Some (bio_bytes (x_in x) @ take (nat (c_int (length bs))) bs),
         x_rx := ktls_scan (x_rx x) bs, x_rx_fed := x_rx_fed x + of_nat (length bs) \<rparr>"
proof -
  let ?n = "bio_write_ret lib (bio_bytes (x_in x)) (c_int (length bs))"
  consider "x_ssl x = None" | "x_ssl x \<noteq> None" "bs = []"
    | "x_ssl x \<noteq> None" "bs \<noteq> []" "?n \<noteq> c_int (length bs)"
    | "x_ssl x \<noteq> None" "bs \<noteq> []" "?n = c_int (length bs)" by blast
  then show ?thesis
  proof cases
    case 1
    with assms show ?thesis by (intro released) (auto simp: ktls_exchange_feed_def failing_def)
  next
    case 2
    with assms show ?thesis by (intro idle) (auto simp: ktls_exchange_feed_def)
  next
    case 3
    with assms show ?thesis
      by (intro refused) (auto simp: ktls_exchange_feed_def failing_def Let_def)
  next
    case 4
    with assms show ?thesis by (intro fed) (auto simp: ktls_exchange_feed_def Let_def)
  qed
qed

lemma ktls_exchange_take_cases:
  assumes "ktls_exchange_take lib cap x t = (r, x', t')"
  obtains (released) "x_ssl x = None" "x' = x"
      "r = Inl (Say ''take after the exchange was released'')"
  | (idle) "x_ssl x \<noteq> None" "bio_read_ret lib (bio_bytes (x_out x)) (c_int cap) \<le> 0"
      "x' = x" "t' = t" "r = Inr []"
  | (taken) n where "x_ssl x \<noteq> None" "0 < n" "t' = t"
      "n = nat (bio_read_ret lib (bio_bytes (x_out x)) (c_int cap))"
      "r = Inr (take n (bio_bytes (x_out x)))"
      "x' = x\<lparr> x_out := Some (drop n (bio_bytes (x_out x))),
         x_tx := ktls_scan (x_tx x) (take n (bio_bytes (x_out x))) \<rparr>"
proof -
  let ?n = "bio_read_ret lib (bio_bytes (x_out x)) (c_int cap)"
  consider "x_ssl x = None" | "x_ssl x \<noteq> None" "?n \<le> 0" | "x_ssl x \<noteq> None" "0 < ?n" by fastforce
  then show ?thesis
  proof cases
    case 1
    with assms show ?thesis by (intro released) (auto simp: ktls_exchange_take_def failing_def)
  next
    case 2
    with assms show ?thesis by (intro idle) (auto simp: ktls_exchange_take_def Let_def)
  next
    case 3
    with assms show ?thesis
      by (intro taken [of "nat ?n"]) (auto simp: ktls_exchange_take_def Let_def)
  qed
qed

lemma ktls_exchange_release_Some:
  "ktls_exchange_release (Some x) = Some x' \<Longrightarrow>
     x' = (if x_ssl x = None then x else x\<lparr> x_ssl := None, x_in := None, x_out := None \<rparr>)"
  by (auto simp: ktls_exchange_release_def split: option.splits)

section \<open>Sessions\<close>

inductive session :: "'s tls_lib \<Rightarrow> kernel_abi \<Rightarrow> 's ktls_exchange \<Rightarrow> bytes \<Rightarrow> bytes \<Rightarrow> bool"
  for lib :: "'s tls_lib" and abi :: kernel_abi where
  opened: "fst (ktls_exchange_open lib (ssl_new :: nat \<Rightarrow> 's option) a b c keys role t) = Inr x \<Longrightarrow>
     session lib abi x [] []"
| fed: "session lib abi x T F \<Longrightarrow> ktls_exchange_feed lib bs x t = (Inr (), x', t') \<Longrightarrow>
     session lib abi x' T (F @ bs)"
| feed_failed: "session lib abi x T F \<Longrightarrow> ktls_exchange_feed lib bs x t = (Inl f, x', t') \<Longrightarrow>
     session lib abi x' T F"
| taken: "session lib abi x T F \<Longrightarrow> ktls_exchange_take lib cap x t = (Inr out, x', t') \<Longrightarrow>
     session lib abi x' (T @ out) F"
| take_failed: "session lib abi x T F \<Longrightarrow> ktls_exchange_take lib cap x t = (Inl f, x', t') \<Longrightarrow>
     session lib abi x' T F"
| stepped: "session lib abi x T F \<Longrightarrow> ktls_exchange_step lib abi x t = (r, x', t') \<Longrightarrow>
     session lib abi x' T F"
| backlogged: "session lib abi x T F \<Longrightarrow> ktls_exchange_backlog lib cap x t = (p, x', t') \<Longrightarrow>
     session lib abi x' T F"
| informed: "session lib abi x T F \<Longrightarrow> ktls_crypto_info lib x dir t = (i, x', t') \<Longrightarrow>
     session lib abi x' T F"
| rekeyed: "session lib abi x T F \<Longrightarrow> ktls_next_key lib abi x dir t = (u, x', t') \<Longrightarrow>
     session lib abi x' T F"
| released: "session lib abi x T F \<Longrightarrow> ktls_exchange_release (Some x) = Some x' \<Longrightarrow>
     session lib abi x' T F"

text \<open>What the exchange knows of the bytes that crossed it.\<close>

definition knows :: "'s ktls_exchange \<Rightarrow> bytes \<Rightarrow> bytes \<Rightarrow> bool" where
  "knows x T F \<longleftrightarrow> x_tx x = ktls_scan records_zero T \<and> x_rx x = ktls_scan records_zero F \<and>
     x_rx_fed x = of_nat (length F)"

lemma exchange_wf_feed:
  assumes "ktls_exchange_feed lib bs x t = (r, x', t')" "exchange_wf x"
  shows "exchange_wf x'"
  using assms(1)
  by (cases rule: ktls_exchange_feed_cases)
    (use assms(2) in \<open>auto simp: exchange_wf_def records_wf_scan\<close>)

lemma exchange_wf_take:
  assumes "ktls_exchange_take lib cap x t = (r, x', t')" "exchange_wf x"
  shows "exchange_wf x'"
  using assms(1)
  by (cases rule: ktls_exchange_take_cases)
    (use assms(2) in \<open>auto simp: exchange_wf_def records_wf_scan\<close>)

lemma knows_feed:
  assumes "ktls_exchange_feed lib bs x t = (Inr (), x', t')" "knows x T F"
  shows "knows x' T (F @ bs)"
  using assms(1)
  by (cases rule: ktls_exchange_feed_cases)
    (use assms(2) in \<open>auto simp: knows_def scan.consume_append\<close>)

lemma knows_take:
  assumes "ktls_exchange_take lib cap x t = (Inr out, x', t')" "knows x T F"
  shows "knows x' (T @ out) F"
  using assms(1)
  by (cases rule: ktls_exchange_take_cases)
    (use assms(2) in \<open>auto simp: knows_def scan.consume_append\<close>)

lemma session_invariant:
  "session lib abi x T F \<Longrightarrow> exchange_wf x \<and> knows x T F"
proof (induction rule: session.induct)
  case (opened ssl_new a b c keys role t x)
  moreover from opened have "knows x [] []"
    by (auto simp: ktls_exchange_open_def exchange_zero_def knows_def scan.consume_Nil
        split: option.splits if_splits)
  ultimately show ?case by (blast intro: exchange_wf_open)
next
  case (fed x T F bs t x' t')
  then show ?case by (blast intro: exchange_wf_feed knows_feed)
next
  case (feed_failed x T F bs t f x' t')
  moreover from feed_failed(2) have "x_tx x' = x_tx x \<and> x_rx x' = x_rx x \<and> x_rx_fed x' = x_rx_fed x"
    by (cases rule: ktls_exchange_feed_cases) simp_all
  ultimately show ?case by (auto simp: knows_def intro: exchange_wf_feed)
next
  case (taken x T F cap t out x' t')
  then show ?case by (blast intro: exchange_wf_take knows_take)
next
  case (take_failed x T F cap t f x' t')
  from take_failed(2) have "x' = x" by (cases rule: ktls_exchange_take_cases) simp_all
  with take_failed show ?case by simp
next
  case (stepped x T F t r x' t')
  then show ?case
    using step_op.oper_wf step_op.oper_history unfolding knows_def by blast
next
  case (backlogged x T F cap t p x' t')
  then show ?case
    using backlog_op.oper_wf backlog_op.oper_history unfolding knows_def by blast
next
  case (informed x T F dir t i x' t')
  then show ?case
    using crypto_info_op.oper_wf [OF _ informed(2)] crypto_info_op.oper_history [OF informed(2)]
    unfolding knows_def by blast
next
  case (rekeyed x T F dir t u x' t')
  then show ?case
    using next_key_op.oper_wf [OF _ rekeyed(2)] next_key_op.oper_history [OF rekeyed(2)]
    unfolding knows_def by blast
next
  case (released x T F x')
  then show ?case
    using ktls_exchange_release_Some [OF released(2)] by (auto simp: exchange_wf_def knows_def)
qed

section \<open>The blobs carry the keys of the current secrets\<close>

text \<open>What the kernel should be given for a traffic secret, before the sequence is written.\<close>

definition expected_info :: "'s tls_lib \<Rightarrow> kernel_abi \<Rightarrow> ktls_cipher \<Rightarrow> bytes \<Rightarrow> failure + ktls_info" where
  "expected_info lib abi c secret =
     (case ktls_expand lib secret ''key'' (key_length c) of
        Inl f \<Rightarrow> Inl f
      | Inr k \<Rightarrow> (case ktls_expand lib secret ''iv'' 12 of
          Inl f \<Rightarrow> Inl f
        | Inr v \<Rightarrow> Inr (fill_info abi c k v)))"

definition keys_current :: "'s tls_lib \<Rightarrow> kernel_abi \<Rightarrow> 's ktls_exchange \<Rightarrow> slot \<Rightarrow> bool" where
  "keys_current lib abi x w \<longleftrightarrow>
     expected_info lib abi (x_cipher x) (slot_secret x w) =
       Inr ((x_info x w)\<lparr> i_rec_seq := replicate 8 0 \<rparr>)"

lemma fill_info_memcpy:
  assumes "length k = key_length c" "length v = 12" "length key = 32" "length iv = 12"
  shows "fill_info abi c (memcpy_at key 0 k) (memcpy_at iv 0 v) = fill_info abi c k v"
  using assms by (auto simp: fill_info_def memcpy_at_def key_length_def split: if_splits)

lemma fill_info_reset [simp]:
  "(fill_info abi c k v)\<lparr> i_rec_seq := replicate 8 0 \<rparr> = fill_info abi c k v"
  by (simp add: fill_info_def info_zero_def)

lemma keys_current_cong:
  assumes "x_cipher x' = x_cipher x" "x_secret x' w = x_secret x w"
    "x_secret_len x' w = x_secret_len x w"
    "(x_info x' w)\<lparr> i_rec_seq := replicate 8 0 \<rparr> = (x_info x w)\<lparr> i_rec_seq := replicate 8 0 \<rparr>"
  shows "keys_current lib abi x' w \<longleftrightarrow> keys_current lib abi x w"
  using assms by (simp add: keys_current_def slot_secret_def)

lemma ktls_fill_keys:
  assumes "ktls_fill lib abi x w t = (Inr u, x', t')" "exchange_wf x"
  shows "keys_current lib abi x' w"
    "w' \<noteq> w \<Longrightarrow> keys_current lib abi x' w' \<longleftrightarrow> keys_current lib abi x w'"
proof -
  have "keys_current lib abi x' w \<and>
    (w' \<noteq> w \<longrightarrow> keys_current lib abi x' w' = keys_current lib abi x w')"
    using assms(1)
  proof (cases rule: ktls_fill_cases)
    case (filled k v)
    let ?i = "fill_info abi (x_cipher x) (memcpy_at (x_key x w) 0 k) (memcpy_at (x_iv x w) 0 v)"
    have "?i = fill_info abi (x_cipher x) k v"
      using ktls_expand_length [OF filled(4)] ktls_expand_length [OF filled(5)] assms(2)
      by (intro fill_info_memcpy) (simp_all add: exchange_wf_def)
    then show ?thesis
      using filled by (auto simp: keys_current_def expected_info_def slot_secret_def)
  qed simp_all
  then show "keys_current lib abi x' w"
    "w' \<noteq> w \<Longrightarrow> keys_current lib abi x' w' \<longleftrightarrow> keys_current lib abi x w'" by simp_all
qed

lemma slot_of_both: "w = slot_of KTLS_TX b \<or> w = slot_of KTLS_RX b"
  by (cases w; cases b) simp_all

lemma slot_of_distinct [simp]: "slot_of KTLS_TX b \<noteq> slot_of KTLS_RX b"
  by (cases b) simp_all

lemma slot_of_peer: "slot_of KTLS_TX (\<not> b) = slot_of KTLS_RX b" "slot_of KTLS_RX (\<not> b) = slot_of KTLS_TX b"
  by (cases b; simp)+

lemma ktls_derive_both_keys:
  assumes "ktls_derive_both lib abi s x t = (Inr u, x', t')" "exchange_wf x" "\<not> x_done x"
  shows "keys_current lib abi x' w"
  using assms(1)
proof (cases rule: ktls_derive_both_cases)
  case (both x2 t2)
  have wf: "exchange_wf (x\<lparr> x_cipher := ktls_negotiated_cipher lib s \<rparr>)"
    using assms(2,3) by (auto simp: exchange_wf_def)
  note wf2 = exchange_wf_fill [OF both(2) wf]
  note tx = ktls_fill_keys(1) [OF both(2) wf]
  note rx = ktls_fill_keys [OF both(3) wf2]
  show ?thesis
    using slot_of_both [of w "ssl_is_server lib s"] tx rx by (metis slot_of_distinct)
qed simp_all

text \<open>When a step ends the handshake, both directions have the keys of their secrets.\<close>

lemma step_keys_current:
  assumes "ktls_exchange_step lib abi x t = (r, x', t')" "exchange_wf x" "\<not> x_done x" "x_done x'"
  shows "keys_current lib abi x' w"
  using assms(1)
proof (cases rule: ktls_exchange_step_cases)
  case (finished s x2)
  have "keys_current lib abi x2 w"
    by (rule ktls_derive_both_keys [OF finished(4)]) (simp_all add: assms exchange_wf_after_io)
  then show ?thesis using finished(5) by (simp add: keys_current_def slot_secret_def)
next
  case (underived s f)
  with assms show ?thesis by (simp add: ktls_derive_both_sel)
qed (use assms in simp_all)

text \<open>A connection in use: the handshake is done and no key change has failed.\<close>

inductive live :: "'s tls_lib \<Rightarrow> kernel_abi \<Rightarrow> 's ktls_exchange \<Rightarrow> bytes \<Rightarrow> bytes \<Rightarrow> bool"
  for lib :: "'s tls_lib" and abi :: kernel_abi where
  finished: "session lib abi x T F \<Longrightarrow> \<not> x_done x \<Longrightarrow>
     ktls_exchange_step lib abi x t = (Inr a, x', t') \<Longrightarrow> x_done x' \<Longrightarrow> live lib abi x' T F"
| fed: "live lib abi x T F \<Longrightarrow> ktls_exchange_feed lib bs x t = (Inr (), x', t') \<Longrightarrow>
     live lib abi x' T (F @ bs)"
| taken: "live lib abi x T F \<Longrightarrow> ktls_exchange_take lib cap x t = (Inr out, x', t') \<Longrightarrow>
     live lib abi x' (T @ out) F"
| stepped: "live lib abi x T F \<Longrightarrow> ktls_exchange_step lib abi x t = (r, x', t') \<Longrightarrow>
     live lib abi x' T F"
| backlogged: "live lib abi x T F \<Longrightarrow> ktls_exchange_backlog lib cap x t = (p, x', t') \<Longrightarrow>
     live lib abi x' T F"
| informed: "live lib abi x T F \<Longrightarrow> ktls_crypto_info lib x dir t = (i, x', t') \<Longrightarrow>
     live lib abi x' T F"
| rekeyed: "live lib abi x T F \<Longrightarrow> ktls_next_key lib abi x dir t = (Inr u, x', t') \<Longrightarrow>
     live lib abi x' T F"
| released: "live lib abi x T F \<Longrightarrow> ktls_exchange_release (Some x) = Some x' \<Longrightarrow>
     live lib abi x' T F"

lemma live_session: "live lib abi x T F \<Longrightarrow> session lib abi x T F \<and> x_done x"
proof (induction rule: live.induct)
  case (fed x T F bs t x' t')
  moreover from fed have "x_done x'" by (auto elim!: ktls_exchange_feed_cases)
  ultimately show ?case by (blast intro: session.fed)
next
  case (taken x T F cap t out x' t')
  moreover from taken have "x_done x'" by (auto elim!: ktls_exchange_take_cases)
  ultimately show ?case by (blast intro: session.taken)
next
  case (released x T F x')
  moreover from released have "x_done x'"
    using ktls_exchange_release_Some [OF released(2)] by auto
  ultimately show ?case by (blast intro: session.released)
qed (blast intro: session.intros step_op.oper_done [THEN conjunct1]
    backlog_op.oper_done [THEN conjunct1] crypto_info_op.oper_done [THEN conjunct1]
    next_key_op.oper_done [THEN conjunct1])+

lemma live_facts: "live lib abi x T F \<Longrightarrow> exchange_wf x \<and> knows x T F \<and> x_done x"
  using live_session session_invariant by blast

text \<open>
  OpenSSL logs the two application secrets during the handshake and never again: no line
  handed over by a read is a secret line.
\<close>

definition quiet_reads :: "'s tls_lib \<Rightarrow> bool" where
  "quiet_reads lib \<longleftrightarrow> (\<forall>s i u n q. \<forall>l \<in> set (io_lines (ssl_read lib s i u n q)). keylog_secret l = None)"

lemma fold_keylog_quiet:
  "\<forall>l \<in> set ls. keylog_secret l = None \<Longrightarrow> fold ktls_keylog ls x = x"
  by (induction ls arbitrary: x) (simp_all add: ktls_keylog_def)

lemma live_keys_current:
  assumes "live lib abi x T F" "quiet_reads lib"
  shows "keys_current lib abi x w"
  using assms(1)
proof (induction arbitrary: w rule: live.induct)
  case (finished x T F t a x' t')
  then show ?case using session_invariant by (blast intro: step_keys_current)
next
  case (fed x T F bs t x' t')
  from fed(2) have "keys_current lib abi x' w \<longleftrightarrow> keys_current lib abi x w"
    by (cases rule: ktls_exchange_feed_cases) (simp_all add: keys_current_def slot_secret_def)
  with fed show ?case by simp
next
  case (taken x T F cap t out x' t')
  from taken(2) have "keys_current lib abi x' w \<longleftrightarrow> keys_current lib abi x w"
    by (cases rule: ktls_exchange_take_cases) (simp_all add: keys_current_def slot_secret_def)
  with taken show ?case by simp
next
  case (stepped x T F t r x' t')
  then show ?case using live_session ktls_exchange_step_sel(6) by blast
next
  case (backlogged x T F cap t p x' t')
  from backlogged(2) have "keys_current lib abi x' w \<longleftrightarrow> keys_current lib abi x w"
  proof (cases rule: ktls_exchange_backlog_cases)
    case (read s io)
    then have "\<forall>l \<in> set (io_lines io). keylog_secret l = None"
      using assms(2) by (simp add: quiet_reads_def)
    then show ?thesis
      using read(4) by (simp add: after_io_def fold_keylog_quiet keys_current_def slot_secret_def)
  qed simp_all
  with backlogged show ?case by simp
next
  case (informed x T F dir t i x' t')
  from informed(2) have "keys_current lib abi x' w \<longleftrightarrow> keys_current lib abi x w"
    by (cases rule: ktls_crypto_info_cases) (auto simp: keys_current_def slot_secret_def)
  with informed show ?case by simp
next
  case (rekeyed x T F dir t u x' t')
  have wf: "exchange_wf x" using rekeyed(1) live_session session_invariant by blast
  from rekeyed(2) show ?case
  proof (cases rule: ktls_next_key_cases)
    case (turned nxt x1)
    have wf1: "exchange_wf x1"
      using wf turned(3) ktls_expand_length [OF turned(2)]
      by (auto simp: exchange_wf_def length_memcpy_at)
    have other: "keys_current lib abi x1 w' \<longleftrightarrow> keys_current lib abi x w'"
      if "w' \<noteq> slot_of dir (x_server x)" for w'
      using that turned(3) by (simp add: keys_current_def slot_secret_def)
    show ?thesis
      using ktls_fill_keys [OF turned(4) wf1] other rekeyed.IH
      by (cases "w = slot_of dir (x_server x)") auto
  qed simp_all
next
  case (released x T F x')
  then show ?case
    using ktls_exchange_release_Some [OF released(2)]
    by (simp add: keys_current_def slot_secret_def)
qed

end
