(* ===== verification/Ktls_Service.thy ===== *)
theory Ktls_Service
  imports Ktls_Session
begin

text \<open>
  What each operation of an exchange promises its caller, on every branch: what is fed and
  taken, what a step that answers "done" means, what is still answered after the release,
  what the callback stores, what a key change changes, and in which order the kernel is
  told.
\<close>

section \<open>Helpers\<close>

lemma unat_small: "n < 2 ^ 64 \<Longrightarrow> unat (of_nat n :: u64) = n"
  by (simp add: unat_of_nat)

lemma scan_offset: "records_wf r \<Longrightarrow> r_offset (ktls_scan r p) = r_offset r + of_nat (length p)"
proof (induction p rule: rev_induct)
  case Nil
  then show ?case by (simp add: scan.consume_Nil)
next
  case (snoc b p)
  have wf: "records_wf (foldl scan_byte r p)" by (rule records_wf_scan_bytes [OF snoc.prems])
  have "r_offset (ktls_scan r (p @ [b])) = r_offset (ktls_scan r p) + 1"
    using scan_byte_ends(1) [OF wf] by (simp add: ktls_scan_bytes snoc.prems)
  with snoc show ?case by simp
qed

lemma record_sequence_small:
  assumes "exchange_wf x"
  shows "unat (ktls_record_sequence lib x dir) \<le> 64"
proof -
  have "unat (ktls_records_between r a b) \<le> 64" if "records_wf r" for r a b
  proof -
    have "length (filter (\<lambda>e. a < e \<and> e \<le> b) (noted_ends r)) \<le> 64"
      using that length_filter_le [of _ "noted_ends r"]
      by (intro order_trans [OF length_filter_le]) (simp add: noted_ends_def records_wf_def)
    then show ?thesis by (simp add: records_between_filter [OF that] unat_small)
  qed
  then show ?thesis
    using assms by (auto simp: ktls_record_sequence_def spent_records_def exchange_wf_def Let_def
        split: ktls_direction.split)
qed

lemma step_answer_DONE: "step_answer lib other x = KTLS_DONE \<longleftrightarrow> other = KTLS_DONE \<and> bio_pending lib (x_out x) \<le> 0"
  by (auto simp: step_answer_def)

lemma crypto_info_cong:
  assumes "x_done x' = x_done x" "x_tx x' = x_tx x" "x_rx x' = x_rx x" "x_server x' = x_server x"
    "x_rekeyed x' = x_rekeyed x" "x_info x' = x_info x" "x_cipher x' = x_cipher x"
    "spent_records lib dir x' = spent_records lib dir x"
    "0 < bio_pending lib (x_out x') \<longleftrightarrow> 0 < bio_pending lib (x_out x)"
  shows "fst (ktls_crypto_info lib x' dir t) = fst (ktls_crypto_info lib x dir t)"
  by (simp add: ktls_crypto_info_def failing_def Let_def assms)

section \<open>Properties of a session\<close>

text \<open>
  C7: After any sequence of operations, failed ones included, the scanner of each direction
  holds exactly what one pass over the bytes that crossed in that direction gives, the count
  of fed bytes is exact, and every buffer of the exchange has its size: the secrets are
  within their 64 bytes, the keys and ivs, the ALPN name and the suite's name within theirs.
\<close>

theorem session_state:
  assumes "session lib abi x T F"
  shows "x_tx x = foldl scan_byte records_zero T \<and> x_rx x = foldl scan_byte records_zero F \<and>
    x_rx_fed x = of_nat (length F) \<and> length (x_secret x w) = 64 \<and> x_secret_len x w \<le> 64 \<and>
    length (x_key x w) = 32 \<and> length (x_iv x w) = 12 \<and> x_alpn_len x \<le> length (x_alpn x) \<and>
    length (x_cipher_name x) \<le> 39 \<and> (x_ssl x = None \<longleftrightarrow> x_in x = None) \<and>
    (x_ssl x = None \<longleftrightarrow> x_out x = None)"
  using session_invariant [OF assms] by (auto simp: exchange_wf_def knows_def ktls_scan_bytes)

text \<open>
  C11: The step that ends the handshake writes down where the application records begin: on
  the sending side after what was taken, and for a client also after what is still pending,
  which is its Finished; on the receiving side after what OpenSSL has consumed of the bytes
  fed.
\<close>

theorem handshake_boundary:
  assumes session: "session lib abi x T F" and undone: "\<not> x_done x"
    and step: "ktls_exchange_step lib abi x t = (r, x', t')" and ended: "x_done x'"
  shows "x_tx_at_done x' = of_nat (length T +
      (if x_server x' then 0 else length (bio_bytes (x_out x')))) \<and>
    x_rx_at_done x' = of_nat (length F) - of_nat (length (bio_bytes (x_in x')))"
proof -
  have wf: "exchange_wf x" "knows x T F" using session_invariant [OF session] by simp_all
  have tx: "r_offset (x_tx x) = of_nat (length T)"
    using wf(2) scan_offset [OF records_wf_zero, of T] by (simp add: knows_def) (simp add: records_zero_def)
  from step show ?thesis
  proof (cases rule: ktls_exchange_step_cases)
    case (finished s x2)
    note d = ktls_derive_both_sel [OF finished(4)]
    show ?thesis
      using d finished(5) tx wf(2)
      by (simp add: knows_def bio_pending_def bio_bytes_def)
  next
    case (underived s f)
    with undone ended show ?thesis by (simp add: ktls_derive_both_sel)
  qed (use undone ended in simp_all)
qed

text \<open>
  C14: When a step answers KTLS_DONE the handover is possible at once: nothing is owed to the
  peer, and unless a scanner overflowed both blobs are handed out, each with the size the
  kernel expects for the suite.
\<close>

theorem done_means_blobs:
  assumes "session lib abi x T F" "ktls_exchange_step lib abi x t = (Inr KTLS_DONE, x', t')"
    and "\<not> r_overflowed (x_tx x)" "\<not> r_overflowed (x_rx x)"
  shows "\<exists>ci. fst (ktls_crypto_info lib x' dir u) = Inr (ci, if x_cipher x' = KTLS_AES_GCM_128 then 40 else 56)"
proof -
  have "x_done x' \<and> bio_pending lib (x_out x') \<le> 0"
    using assms(2)
  proof (cases rule: ktls_exchange_step_cases)
    case (waiting s)
    have "step_answer lib KTLS_READING x' = KTLS_DONE" using waiting(5) by simp
    then show ?thesis by (simp only: step_answer_DONE ktls_step.distinct simp_thms)
  next
    case (already s)
    have "step_answer lib KTLS_DONE x = KTLS_DONE" using already(5) by simp
    with already(2,3) show ?thesis by (simp only: step_answer_DONE simp_thms)
  next
    case (finished s x2)
    have "step_answer lib KTLS_DONE x' = KTLS_DONE" using finished(6) by simp
    with finished(5) show ?thesis by (simp only: step_answer_DONE note_done_sel simp_thms)
  qed simp_all
  then have done': "x_done x'" and owed: "bio_pending lib (x_out x') \<le> 0" by simp_all
  have "\<not> r_overflowed (x_tx x')" "\<not> r_overflowed (x_rx x')"
    using assms(3,4) ktls_exchange_step_sel(1,2) [OF assms(2)] by simp_all
  with done' owed show ?thesis by (simp add: ktls_crypto_info_def Let_def info_size_def)
qed

text \<open>No record ends past the bytes that were scanned, so one more does not matter.\<close>

lemma records_between_one_more:
  assumes "length F < 2 ^ 64 - 1"
  shows "ktls_records_between (ktls_scan records_zero F) a (of_nat (length F) + 1) =
    ktls_records_between (ktls_scan records_zero F) a (of_nat (length F))"
proof -
  have le: "e \<le> of_nat (length F) \<and> e \<le> of_nat (length F) + 1"
    if "e \<in> set (noted_ends (ktls_scan records_zero F))" for e :: u64
  proof -
    have "unat e \<le> length F" using scan_offset_and_ends [of F] assms that by simp
    moreover have "unat (of_nat (length F) :: u64) = length F"
      by (rule unat_small) (use assms in simp)
    moreover have "unat (of_nat (length F + 1) :: u64) = length F + 1"
      by (rule unat_small) (use assms in simp)
    moreover have "of_nat (length F) + 1 = (of_nat (length F + 1) :: u64)" by simp
    ultimately show ?thesis by (simp only: word_le_nat_alt) simp
  qed
  have "filter (\<lambda>e. a < e \<and> e \<le> of_nat (length F) + 1) (noted_ends (ktls_scan records_zero F)) =
      filter (\<lambda>e. a < e \<and> e \<le> of_nat (length F)) (noted_ends (ktls_scan records_zero F))"
    by (rule filter_cong) (use le in auto)
  then show ?thesis by (simp add: records_between_filter records_wf_scan)
qed

lemma spent_without_buffers:
  assumes x: "knows x T F" "x_in x = Some []" and null: "bio_pending_null lib \<in> {-1, 0}"
    and short: "length F < 2 ^ 64 - 1"
  shows "spent_records lib dir (x\<lparr> x_ssl := None, x_in := None, x_out := None \<rparr>) = spent_records lib dir x"
proof (cases dir)
  case KTLS_TX
  then show ?thesis by (simp add: spent_records_def)
next
  case KTLS_RX
  have rx: "x_rx x = ktls_scan records_zero F" "x_rx_fed x = of_nat (length F)"
    using x(1) by (simp_all add: knows_def)
  have "bio_pending_null lib = -1 \<or> bio_pending_null lib = 0" using null by simp
  with records_between_one_more [OF short, of "x_rx_at_done x"] show ?thesis
    by (auto simp: KTLS_RX spent_records_def bio_pending_def x(2) rx)
qed

text \<open>
  C15: Releasing an exchange whose buffers were drained changes no answer about the handover:
  both blobs are the ones it would have given before, and everything that needs the SSL
  object or a buffer refuses from then on. OpenSSL answers 0 or -1 for what is pending in a
  BIO that is NULL.
\<close>

theorem release_keeps_answers:
  assumes live: "live lib abi x T F" and drained: "x_in x = Some []" "x_out x = Some []"
    and null: "bio_pending_null lib \<in> {-1, 0}" and short: "length F < 2 ^ 64 - 1"
    and release: "ktls_exchange_release (Some x) = Some x'"
  shows "fst (ktls_crypto_info lib x' dir t) = fst (ktls_crypto_info lib x dir t) \<and>
    isl (fst (ktls_exchange_feed lib bs x' t)) \<and> isl (fst (ktls_exchange_take lib cap x' t)) \<and>
    isl (fst (ktls_exchange_step lib abi x' t)) \<and> isl (fst (ktls_exchange_backlog lib cap x' t))"
proof -
  have facts: "exchange_wf x" "knows x T F" "x_done x" using live_facts [OF live] by simp_all
  have x': "x' = x\<lparr> x_ssl := None, x_in := None, x_out := None \<rparr>"
    using ktls_exchange_release_Some [OF release] facts(1) drained by (auto simp: exchange_wf_def)
  have pend: "bio_pending lib (x_out x') = bio_pending_null lib" "bio_pending lib (x_out x) = 0"
    by (simp_all add: x' bio_pending_def drained)
  have kept: "x_done x' = x_done x" "x_tx x' = x_tx x" "x_rx x' = x_rx x" "x_server x' = x_server x"
    "x_rekeyed x' = x_rekeyed x" "x_info x' = x_info x" "x_cipher x' = x_cipher x"
    "x_tx_at_done x' = x_tx_at_done x" "x_rx_at_done x' = x_rx_at_done x" "x_rx_fed x' = x_rx_fed x"
    by (simp_all add: x')
  have spent: "spent_records lib dir x' = spent_records lib dir x"
    unfolding x' by (rule spent_without_buffers [OF facts(2) drained(1) null short])
  have "\<not> 0 < bio_pending lib (x_out x')" "\<not> 0 < bio_pending lib (x_out x)"
    using null unfolding pend by auto
  then have "fst (ktls_crypto_info lib x' dir t) = fst (ktls_crypto_info lib x dir t)"
    by (intro crypto_info_cong kept spent) simp
  moreover have "isl (fst (ktls_exchange_feed lib bs x' t))"
    "isl (fst (ktls_exchange_take lib cap x' t))" "isl (fst (ktls_exchange_step lib abi x' t))"
    "isl (fst (ktls_exchange_backlog lib cap x' t))"
    using facts(3)
    by (simp_all add: x' ktls_exchange_feed_def ktls_exchange_take_def ktls_exchange_step_def
        ktls_exchange_backlog_def failing_def)
  ultimately show ?thesis by blast
qed

section \<open>Properties of the single operations\<close>

text \<open>
  Feeding less than 2 GiB hands OpenSSL every byte, in order, and the scanner sees the
  same bytes. The hypothesis on OpenSSL: a memory BIO takes everything that is written to it.
\<close>

theorem feed_hands_over:
  assumes "exchange_wf x" "x_ssl x \<noteq> None" "length bs < 2 ^ 31"
    and "\<And>p n. 0 \<le> n \<Longrightarrow> bio_write_ret lib p n = n"
  shows "\<exists>x'. ktls_exchange_feed lib bs x t = (Inr (), x', t) \<and>
    x_in x' = Some (bio_bytes (x_in x) @ bs) \<and> x_rx x' = ktls_scan (x_rx x) bs \<and>
    x_rx_fed x' = x_rx_fed x + of_nat (length bs) \<and> x_out x' = x_out x \<and> x_tx x' = x_tx x"
proof (cases "bs = []")
  case True
  then have "ktls_exchange_feed lib bs x t = (Inr (), x, t)"
    using assms(2) by (auto simp: ktls_exchange_feed_def)
  then show ?thesis using True assms(1,2)
    by (auto simp: exchange_wf_def bio_bytes_def scan.consume_Nil)
next
  case False
  have n: "c_int (length bs) = int (length bs)" using assms(3) by simp
  show ?thesis using False assms(2,4) by (auto simp: ktls_exchange_feed_def n Let_def)
qed

text \<open>
  C37: Feeding 4 GiB and some bytes more reports success and hands OpenSSL only those few:
  the length goes through \<open>(int)\<close>, while the scanner and the count of fed bytes take all of
  them. The sequence number counted from them is then of no use.
\<close>

theorem feed_truncates:
  assumes "x_ssl x \<noteq> None" "length bs = 2 ^ 32 + k" "0 < k" "k < 2 ^ 31"
    and "\<And>p n. 0 \<le> n \<Longrightarrow> bio_write_ret lib p n = n"
  shows "\<exists>x'. ktls_exchange_feed lib bs x t = (Inr (), x', t) \<and>
    x_in x' = Some (bio_bytes (x_in x) @ take k bs) \<and> x_rx x' = ktls_scan (x_rx x) bs"
proof -
  have "(of_nat (2 ^ 32 + k) :: 32 word) = of_nat k" by simp
  then have "c_int (length bs) = c_int k" unfolding c_int_def assms(2) by (simp only:)
  then have n: "c_int (length bs) = int k" using assms(4) by simp
  have "bs \<noteq> []" using assms(2) by auto
  then show ?thesis using assms(1,3,5) by (auto simp: ktls_exchange_feed_def n Let_def)
qed

text \<open>
  Taking hands out what is pending in order: what was taken followed by what is left is
  what was there, the scanner has seen exactly the bytes taken, and nothing else changes.
\<close>

theorem take_in_order:
  assumes "ktls_exchange_take lib cap x t = (Inr out, x', t')"
  shows "out @ bio_bytes (x_out x') = bio_bytes (x_out x) \<and> x_tx x' = ktls_scan (x_tx x) out \<and>
    x_in x' = x_in x \<and> x_rx x' = x_rx x \<and> x_done x' = x_done x \<and> t' = t"
  using assms
  by (cases rule: ktls_exchange_take_cases) (auto simp: scan.consume_Nil bio_bytes_def)

text \<open>
  C30: The keylog callback stores the secret OpenSSL logged: after a line with the digits of
  up to 64 bytes the slot of that line's side holds exactly those bytes, whatever was there
  before, and the other side's slot is as it was.
\<close>

theorem keylog_stores:
  assumes "exchange_wf x" "length secret \<le> 64" "CHR '' '' \<notin> set random"
  shows "slot_secret (ktls_keylog (keylog_line which random secret) x) which = secret \<and>
    (other = which \<or>
      slot_secret (ktls_keylog (keylog_line which random secret) x) other = slot_secret x other)"
proof -
  have "unhex_loop (hex_of secret @ []) (x_secret x which) 0 64 =
      (UnhexLen (0 + length secret), memcpy_at (x_secret x which) 0 secret)"
    by (rule unhex_loop_hex) (use assms in \<open>simp_all add: exchange_wf_def ends_hex_def\<close>)
  then have "ktls_keylog (keylog_line which random secret) x =
      x\<lparr> x_secret := (x_secret x)(which := memcpy_at (x_secret x which) 0 secret),
         x_secret_len := (x_secret_len x)(which := length secret) \<rparr>"
    by (simp add: ktls_keylog_def keylog_secret_line [OF assms(3)] ktls_unhex_def)
  then show ?thesis by (simp add: slot_secret_def take_memcpy_at_0)
qed

text \<open>
  Reading a blob changes nothing: asked again, for the same direction or after asking for
  the other one, \<open>ktls_crypto_info\<close> answers the same, so the kernel can be told in any
  order and a failed attempt can be repeated.
\<close>

theorem crypto_info_repeatable:
  assumes "exchange_wf x" "ktls_crypto_info lib x dir t = (Inr p, x', t')"
  shows "fst (ktls_crypto_info lib x' dir u) = Inr p \<and>
    fst (ktls_crypto_info lib x' dir2 u) = fst (ktls_crypto_info lib x dir2 u)"
proof -
  have again: "fst (ktls_crypto_info lib x' dir2 u) = fst (ktls_crypto_info lib x dir2 u)" for dir2 u
    using assms(2)
  proof (cases rule: ktls_crypto_info_cases)
    case (answered ci)
    let ?w = "slot_of dir (x_server x)"
    let ?w2 = "slot_of dir2 (x_server x)"
    have len: "length (i_rec_seq (x_info x w)) = 8" for w using assms(1) by (simp add: exchange_wf_def)
    have spent: "spent_records lib d x' = spent_records lib d x" for d
      by (cases d) (simp_all add: answered(7) spent_records_def)
    have "(x_info x' ?w2)\<lparr> i_rec_seq := write_seq s (i_rec_seq (x_info x' ?w2)) \<rparr> =
        (x_info x ?w2)\<lparr> i_rec_seq := write_seq s (i_rec_seq (x_info x ?w2)) \<rparr>" for s
      using len by (auto simp: answered(6,7) write_seq_bytes)
    then show ?thesis
      by (simp add: ktls_crypto_info_def failing_def Let_def spent)
        (simp add: answered(7))
  qed simp_all
  have "fst (ktls_crypto_info lib x dir u) = Inr p"
    using assms(2) by (cases rule: ktls_crypto_info_cases)
      (auto simp: ktls_crypto_info_def ktls_record_sequence_def Let_def)
  with again show ?thesis by simp
qed

text \<open>
  C16: The kernel is told in one order and never without both blobs: if any call is accepted,
  both directions had an answer, the tls module was there and receiving has an option; the
  accepted calls are the first of attaching the ULP, the sending and the receiving blob on
  that socket, each with its own direction's answer; and the offload succeeds exactly when
  all three were accepted.
\<close>

theorem offload_order:
  assumes "ktls_offload lib abi initialized kern x fd t = (r, x', t', calls)"
  shows "(calls = [] \<and> isl r) \<or>
    (\<exists>txi n x1 t1 rxi m x2 t2.
       ktls_crypto_info lib x KTLS_TX t = (Inr (txi, n), x1, t1) \<and>
       ktls_crypto_info lib x1 KTLS_RX t1 = (Inr (rxi, m), x2, t2) \<and>
       initialized \<and> 0 \<le> TLS_RX abi \<and>
       calls = take (length calls) [AttachUlp fd, SetTls fd (SOL_TLS abi) (TLS_TX abi) txi n,
          SetTls fd (SOL_TLS abi) (TLS_RX abi) rxi m] \<and>
       (isl r \<longleftrightarrow> length calls \<noteq> 3))"
proof -
  obtain tx x1 t1 where tx: "ktls_crypto_info lib x KTLS_TX t = (tx, x1, t1)"
    by (cases "ktls_crypto_info lib x KTLS_TX t") auto
  obtain rx x2 t2 where rx: "ktls_crypto_info lib x1 KTLS_RX t1 = (rx, x2, t2)"
    by (cases "ktls_crypto_info lib x1 KTLS_RX t1") auto
  show ?thesis
  proof (cases "isl tx \<or> isl rx")
    case True
    with assms tx rx show ?thesis
      by (cases tx; cases rx) (auto simp: ktls_offload_def)
  next
    case False
    then obtain txi n rxi m where both: "tx = Inr (txi, n)" "rx = Inr (rxi, m)"
      by (cases tx; cases rx) auto
    with assms tx rx show ?thesis
      by (auto simp: ktls_offload_def ktls_attach_ulp_def ktls_optname_def Let_def
          split: if_splits)
  qed
qed

text \<open>
  C38: "Both or neither" holds of the offers the library makes and not of the socket: when the
  kernel takes the sending blob and refuses the receiving one, the offload fails and the
  socket keeps sending through kTLS, with nothing undone.
\<close>

theorem offload_can_leave_half:
  assumes "ktls_crypto_info lib x KTLS_TX t = (Inr (txi, n), x1, t1)"
    and "ktls_crypto_info lib x1 KTLS_RX t1 = (Inr (rxi, m), x2, t2)"
    and "0 \<le> TLS_RX abi" "kern (AttachUlp fd) = 0"
    and "kern (SetTls fd (SOL_TLS abi) (TLS_TX abi) txi n) = 0"
    and "kern (SetTls fd (SOL_TLS abi) (TLS_RX abi) rxi m) \<noteq> 0"
  shows "\<exists>t'. ktls_offload lib abi True kern x fd t =
    (Inl (Fail ''setsockopt(TLS_RX)''), x2, t',
     [AttachUlp fd, SetTls fd (SOL_TLS abi) (TLS_TX abi) txi n])"
  using assms by (simp add: ktls_offload_def ktls_attach_ulp_def ktls_optname_def Let_def)

text \<open>
  C36: A key change that fails half way leaves a trap: the secret has moved on and the slot
  counts as rekeyed, but the blob still holds the old key. Asked for the blob then,
  \<open>ktls_crypto_info\<close> answers with the old key and the sequence number zero, under which
  records were already sent.
\<close>

theorem failed_next_key_reuses_key:
  fixes lib :: "'s tls_lib" and x :: "'s ktls_exchange"
  defines "w \<equiv> \<lambda>dir. slot_of dir (x_server x)"
  assumes "exchange_wf x" "x_done x" "bio_pending lib (x_out x) \<le> 0"
    and "\<not> r_overflowed (x_tx x)" "\<not> r_overflowed (x_rx x)"
    and "ktls_expand lib (slot_secret x (w dir)) ''traffic upd'' (x_secret_len x (w dir)) = Inr nxt"
    and "ktls_expand lib nxt ''key'' (key_length (x_cipher x)) = Inl f"
    and "ktls_next_key lib abi x dir t = (r, x', t')"
  shows "isl r \<and> slot_secret x' (w dir) = nxt \<and>
    (\<exists>ci. fst (ktls_crypto_info lib x' dir u) = Inr (ci, info_size (x_cipher x)) \<and>
       i_key ci = i_key (x_info x (w dir)) \<and> be_nat (i_rec_seq ci) = 0)"
proof -
  let ?w = "w dir"
  let ?x1 = "x\<lparr> x_secret := (x_secret x)(?w := memcpy_at (x_secret x ?w) 0 nxt),
    x_rekeyed := (x_rekeyed x)(?w := True) \<rparr>"
  have len: "length nxt = x_secret_len x ?w" by (rule ktls_expand_length [OF assms(7)])
  have sec: "slot_secret ?x1 ?w = nxt"
    using take_memcpy_at_0 [of nxt] len by (simp add: slot_secret_def)
  have next_eq: "ktls_next_key lib abi x dir t = ktls_fill lib abi ?x1 ?w t"
    using assms(3,7) by (simp add: ktls_next_key_def Let_def w_def)
  have "isl r \<and> x' = ?x1"
  proof (cases "x_secret_len x ?w = 0")
    case True
    then show ?thesis using assms(9) next_eq by (auto simp: ktls_fill_def failing_def)
  next
    case False
    then show ?thesis using assms(8,9) next_eq sec
      by (auto simp: ktls_fill_def failing_def)
  qed
  then have r: "isl r" and x': "x' = ?x1" by simp_all
  have seq_len: "length (i_rec_seq (x_info x ?w)) = 8" using assms(2) by (simp add: exchange_wf_def)
  have "fst (ktls_crypto_info lib x' dir u) =
      Inr ((x_info x ?w)\<lparr> i_rec_seq := write_seq 0 (i_rec_seq (x_info x ?w)) \<rparr>, info_size (x_cipher x))"
    using assms(3-6) by (simp add: ktls_crypto_info_def x' Let_def w_def)
  with r sec x' be_nat_write_seq [OF seq_len, of 0] show ?thesis by simp
qed

end
