(* ===== verification/Ktls_Agreement.thy ===== *)
theory Ktls_Agreement
  imports Ktls_Service
begin

text \<open>
  What the kernel is told: the sequence number of a blob against the records that really
  crossed the exchange, and the blobs of the two ends of one connection against each
  other.
\<close>

declare slot_of.simps [simp del]

section \<open>The sequence number\<close>

lemma answered_sequence:
  assumes "ktls_crypto_info lib x dir t = (Inr (ci, n), x', t')" "exchange_wf x"
  shows "be_nat (i_rec_seq ci) = unat (ktls_record_sequence lib x dir)"
    "n = info_size (x_cipher x)" "x_done x" "\<not> r_overflowed (x_tx x)" "\<not> r_overflowed (x_rx x)"
    "bio_pending lib (x_out x) \<le> 0"
    "i_rec_seq ci = map (\<lambda>i. ucast (drop_bit (8 * (7 - i)) (ktls_record_sequence lib x dir))) [0..<8]"
    "ci\<lparr> i_rec_seq := replicate 8 0 \<rparr> =
       (x_info x (slot_of dir (x_server x)))\<lparr> i_rec_seq := replicate 8 0 \<rparr>"
proof -
  let ?w = "slot_of dir (x_server x)"
  let ?seq = "ktls_record_sequence lib x dir"
  have len: "length (i_rec_seq (x_info x ?w)) = 8" using assms(2) by (simp add: exchange_wf_def)
  have "ci = (x_info x ?w)\<lparr> i_rec_seq := write_seq ?seq (i_rec_seq (x_info x ?w)) \<rparr> \<and>
      n = info_size (x_cipher x) \<and> x_done x \<and> \<not> r_overflowed (x_tx x) \<and>
      \<not> r_overflowed (x_rx x) \<and> bio_pending lib (x_out x) \<le> 0"
    using assms(1) by (cases rule: ktls_crypto_info_cases) simp_all
  then have ci: "ci = (x_info x ?w)\<lparr> i_rec_seq := write_seq ?seq (i_rec_seq (x_info x ?w)) \<rparr>"
    and rest: "n = info_size (x_cipher x)" "x_done x" "\<not> r_overflowed (x_tx x)"
      "\<not> r_overflowed (x_rx x)" "bio_pending lib (x_out x) \<le> 0" by blast+
  show "n = info_size (x_cipher x)" "x_done x" "\<not> r_overflowed (x_tx x)"
    "\<not> r_overflowed (x_rx x)" "bio_pending lib (x_out x) \<le> 0" by (rule rest)+
  show "be_nat (i_rec_seq ci) = unat ?seq" by (simp add: ci be_nat_write_seq [OF len])
  show "i_rec_seq ci = map (\<lambda>i. ucast (drop_bit (8 * (7 - i)) ?seq)) [0..<8]"
  proof -
    have "i_rec_seq ci = write_seq ?seq (i_rec_seq (x_info x ?w))" by (simp add: ci)
    then show ?thesis by (simp only: write_seq_bytes [OF len])
  qed
  show "ci\<lparr> i_rec_seq := replicate 8 0 \<rparr> = (x_info x ?w)\<lparr> i_rec_seq := replicate 8 0 \<rparr>"
    by (simp add: ci)
qed

lemma records_sent:
  assumes session: "session lib abi x T F" and ended: "x_done x" "\<not> r_overflowed (x_tx x)"
    and sent: "T = wires (hs @ us) @ take k (wire_bytes w)"
    and records: "\<forall>v \<in> set (hs @ us). wire_ok v" "wire_ok w" "k < length (wire_bytes w)"
    and short: "length T < 2 ^ 64"
    and start: "x_tx_at_done x = of_nat (length (wires hs))"
    and fresh: "\<not> x_rekeyed x (slot_of KTLS_TX (x_server x))"
  shows "ktls_record_sequence lib x KTLS_TX = of_nat (length us)" "length us \<le> 64"
proof -
  have tx: "x_tx x = ktls_scan records_zero T"
    using session_invariant [OF session] by (simp add: knows_def)
  have stream: "ktls_scan records_zero T =
      ktls_scan records_zero (wires (hs @ us @ []) @ take k (wire_bytes w))"
    by (simp add: sent)
  have few: "length (hs @ us @ []) \<le> 64"
    using ended(2) scan_stream(2) [OF records] by (simp add: tx sent)
  then show "length us \<le> 64" by simp
  have "r_offset (x_tx x) = of_nat (length (wires hs) + length (wires us) + k)"
    using scan_stream(3) [OF records] by (simp add: tx sent)
  then show "ktls_record_sequence lib x KTLS_TX = of_nat (length us)"
    using records_between_stream [of hs us "[]" w k k] records few short fresh ended(1)
    by (simp add: ktls_record_sequence_def spent_records_def start tx stream sent before_next_def)
qed

text \<open>
  C1: The sequence number in the TX blob is the number of application records this side has
  already sent. The bytes taken from the exchange are complete records \<open>hs\<close> up to the
  boundary the handshake left, complete records \<open>us\<close> after it and the beginning of a
  record; whatever the calls were and however the bytes were cut, the eight bytes the kernel
  is given decode to the length of \<open>us\<close>, so no record number is used twice under one key.
\<close>

theorem sequence_sent:
  assumes session: "session lib abi x T F"
    and sent: "T = wires (hs @ us) @ take k (wire_bytes w)"
    and records: "\<forall>v \<in> set (hs @ us). wire_ok v" "wire_ok w" "k < length (wire_bytes w)"
    and short: "length T < 2 ^ 64"
    and start: "x_tx_at_done x = of_nat (length (wires hs))"
    and fresh: "\<not> x_rekeyed x (slot_of KTLS_TX (x_server x))"
    and info: "ktls_crypto_info lib x KTLS_TX t = (Inr (ci, n), x', t')"
  shows "be_nat (i_rec_seq ci) = length us"
proof -
  have "exchange_wf x" using session_invariant [OF session] by simp
  note ans = answered_sequence [OF info this]
  show ?thesis
    using ans(1) records_sent [OF session ans(3,4) sent records short start fresh] by (simp add: unat_small)
qed

text \<open>
  C3: The sequence number in the RX blob is the number of application records OpenSSL has
  consumed on this side: of the bytes fed, the records \<open>hs\<close> belong to the handshake, \<open>us\<close>
  have been read since, and \<open>pending\<close> still sits in the BIO, less than one record of it
  already read.
\<close>

theorem sequence_received:
  assumes session: "session lib abi x T F"
    and got: "F = wires (hs @ us @ vs) @ take k (wire_bytes w)"
    and records: "\<forall>v \<in> set (hs @ us @ vs). wire_ok v" "wire_ok w" "k < length (wire_bytes w)"
    and short: "length F < 2 ^ 64"
    and start: "x_rx_at_done x = of_nat (length (wires hs))"
    and unread: "x_in x = Some pending" "length F = length (wires (hs @ us)) + j + length pending"
    and inside: "before_next vs j"
    and fresh: "\<not> x_rekeyed x (slot_of KTLS_RX (x_server x))"
    and info: "ktls_crypto_info lib x KTLS_RX t = (Inr (ci, n), x', t')"
  shows "be_nat (i_rec_seq ci) = length us"
proof -
  have wf: "exchange_wf x" and rx: "x_rx x = ktls_scan records_zero F"
    and fed: "x_rx_fed x = of_nat (length F)"
    using session_invariant [OF session] by (simp_all add: knows_def)
  note ans = answered_sequence [OF info wf]
  have few: "length (hs @ us @ vs) \<le> 64"
    using ans(5) scan_stream(2) [OF records] by (simp add: rx got)
  have "(of_nat (length F) :: u64) - of_nat (length pending) =
      of_nat (length (wires hs) + length (wires us) + j)"
    unfolding unread(2) by simp
  then have "x_rx_fed x - of_int (bio_pending lib (x_in x)) =
      of_nat (length (wires hs) + length (wires us) + j)"
    by (simp add: fed bio_pending_def unread(1))
  then have "ktls_record_sequence lib x KTLS_RX = of_nat (length us)"
    using records_between_stream [of hs us vs w k j] records few short fresh ans(3) inside unread(2)
    by (simp add: ktls_record_sequence_def spent_records_def start rx got)
  with few show ?thesis using ans(1) by (simp add: unat_small)
qed

section \<open>The two ends of a connection\<close>

lemma records_zero_offset: "r_offset records_zero = 0"
  by (simp add: records_zero_def)

lemma info_eqI:
  "(a :: ktls_info)\<lparr> i_rec_seq := z \<rparr> = b\<lparr> i_rec_seq := z \<rparr> \<Longrightarrow> i_rec_seq a = i_rec_seq b \<Longrightarrow> a = b"
  by (cases a, cases b) simp

lemma keys_current_same:
  assumes "keys_current lib abi x w" "keys_current lib abi y w"
    "x_cipher x = x_cipher y" "slot_secret x w = slot_secret y w"
  shows "(x_info x w)\<lparr> i_rec_seq := replicate 8 0 \<rparr> = (x_info y w)\<lparr> i_rec_seq := replicate 8 0 \<rparr>"
  using assms by (simp add: keys_current_def)

lemma blobs_from_sequences:
  assumes s: "ktls_crypto_info lib s KTLS_TX t = (Inr (a, n), s', t')" "exchange_wf s"
    and c: "ktls_crypto_info lib c KTLS_RX u = (Inr (b, m), c', u')" "exchange_wf c"
    and sides: "x_server c \<longleftrightarrow> \<not> x_server s" and cipher: "x_cipher s = x_cipher c"
    and keys: "keys_current lib abi s (slot_of KTLS_TX (x_server s))"
      "keys_current lib abi c (slot_of KTLS_TX (x_server s))"
    and secret: "slot_secret s (slot_of KTLS_TX (x_server s)) =
      slot_secret c (slot_of KTLS_TX (x_server s))"
    and seq: "ktls_record_sequence lib s KTLS_TX = ktls_record_sequence lib c KTLS_RX"
  shows "a = b \<and> n = m"
proof -
  have w: "slot_of KTLS_RX (x_server c) = slot_of KTLS_TX (x_server s)"
    using sides by (simp add: slot_of_peer)
  note sa = answered_sequence [OF s] and ca = answered_sequence [OF c]
  have "a\<lparr> i_rec_seq := replicate 8 0 \<rparr> = b\<lparr> i_rec_seq := replicate 8 0 \<rparr>"
    using sa(8) ca(8) keys_current_same [OF keys cipher secret] by (simp only: w)
  moreover have "i_rec_seq a = i_rec_seq b" using sa(7) ca(7) by (simp only: seq)
  ultimately have "a = b" by (rule info_eqI)
  with sa(2) ca(2) cipher show ?thesis by simp
qed

lemma live_sequences_agree:
  assumes s: "live lib abi s Ts Fs" and c: "live lib abi c Tc Ts" and drained: "x_in c = Some []"
    and sides: "x_server c \<longleftrightarrow> \<not> x_server s" and start: "x_tx_at_done s = x_rx_at_done c"
    and rekeys: "x_rekeyed s (slot_of KTLS_TX (x_server s)) =
      x_rekeyed c (slot_of KTLS_TX (x_server s))"
  shows "ktls_record_sequence lib s KTLS_TX = ktls_record_sequence lib c KTLS_RX"
proof -
  have wfs: "x_tx s = ktls_scan records_zero Ts" "x_done s"
    using live_facts [OF s] by (simp_all add: knows_def)
  have wfc: "x_rx c = ktls_scan records_zero Ts" "x_done c" "x_rx_fed c = of_nat (length Ts)"
    using live_facts [OF c] by (simp_all add: knows_def)
  have w: "slot_of KTLS_RX (x_server c) = slot_of KTLS_TX (x_server s)"
    using sides by (simp add: slot_of_peer)
  have "spent_records lib KTLS_TX s = spent_records lib KTLS_RX c"
    using wfs wfc start drained scan_offset [OF records_wf_zero, of Ts]
    by (simp add: spent_records_def bio_pending_def records_zero_offset)
  then show ?thesis using wfs(2) wfc(2) rekeys by (simp only: ktls_record_sequence_def w)
qed

lemma live_blobs_agree:
  assumes s: "live lib abi s Ts Fs" and c: "live lib abi c Tc Ts" and quiet: "quiet_reads lib"
    and drained: "x_in c = Some []" and start: "x_tx_at_done s = x_rx_at_done c"
    and same: "x_server c \<longleftrightarrow> \<not> x_server s" "x_cipher s = x_cipher c"
      "slot_secret s (slot_of KTLS_TX (x_server s)) = slot_secret c (slot_of KTLS_TX (x_server s))"
      "x_rekeyed s (slot_of KTLS_TX (x_server s)) = x_rekeyed c (slot_of KTLS_TX (x_server s))"
    and blobs: "ktls_crypto_info lib s KTLS_TX t = (Inr (a, n), s', t')"
      "ktls_crypto_info lib c KTLS_RX u = (Inr (b, m), c', u')"
  shows "a = b \<and> n = m"
proof -
  have wf: "exchange_wf s" "exchange_wf c" using live_facts [OF s] live_facts [OF c] by simp_all
  have seq: "ktls_record_sequence lib s KTLS_TX = ktls_record_sequence lib c KTLS_RX"
    by (rule live_sequences_agree [OF s c drained same(1) start same(4)])
  show ?thesis
    by (rule blobs_from_sequences [OF blobs(1) wf(1) blobs(2) wf(2) same(1,2) _ _ same(3) seq])
      (use s c quiet in \<open>blast intro: live_keys_current\<close>)+
qed

text \<open>
  C4: What one end encrypts with is what the other decrypts with. Both handshakes ended, every
  byte taken from one end was fed to the other (cut in any way) and consumed there, the
  two agree on the suite, on the secret of that direction and on where the application
  records start: then the blob for sending and the peer's blob for receiving are the same,
  key, salt, iv and sequence number, and so are their lengths.
\<close>

theorem blobs_agree:
  assumes s: "live lib abi s Ts Fs" and c: "live lib abi c Tc Fc" and quiet: "quiet_reads lib"
    and delivered: "Fc = Ts" and drained: "x_in c = Some []"
    and sides: "x_server c \<longleftrightarrow> \<not> x_server s" and cipher: "x_cipher s = x_cipher c"
    and secret: "slot_secret s (slot_of KTLS_TX (x_server s)) =
      slot_secret c (slot_of KTLS_TX (x_server s))"
    and start: "x_tx_at_done s = x_rx_at_done c"
    and rekeys: "x_rekeyed s (slot_of KTLS_TX (x_server s)) =
      x_rekeyed c (slot_of KTLS_TX (x_server s))"
    and sending: "ktls_crypto_info lib s KTLS_TX t = (Inr (a, n), s', t')"
    and receiving: "ktls_crypto_info lib c KTLS_RX u = (Inr (b, m), c', u')"
  shows "a = b \<and> n = m"
  by (rule live_blobs_agree [OF s c [unfolded delivered] quiet drained start sides cipher secret rekeys
        sending receiving])

text \<open>One notch of RFC 8446 7.2, on either side.\<close>

lemma ktls_next_key_secret:
  assumes "ktls_next_key lib abi x dir t = (Inr u, x', t')" "exchange_wf x"
  defines "w \<equiv> slot_of dir (x_server x)"
  shows "ktls_expand lib (slot_secret x w) ''traffic upd'' (length (slot_secret x w)) =
      Inr (slot_secret x' w)"
    "x_rekeyed x' w" "x_secret_len x' w = x_secret_len x w"
    "w' \<noteq> w \<Longrightarrow> slot_secret x' w' = slot_secret x w'"
proof -
  have len: "length (slot_secret x w) = x_secret_len x w"
    using assms(2) by (simp add: slot_secret_def exchange_wf_def)
  have "ktls_expand lib (slot_secret x w) ''traffic upd'' (x_secret_len x w) =
      Inr (slot_secret x' w) \<and> x_rekeyed x' w \<and> x_secret_len x' w = x_secret_len x w \<and>
      (w' \<noteq> w \<longrightarrow> slot_secret x' w' = slot_secret x w')"
    using assms(1)
  proof (cases rule: ktls_next_key_cases)
    case (turned nxt x1)
    have "take (x_secret_len x w) (memcpy_at (x_secret x w) 0 nxt) = nxt"
      using ktls_expand_length [OF turned(2), folded w_def] take_memcpy_at_0 by metis
    then show ?thesis
      using turned(2,3) ktls_fill_sel [OF turned(4)] by (simp add: slot_secret_def w_def)
  qed simp_all
  with len show "ktls_expand lib (slot_secret x w) ''traffic upd'' (length (slot_secret x w)) =
      Inr (slot_secret x' w)"
    "x_rekeyed x' w" "x_secret_len x' w = x_secret_len x w"
    "w' \<noteq> w \<Longrightarrow> slot_secret x' w' = slot_secret x w'" by simp_all
qed

lemma live_rekey_agrees:
  assumes s: "live lib abi s Ts Fs" and c: "live lib abi c Tc Fc" and quiet: "quiet_reads lib"
    and sides: "x_server c \<longleftrightarrow> \<not> x_server s" and cipher: "x_cipher s = x_cipher c"
    and secret: "slot_secret s (slot_of KTLS_TX (x_server s)) = slot_secret c (slot_of KTLS_TX (x_server s))"
    and turn: "ktls_next_key lib abi s KTLS_TX t1 = (Inr u1, s1, t1')"
      "ktls_next_key lib abi c KTLS_RX t2 = (Inr u2, c1, t2')"
    and blobs: "ktls_crypto_info lib s1 KTLS_TX t3 = (Inr (a, n), s2, t3')"
      "ktls_crypto_info lib c1 KTLS_RX t4 = (Inr (b, m), c2, t4')"
  shows "a = b \<and> n = m" "ktls_record_sequence lib s1 KTLS_TX = 0"
    "slot_secret s1 (slot_of KTLS_TX (x_server s)) = slot_secret c1 (slot_of KTLS_TX (x_server s))"
proof -
  let ?w = "slot_of KTLS_TX (x_server s)"
  have w: "slot_of KTLS_RX (x_server c) = ?w" using sides by (simp add: slot_of_peer)
  have wf: "exchange_wf s" "exchange_wf c" "x_done s" "x_done c"
    using live_facts [OF s] live_facts [OF c] by simp_all
  have s1: "live lib abi s1 Ts Fs" and c1: "live lib abi c1 Tc Fc"
    using s c turn by (auto intro: live.rekeyed)
  have wf1: "exchange_wf s1" "exchange_wf c1"
    using live_facts [OF s1] live_facts [OF c1] by simp_all
  have kept: "x_server s1 = x_server s" "x_cipher s1 = x_cipher s" "x_server c1 = x_server c"
    "x_cipher c1 = x_cipher c" "x_done s1" "x_done c1"
    using next_key_op.oper_done [OF turn(1) wf(3)] next_key_op.oper_done [OF turn(2) wf(4)] by auto
  note ns = ktls_next_key_secret [OF turn(1) wf(1)] and nc = ktls_next_key_secret [OF turn(2) wf(2)]
  have same: "slot_secret s1 ?w = slot_secret c1 ?w"
    using ns(1) nc(1) secret unfolding w by simp
  have zero: "ktls_record_sequence lib s1 KTLS_TX = 0" "ktls_record_sequence lib c1 KTLS_RX = 0"
    using ns(2) nc(2) unfolding w by (simp_all add: ktls_record_sequence_def kept w)
  show "a = b \<and> n = m"
    by (rule blobs_from_sequences [OF blobs(1) wf1(1) blobs(2) wf1(2)])
      (use sides cipher same zero s1 c1 quiet in
        \<open>auto simp: kept intro: live_keys_current\<close>)
  show "ktls_record_sequence lib s1 KTLS_TX = 0"
    "slot_secret s1 ?w = slot_secret c1 ?w" by (rule zero(1), rule same)
qed

text \<open>
  C6: A KeyUpdate leaves the two ends agreeing. One end turns its sending key, the other its
  receiving key, both calls succeed: then the two hold the same next secret, the blobs read
  afterwards are the same, and the sequence in them is zero.
\<close>

theorem rekey_agrees:
  assumes s: "live lib abi s Ts Fs" and c: "live lib abi c Tc Fc" and quiet: "quiet_reads lib"
    and sides: "x_server c \<longleftrightarrow> \<not> x_server s" and cipher: "x_cipher s = x_cipher c"
    and secret: "slot_secret s (slot_of KTLS_TX (x_server s)) =
      slot_secret c (slot_of KTLS_TX (x_server s))"
    and turn: "ktls_next_key lib abi s KTLS_TX t1 = (Inr u1, s1, t1')"
      "ktls_next_key lib abi c KTLS_RX t2 = (Inr u2, c1, t2')"
    and sending: "ktls_crypto_info lib s1 KTLS_TX t3 = (Inr (a, n), s2, t3')"
    and receiving: "ktls_crypto_info lib c1 KTLS_RX t4 = (Inr (b, m), c2, t4')"
  shows "a = b \<and> n = m \<and> be_nat (i_rec_seq a) = 0 \<and>
    slot_secret s1 (slot_of KTLS_TX (x_server s)) = slot_secret c1 (slot_of KTLS_TX (x_server s))"
proof -
  note agree = live_rekey_agrees [OF s c quiet sides cipher secret turn sending receiving]
  have "exchange_wf s1" using live_facts [OF live.rekeyed [OF s turn(1)]] by simp
  then have "be_nat (i_rec_seq a) = 0"
    using answered_sequence(1) [OF sending] agree(2) by simp
  with agree show ?thesis by simp
qed

section \<open>The keys in the blobs\<close>

lemma live_blob_filled:
  assumes "live lib abi x T F" "quiet_reads lib"
    and "ktls_crypto_info lib x dir t = (Inr (ci, n), x', t')"
  obtains k v where
    "ktls_expand lib (slot_secret x (slot_of dir (x_server x))) ''key'' (key_length (x_cipher x)) = Inr k"
    "ktls_expand lib (slot_secret x (slot_of dir (x_server x))) ''iv'' 12 = Inr v"
    "length k = key_length (x_cipher x)" "length v = 12"
    "ci = (fill_info abi (x_cipher x) k v)\<lparr> i_rec_seq := i_rec_seq ci \<rparr>"
    "i_salt ci @ i_iv ci = v"
proof -
  let ?w = "slot_of dir (x_server x)"
  have wf: "exchange_wf x" using live_facts [OF assms(1)] by simp
  have cur: "expected_info lib abi (x_cipher x) (slot_secret x ?w) =
      Inr (ci\<lparr> i_rec_seq := replicate 8 0 \<rparr>)"
    using live_keys_current [OF assms(1,2), of ?w] answered_sequence(8) [OF assms(3) wf]
    by (simp only: keys_current_def)
  then obtain k v where
    k: "ktls_expand lib (slot_secret x ?w) ''key'' (key_length (x_cipher x)) = Inr k" and
    v: "ktls_expand lib (slot_secret x ?w) ''iv'' 12 = Inr v" and
    info: "fill_info abi (x_cipher x) k v = ci\<lparr> i_rec_seq := replicate 8 0 \<rparr>"
    by (auto simp: expected_info_def split: sum.splits)
  have len: "length k = key_length (x_cipher x)" "length v = 12"
    using ktls_expand_length [OF k] ktls_expand_length [OF v] by simp_all
  have ci: "ci = (fill_info abi (x_cipher x) k v)\<lparr> i_rec_seq := i_rec_seq ci \<rparr>"
    by (simp add: info)
  have cut: "take 4 v @ take 8 (drop 4 v) = v"
    using len(2) append_take_drop_id [of 4 v] by simp
  have "i_salt ci = i_salt (fill_info abi (x_cipher x) k v)" "i_iv ci = i_iv (fill_info abi (x_cipher x) k v)"
    by (simp_all add: info)
  then have "i_salt ci @ i_iv ci = v"
    using len cut by (simp add: fill_info_def info_zero_def)
  with k v len ci show thesis by (rule that)
qed

text \<open>
  C5: The blob is made of the current traffic secret of its direction: the key in it is the
  HKDF expansion of that secret under the label "key", at the size of the suite, and the salt
  and the iv in it, joined, are the expansion under "iv"; the version and the cipher type are
  the kernel's constants for TLS 1.3 and the suite. Bytes fed and taken, reads, releases and
  earlier key changes do not disturb it.
\<close>

theorem blob_from_secret:
  assumes "live lib abi x T F" "quiet_reads lib"
    and "ktls_crypto_info lib x dir t = (Inr (ci, n), x', t')"
  shows "\<exists>k v. ktls_expand lib (slot_secret x (slot_of dir (x_server x))) ''key''
        (key_length (x_cipher x)) = Inr k \<and>
      ktls_expand lib (slot_secret x (slot_of dir (x_server x))) ''iv'' 12 = Inr v \<and>
      i_key ci = k \<and> i_salt ci @ i_iv ci = v \<and> length (i_key ci) = key_length (x_cipher x) \<and>
      length (i_salt ci) = (if x_cipher x = KTLS_AES_GCM_128 then 4 else 0) \<and>
      i_version ci = TLS_1_3_VERSION abi \<and>
      i_cipher_type ci = (if x_cipher x = KTLS_AES_GCM_128 then TLS_CIPHER_AES_GCM_128 abi
        else TLS_CIPHER_CHACHA20_POLY1305 abi)"
proof -
  obtain k v where
    e: "ktls_expand lib (slot_secret x (slot_of dir (x_server x))) ''key'' (key_length (x_cipher x)) = Inr k"
      "ktls_expand lib (slot_secret x (slot_of dir (x_server x))) ''iv'' 12 = Inr v"
      "length k = key_length (x_cipher x)" "length v = 12"
    and ci: "ci = (fill_info abi (x_cipher x) k v)\<lparr> i_rec_seq := i_rec_seq ci \<rparr>"
    and iv: "i_salt ci @ i_iv ci = v"
    by (rule live_blob_filled [OF assms])
  have "i_key ci = k" "length (i_salt ci) = (if x_cipher x = KTLS_AES_GCM_128 then 4 else 0)"
    "i_version ci = TLS_1_3_VERSION abi"
    "i_cipher_type ci = (if x_cipher x = KTLS_AES_GCM_128 then TLS_CIPHER_AES_GCM_128 abi
      else TLS_CIPHER_CHACHA20_POLY1305 abi)"
    using e(3,4) by (subst ci, simp add: fill_info_def info_zero_def key_length_def)+
  with e iv show ?thesis by simp
qed

text \<open>
  C17: A key change turns one key: the secret of that direction becomes the expansion of the
  old one under "traffic upd" with its length kept, its sequence starts again at zero, and
  the secret and the blob of the other direction are untouched.
\<close>

theorem next_key_one_notch:
  assumes "exchange_wf x" "ktls_next_key lib abi x dir t = (Inr u, x', t')" "other \<noteq> dir"
  shows "ktls_expand lib (slot_secret x (slot_of dir (x_server x))) ''traffic upd''
        (length (slot_secret x (slot_of dir (x_server x)))) =
      Inr (slot_secret x' (slot_of dir (x_server x))) \<and>
    ktls_record_sequence lib x' dir = 0 \<and>
    slot_secret x' (slot_of other (x_server x)) = slot_secret x (slot_of other (x_server x)) \<and>
    x_info x' (slot_of other (x_server x)) = x_info x (slot_of other (x_server x)) \<and>
    ktls_record_sequence lib x' other = ktls_record_sequence lib x other"
proof -
  let ?w = "slot_of dir (x_server x)" and ?v = "slot_of other (x_server x)"
  note n = ktls_next_key_secret [OF assms(2,1)]
  have vw: "?v \<noteq> ?w" using assms(3) by (cases dir; cases other; simp add: slot_of.simps)
  have kept: "x_done x' = x_done x \<and> x_server x' = x_server x \<and> x_tx x' = x_tx x \<and>
      x_rx x' = x_rx x \<and> x_in x' = x_in x \<and> x_rx_fed x' = x_rx_fed x \<and>
      x_tx_at_done x' = x_tx_at_done x \<and> x_rx_at_done x' = x_rx_at_done x \<and>
      x_rekeyed x' ?v = x_rekeyed x ?v \<and> x_info x' ?v = x_info x ?v"
    using assms(2)
  proof (cases rule: ktls_next_key_cases)
    case (turned nxt x1)
    from turned(4) have "x_info x' ?v = x_info x1 ?v"
      by (cases rule: ktls_fill_cases) (use vw in simp_all)
    then show ?thesis using turned(3) vw by (simp add: ktls_fill_sel [OF turned(4)])
  qed simp_all
  have "ktls_record_sequence lib x' dir = 0"
    using n(2) kept by (simp add: ktls_record_sequence_def)
  moreover have "spent_records lib other x' = spent_records lib other x"
    using kept by (cases other) (simp_all add: spent_records_def)
  then have "ktls_record_sequence lib x' other = ktls_record_sequence lib x other"
    using kept by (simp add: ktls_record_sequence_def)
  ultimately show ?thesis using n(1) n(4) [OF vw] kept by blast
qed

end
