(* ===== verification/Ktls_Drive.thy ===== *)
theory Ktls_Drive
  imports Ktls_Agreement
begin

text \<open>
  Sessions as programs: an operation of include/ktls.h as a value, the function that runs a
  list of them on an exchange, and the proof that what it reaches is a session. Two
  exchanges run this way against a small stand-in for OpenSSL give the two ends of a
  connection on which the properties are evaluated.
\<close>

section \<open>Operations as values\<close>

datatype exchange_op =
    Feed bytes
  | Take nat
  | Step
  | Backlog nat
  | CryptoInfo ktls_direction
  | NextKey ktls_direction
  | Release

text \<open>The exchange, the bytes taken, the bytes fed, the thread's error state.\<close>

type_synonym 's driven = "'s ktls_exchange \<times> bytes \<times> bytes \<times> thread_err"

fun do_op :: "'s tls_lib \<Rightarrow> kernel_abi \<Rightarrow> exchange_op \<Rightarrow> 's driven \<Rightarrow> 's driven" where
  "do_op lib abi (Feed bs) (x, T, F, t) =
     (case ktls_exchange_feed lib bs x t of
        (Inr _, x', t') \<Rightarrow> (x', T, F @ bs, t')
      | (Inl _, x', t') \<Rightarrow> (x', T, F, t'))"
| "do_op lib abi (Take cap) (x, T, F, t) =
     (case ktls_exchange_take lib cap x t of
        (Inr out, x', t') \<Rightarrow> (x', T @ out, F, t')
      | (Inl _, x', t') \<Rightarrow> (x', T, F, t'))"
| "do_op lib abi Step (x, T, F, t) =
     (case ktls_exchange_step lib abi x t of (_, x', t') \<Rightarrow> (x', T, F, t'))"
| "do_op lib abi (Backlog cap) (x, T, F, t) =
     (case ktls_exchange_backlog lib cap x t of (_, x', t') \<Rightarrow> (x', T, F, t'))"
| "do_op lib abi (CryptoInfo dir) (x, T, F, t) =
     (case ktls_crypto_info lib x dir t of (_, x', t') \<Rightarrow> (x', T, F, t'))"
| "do_op lib abi (NextKey dir) (x, T, F, t) =
     (case ktls_next_key lib abi x dir t of (_, x', t') \<Rightarrow> (x', T, F, t'))"
| "do_op lib abi Release (x, T, F, t) =
     (case ktls_exchange_release (Some x) of None \<Rightarrow> (x, T, F, t) | Some x' \<Rightarrow> (x', T, F, t))"

text \<open>Does an operation that must not fail on a connection in use succeed?\<close>

fun op_ok :: "'s tls_lib \<Rightarrow> kernel_abi \<Rightarrow> exchange_op \<Rightarrow> 's driven \<Rightarrow> bool" where
  "op_ok lib abi (Feed bs) (x, T, F, t) = (\<not> isl (fst (ktls_exchange_feed lib bs x t)))"
| "op_ok lib abi (Take cap) (x, T, F, t) = (\<not> isl (fst (ktls_exchange_take lib cap x t)))"
| "op_ok lib abi (NextKey dir) (x, T, F, t) = (\<not> isl (fst (ktls_next_key lib abi x dir t)))"
| "op_ok lib abi _ _ = True"

fun run_ops :: "'s tls_lib \<Rightarrow> kernel_abi \<Rightarrow> exchange_op list \<Rightarrow> 's driven \<Rightarrow> 's driven" where
  "run_ops lib abi [] st = st"
| "run_ops lib abi (p # ps) st = run_ops lib abi ps (do_op lib abi p st)"

fun ops_ok :: "'s tls_lib \<Rightarrow> kernel_abi \<Rightarrow> exchange_op list \<Rightarrow> 's driven \<Rightarrow> bool" where
  "ops_ok lib abi [] st = True"
| "ops_ok lib abi (p # ps) st \<longleftrightarrow> op_ok lib abi p st \<and> ops_ok lib abi ps (do_op lib abi p st)"

lemma session_do_op:
  assumes "session lib abi x T F" "do_op lib abi p (x, T, F, t) = (x', T', F', t')"
  shows "session lib abi x' T' F'"
  using assms
  by (cases p) (auto split: prod.splits sum.splits option.splits intro: session.intros)

lemma session_run:
  "session lib abi x T F \<Longrightarrow> run_ops lib abi ps (x, T, F, t) = (x', T', F', t') \<Longrightarrow>
     session lib abi x' T' F'"
proof (induction ps arbitrary: x T F t)
  case Nil
  then show ?case by simp
next
  case (Cons p ps)
  obtain x1 T1 F1 t1 where d: "do_op lib abi p (x, T, F, t) = (x1, T1, F1, t1)"
    by (cases "do_op lib abi p (x, T, F, t)") auto
  with Cons session_do_op [OF Cons.prems(1) d] show ?case by simp
qed

lemma Inr_of_not_isl: "\<not> isl r \<Longrightarrow> (\<And>u. r = Inr u \<Longrightarrow> P) \<Longrightarrow> P"
  by (cases r) simp_all

lemma live_do_op:
  assumes "live lib abi x T F" "op_ok lib abi p (x, T, F, t)"
    "do_op lib abi p (x, T, F, t) = (x', T', F', t')"
  shows "live lib abi x' T' F'"
  using assms
  by (cases p) (auto split: prod.splits sum.splits option.splits intro: live.intros
      elim!: Inr_of_not_isl)

lemma live_run:
  "live lib abi x T F \<Longrightarrow> ops_ok lib abi ps (x, T, F, t) \<Longrightarrow>
     run_ops lib abi ps (x, T, F, t) = (x', T', F', t') \<Longrightarrow> live lib abi x' T' F'"
proof (induction ps arbitrary: x T F t)
  case Nil
  then show ?case by simp
next
  case (Cons p ps)
  obtain x1 T1 F1 t1 where d: "do_op lib abi p (x, T, F, t) = (x1, T1, F1, t1)"
    by (cases "do_op lib abi p (x, T, F, t)") auto
  have ok: "op_ok lib abi p (x, T, F, t)" "ops_ok lib abi ps (x1, T1, F1, t1)"
    using Cons.prems(2) d by simp_all
  have "run_ops lib abi ps (x1, T1, F1, t1) = (x', T', F', t')" using Cons.prems(3) d by simp
  then show ?case by (rule Cons.IH [OF live_do_op [OF Cons.prems(1) ok(1) d] ok(2)])
qed

lemma run_ops_append: "run_ops lib abi (ps @ qs) st = run_ops lib abi qs (run_ops lib abi ps st)"
  by (induction ps arbitrary: st) simp_all

text \<open>From a new exchange to any later point, and through the step that ends the handshake.\<close>

lemma driven_session:
  assumes "fst (ktls_exchange_open lib (ssl_new :: nat \<Rightarrow> 's option) a b c keys role t0) = Inr x0"
    "run_ops lib abi ps (x0, [], [], t) = (x, T, F, t')"
  shows "session lib abi x T F"
  using session_run [OF session.opened [OF assms(1)] assms(2)] .

text \<open>Handshake with \<open>ps\<close>, finish with a step, then use with \<open>qs\<close>: what has to be checked.\<close>

definition goes_live ::
    "'s tls_lib \<Rightarrow> kernel_abi \<Rightarrow> exchange_op list \<Rightarrow> exchange_op list \<Rightarrow> 's driven \<Rightarrow> bool" where
  "goes_live lib abi ps qs st =
     (case run_ops lib abi ps st of (x, T, F, t) \<Rightarrow>
        \<not> x_done x \<and> (case ktls_exchange_step lib abi x t of (r, x1, t1) \<Rightarrow>
          \<not> isl r \<and> x_done x1 \<and> ops_ok lib abi qs (x1, T, F, t1)))"

lemma driven_live:
  assumes "fst (ktls_exchange_open lib (ssl_new :: nat \<Rightarrow> 's option) a b c keys role t0) = Inr x0"
    "goes_live lib abi ps qs (x0, [], [], t)"
    "run_ops lib abi (ps @ Step # qs) (x0, [], [], t) = (x', T', F', t')"
  shows "live lib abi x' T' F'"
proof -
  obtain x T F t1 where pre: "run_ops lib abi ps (x0, [], [], t) = (x, T, F, t1)"
    by (cases "run_ops lib abi ps (x0, [], [], t)") auto
  obtain r x1 t2 where step: "ktls_exchange_step lib abi x t1 = (r, x1, t2)"
    by (cases "ktls_exchange_step lib abi x t1") auto
  have ok: "\<not> x_done x" "\<not> isl r" "x_done x1" "ops_ok lib abi qs (x1, T, F, t2)"
    using assms(2) pre step by (simp_all add: goes_live_def)
  obtain a where "r = Inr a" using ok(2) by (rule Inr_of_not_isl)
  with step ok(1,3) driven_session [OF assms(1) pre] have "live lib abi x1 T F"
    by (blast intro: live.finished)
  moreover have "run_ops lib abi qs (x1, T, F, t2) = (x', T', F', t')"
    using assms(3) pre step by (simp add: run_ops_append)
  ultimately show ?thesis by (rule live_run [OF _ ok(4)])
qed

end
