(* ===== verification/Ktls_Instance.thy ===== *)
theory Ktls_Instance
  imports Ktls_Drive
begin

text \<open>
  A stand-in for OpenSSL on which the properties are evaluated: a handshake of one flight
  each way and a ticket, whose two ends log the same two secrets. An SSL object is a
  number, the state the handshake is in.
\<close>

definition demo_record :: "u8 \<Rightarrow> bytes \<Rightarrow> bytes" where
  "demo_record type body = [type, 3, 3, 0, of_nat (length body)] @ body"

definition demo_lines :: "string list" where
  "demo_lines = [''CLIENT_TRAFFIC_SECRET_0 c1 0a0b'', ''SERVER_TRAFFIC_SECRET_0 c1 1a1b1c'']"

definition demo_io :: "int \<Rightarrow> nat \<Rightarrow> bytes \<Rightarrow> bytes \<Rightarrow> string list \<Rightarrow> nat list \<Rightarrow> nat ssl_io" where
  "demo_io rc s i u ls q = \<lparr> io_rc = rc, io_ssl = s, io_in = i, io_out = u, io_lines = ls,
     io_queue = q, io_data = [] \<rparr>"

text \<open>
  1 and 2 are a server and a client that have done nothing yet, 3 a client that sent its
  hello, 5 a server that answered it; 4 and 6 are the two with the handshake behind them.
\<close>

definition demo_handshake :: "nat \<Rightarrow> bytes \<Rightarrow> bytes \<Rightarrow> nat list \<Rightarrow> nat ssl_io" where
  "demo_handshake s i u q =
     (if s = 2 then demo_io (-1) 3 i (u @ demo_record 22 [1]) [] q
      else if i = [] then demo_io (-1) s i u [] q
      else if s = 1 then demo_io (-1) 5 [] (u @ demo_record 22 [2, 20]) [] q
      else if s = 3 then demo_io 1 4 [] (u @ demo_record 22 [20]) demo_lines q
      else demo_io 1 6 [] (u @ demo_record 23 [9, 9, 9]) demo_lines q)"

definition demo_lib :: "nat tls_lib" where
  "demo_lib = \<lparr> err_string_n = (\<lambda>e n. ''error''), strerror = (\<lambda>e. ''errno''), fail_codes = (\<lambda>_. []),
     bio_write_ret = (\<lambda>_ n. n), bio_read_ret = (\<lambda>p n. min n (int (length p))),
     bio_pending_null = 0,
     ssl_set_state = (\<lambda>role s. case role of KTLS_SERVER \<Rightarrow> 1 | KTLS_CLIENT \<Rightarrow> 2),
     ssl_do_handshake = demo_handshake,
     ssl_read = (\<lambda>s i u n q. demo_io (-1) s [] u [] q),
     ssl_get_error = (\<lambda>_ _ _. SSL_ERROR_WANT_READ),
     ssl_is_server = (\<lambda>s. s \<in> {1, 5, 6}),
     ssl_cipher_name = (\<lambda>_. Some ''TLS_AES_128_GCM_SHA256''),
     ssl_alpn_selected = (\<lambda>_. Some [104, 50]),
     kdf = (\<lambda>secret label n. KdfBytes (\<lambda>i. of_nat i + of_nat (length label) + foldr (+) secret 0)) \<rparr>"

definition demo_abi :: kernel_abi where
  "demo_abi = \<lparr> TLS_1_3_VERSION = 0x304, TLS_CIPHER_AES_GCM_128 = 51,
     TLS_CIPHER_CHACHA20_POLY1305 = 54, SOL_TLS = 282, TLS_TX = 1, TLS_RX = 2,
     TLS_GET_RECORD_TYPE = 2, TLS_SET_RECORD_TYPE = 1 \<rparr>"

definition demo_open :: "ktls_role \<Rightarrow> nat ktls_exchange" where
  "demo_open role = exchange_zero\<lparr> x_ssl := Some (ssl_set_state demo_lib role 0),
     x_in := Some [], x_out := Some [] \<rparr>"

lemma demo_opened:
  "fst (ktls_exchange_open demo_lib (\<lambda>k :: nat. Some 0) True True True (Some 0) role t) =
     Inr (demo_open role)"
  by (simp add: ktls_exchange_open_def demo_open_def)

definition server_hello :: "exchange_op list" where
  "server_hello = [Feed (demo_record 22 [1]), Step, Take 100, Feed (demo_record 22 [20])]"

definition client_hello :: "exchange_op list" where
  "client_hello = [Step, Take 100, Feed (demo_record 22 [2, 20])]"

text \<open>
  The server after the ticket was taken; the client after the ticket was fed to it and
  before it was read, and after.
\<close>

definition demo_server :: "nat driven" where
  "demo_server = run_ops demo_lib demo_abi (server_hello @ Step # [Take 4096])
     (demo_open KTLS_SERVER, [], [], thread_err_zero)"

definition client_use :: "exchange_op list" where
  "client_use = [Take 100, Feed (take 3 (demo_record 23 [9, 9, 9])),
     Feed (drop 3 (demo_record 23 [9, 9, 9]))]"

definition demo_client :: "nat driven" where
  "demo_client = run_ops demo_lib demo_abi (client_hello @ Step # client_use @ [Backlog 100])
     (demo_open KTLS_CLIENT, [], [], thread_err_zero)"

definition sx :: "nat ktls_exchange" where "sx = fst demo_server"
definition cx :: "nat ktls_exchange" where "cx = fst demo_client"

definition server_sent :: bytes where
  "server_sent = wires [(22, 3, 3, [2, 20]), (23, 3, 3, [9, 9, 9])]"

definition client_sent :: bytes where
  "client_sent = wires [(22, 3, 3, [1]), (22, 3, 3, [20])]"

text \<open>What the two ends hold, evaluated once each.\<close>

lemma demo_server_end:
  "case demo_server of (x, T, F, t) \<Rightarrow>
     T = server_sent \<and> F = client_sent \<and> x_ssl x = Some 6 \<and> x_in x = Some [] \<and> x_out x = Some [] \<and>
     x_done x \<and> x_server x \<and> x_cipher x = KTLS_AES_GCM_128 \<and> x_tx_at_done x = 7 \<and>
     \<not> r_overflowed (x_tx x) \<and> \<not> r_overflowed (x_rx x) \<and>
     \<not> x_rekeyed x ServerSlot \<and> slot_secret x ServerSlot = [26, 27, 28] \<and>
     x_secret_len x ServerSlot = 3 \<and>
     \<not> isl (fst (ktls_crypto_info demo_lib x KTLS_TX thread_err_zero)) \<and>
     \<not> isl (fst (ktls_crypto_info demo_lib x KTLS_RX thread_err_zero)) \<and>
     (case ktls_next_key demo_lib demo_abi x KTLS_TX thread_err_zero of (r, x', t') \<Rightarrow>
        \<not> isl r \<and> \<not> isl (fst (ktls_crypto_info demo_lib x' KTLS_TX thread_err_zero)))"
  by code_simp

lemma demo_client_end:
  "case demo_client of (x, T, F, t) \<Rightarrow>
     T = client_sent \<and> F = server_sent \<and> x_ssl x = Some 4 \<and> x_in x = Some [] \<and> x_out x = Some [] \<and>
     x_done x \<and> \<not> x_server x \<and> x_cipher x = KTLS_AES_GCM_128 \<and> x_rx_at_done x = 7 \<and>
     \<not> r_overflowed (x_tx x) \<and> \<not> r_overflowed (x_rx x) \<and>
     \<not> x_rekeyed x ServerSlot \<and> slot_secret x ServerSlot = [26, 27, 28] \<and>
     \<not> isl (fst (ktls_crypto_info demo_lib x KTLS_RX thread_err_zero)) \<and>
     (case ktls_next_key demo_lib demo_abi x KTLS_RX thread_err_zero of (r, x', t') \<Rightarrow>
        \<not> isl r \<and> \<not> isl (fst (ktls_crypto_info demo_lib x' KTLS_RX thread_err_zero)))"
  by code_simp

lemma demo_server_facts:
  "x_ssl sx = Some 6" "x_in sx = Some []" "x_out sx = Some []" "x_done sx" "x_server sx"
  "x_cipher sx = KTLS_AES_GCM_128" "x_tx_at_done sx = 7"
  "\<not> r_overflowed (x_tx sx)" "\<not> r_overflowed (x_rx sx)" "\<not> x_rekeyed sx ServerSlot"
  "slot_secret sx ServerSlot = [26, 27, 28]" "x_secret_len sx ServerSlot = 3"
  "\<not> isl (fst (ktls_crypto_info demo_lib sx KTLS_TX thread_err_zero))"
  "\<not> isl (fst (ktls_crypto_info demo_lib sx KTLS_RX thread_err_zero))"
  "case ktls_next_key demo_lib demo_abi sx KTLS_TX thread_err_zero of (r, x', t') \<Rightarrow>
     \<not> isl r \<and> \<not> isl (fst (ktls_crypto_info demo_lib x' KTLS_TX thread_err_zero))"
  "fst (snd demo_server) = server_sent" "fst (snd (snd demo_server)) = client_sent"
  using demo_server_end unfolding sx_def case_prod_beta fst_conv by blast+

lemma demo_client_facts:
  "x_ssl cx = Some 4" "x_in cx = Some []" "x_out cx = Some []" "x_done cx" "\<not> x_server cx"
  "x_cipher cx = KTLS_AES_GCM_128" "x_rx_at_done cx = 7"
  "\<not> r_overflowed (x_tx cx)" "\<not> r_overflowed (x_rx cx)" "\<not> x_rekeyed cx ServerSlot"
  "slot_secret cx ServerSlot = [26, 27, 28]"
  "\<not> isl (fst (ktls_crypto_info demo_lib cx KTLS_RX thread_err_zero))"
  "case ktls_next_key demo_lib demo_abi cx KTLS_RX thread_err_zero of (r, x', t') \<Rightarrow>
     \<not> isl r \<and> \<not> isl (fst (ktls_crypto_info demo_lib x' KTLS_RX thread_err_zero))"
  "fst (snd demo_client) = client_sent" "fst (snd (snd demo_client)) = server_sent"
  using demo_client_end unfolding cx_def case_prod_beta fst_conv by blast+

declare slot_of.simps [simp]

lemma demo_server_live: "live demo_lib demo_abi sx server_sent client_sent"
proof -
  have "goes_live demo_lib demo_abi server_hello [Take 4096]
      (demo_open KTLS_SERVER, [], [], thread_err_zero)" by code_simp
  from driven_live [OF demo_opened this] demo_server_facts(16,17) show ?thesis
    unfolding sx_def demo_server_def [symmetric] by (metis prod.collapse)
qed

lemma demo_client_live: "live demo_lib demo_abi cx client_sent server_sent"
proof -
  have "goes_live demo_lib demo_abi client_hello (client_use @ [Backlog 100])
      (demo_open KTLS_CLIENT, [], [], thread_err_zero)" by code_simp
  from driven_live [OF demo_opened this] demo_client_facts(14,15) show ?thesis
    unfolding cx_def demo_client_def [symmetric] by (metis prod.collapse)
qed

lemma demo_quiet: "quiet_reads demo_lib"
  by (simp add: quiet_reads_def demo_lib_def demo_io_def)

end
