(* ===== verification/Ktls_Evidence.thy ===== *)
theory Ktls_Evidence
  imports Ktls_Instance
begin

text \<open>
  The properties of exchanges at concrete inputs: each theorem applied to the two ends of the
  connection of Ktls_Instance, with every hypothesis discharged by evaluation.
\<close>

lemma answered_Inr:
  "\<not> isl (fst f) \<Longrightarrow> \<exists>p q s t. f = (Inr (p, q), s, t)" for f :: "('e + 'p \<times> 'q) \<times> 's \<times> 't"
  by (cases f; cases "fst f") auto

lemma server_tx: "\<exists>ci n x' t'. ktls_crypto_info demo_lib sx KTLS_TX thread_err_zero = (Inr (ci, n), x', t')"
  by (rule answered_Inr) (rule demo_server_facts)

lemma client_rx: "\<exists>ci n x' t'. ktls_crypto_info demo_lib cx KTLS_RX thread_err_zero = (Inr (ci, n), x', t')"
  by (rule answered_Inr) (rule demo_client_facts)

lemma demo_sessions:
  "session demo_lib demo_abi sx server_sent client_sent"
  "session demo_lib demo_abi cx client_sent server_sent"
  using live_session [OF demo_server_live] live_session [OF demo_client_live] by simp_all

definition flight :: "wire list" where "flight = [(22, 3, 3, [2, 20])]"
definition ticket :: "wire list" where "ticket = [(23, 3, 3, [9, 9, 9])]"

lemma demo_records:
  "\<forall>v \<in> set (flight @ ticket). wire_ok v" "wire_ok (23, 3, 3, [])"
  "server_sent = wires (flight @ ticket)" "length server_sent = 15" "length client_sent = 12"
  by (simp_all add: flight_def ticket_def wire_ok_def server_sent_def client_sent_def
      wires_def wire_bytes_def)

lemma flight_size: "length (wires flight) = 7"
  by (simp add: flight_def wires_def wire_bytes_def)

theorem sequence_sent_witness:
  "\<exists>ci n x' t'. ktls_crypto_info demo_lib sx KTLS_TX thread_err_zero = (Inr (ci, n), x', t') \<and>
     be_nat (i_rec_seq ci) = 1"
proof -
  obtain ci n x' t' where
    e: "ktls_crypto_info demo_lib sx KTLS_TX thread_err_zero = (Inr (ci, n), x', t')"
    using server_tx by blast
  have "be_nat (i_rec_seq ci) = length ticket"
  proof (rule sequence_sent [OF demo_sessions(1), where hs = flight and k = 0 and w = "(23, 3, 3, [])"])
    show "x_tx_at_done sx = of_nat (length (wires flight))"
      by (simp add: demo_server_facts flight_size)
  qed (use e demo_records demo_server_facts in \<open>simp_all add: wire_bytes_def\<close>)
  with e show ?thesis by (auto simp: ticket_def)
qed

theorem sequence_received_witness:
  "\<exists>ci n x' t'. ktls_crypto_info demo_lib cx KTLS_RX thread_err_zero = (Inr (ci, n), x', t') \<and>
     be_nat (i_rec_seq ci) = 1"
proof -
  obtain ci n x' t' where
    e: "ktls_crypto_info demo_lib cx KTLS_RX thread_err_zero = (Inr (ci, n), x', t')"
    using client_rx by blast
  have "be_nat (i_rec_seq ci) = length ticket"
  proof (rule sequence_received [OF demo_sessions(2), where hs = flight and vs = "[]" and k = 0
        and w = "(23, 3, 3, [])" and pending = "[]" and j = 0])
    show "x_rx_at_done cx = of_nat (length (wires flight))"
      by (simp add: demo_client_facts flight_size)
    show "before_next [] 0" by code_simp
  qed (use e demo_records demo_client_facts in \<open>simp_all add: wire_bytes_def\<close>)
  with e show ?thesis by (auto simp: ticket_def)
qed

theorem blobs_agree_witness:
  "\<exists>a n s' t' c' u'. ktls_crypto_info demo_lib sx KTLS_TX thread_err_zero = (Inr (a, n), s', t') \<and>
     ktls_crypto_info demo_lib cx KTLS_RX thread_err_zero = (Inr (a, n), c', u')"
proof -
  obtain a n s' t' where
    e: "ktls_crypto_info demo_lib sx KTLS_TX thread_err_zero = (Inr (a, n), s', t')"
    using server_tx by blast
  obtain b m c' u' where
    f: "ktls_crypto_info demo_lib cx KTLS_RX thread_err_zero = (Inr (b, m), c', u')"
    using client_rx by blast
  have "a = b \<and> n = m"
  proof (rule blobs_agree [OF demo_server_live demo_client_live demo_quiet refl _ _ _ _ _ _ e f])
  qed (simp_all add: demo_server_facts demo_client_facts)
  with e f show ?thesis by auto
qed

lemma server_turn: "\<exists>u s1 t1 ci n s2 t2.
    ktls_next_key demo_lib demo_abi sx KTLS_TX thread_err_zero = (Inr u, s1, t1) \<and>
    ktls_crypto_info demo_lib s1 KTLS_TX thread_err_zero = (Inr (ci, n), s2, t2)"
proof -
  obtain r s1 t1 where k: "ktls_next_key demo_lib demo_abi sx KTLS_TX thread_err_zero = (r, s1, t1)"
    by (cases "ktls_next_key demo_lib demo_abi sx KTLS_TX thread_err_zero") auto
  with demo_server_facts(15) obtain u where "r = Inr u"
    "\<not> isl (fst (ktls_crypto_info demo_lib s1 KTLS_TX thread_err_zero))" by (cases r) auto
  with k show ?thesis using answered_Inr by blast
qed

lemma client_turn: "\<exists>u c1 t1 ci n c2 t2.
    ktls_next_key demo_lib demo_abi cx KTLS_RX thread_err_zero = (Inr u, c1, t1) \<and>
    ktls_crypto_info demo_lib c1 KTLS_RX thread_err_zero = (Inr (ci, n), c2, t2)"
proof -
  obtain r c1 t1 where k: "ktls_next_key demo_lib demo_abi cx KTLS_RX thread_err_zero = (r, c1, t1)"
    by (cases "ktls_next_key demo_lib demo_abi cx KTLS_RX thread_err_zero") auto
  with demo_client_facts(13) obtain u where "r = Inr u"
    "\<not> isl (fst (ktls_crypto_info demo_lib c1 KTLS_RX thread_err_zero))" by (cases r) auto
  with k show ?thesis using answered_Inr by blast
qed

theorem rekey_agrees_witness:
  "\<exists>s1 t1 c1 t2 a n s2 t3 c2 t4.
     ktls_next_key demo_lib demo_abi sx KTLS_TX thread_err_zero = (Inr (), s1, t1) \<and>
     ktls_next_key demo_lib demo_abi cx KTLS_RX thread_err_zero = (Inr (), c1, t2) \<and>
     ktls_crypto_info demo_lib s1 KTLS_TX thread_err_zero = (Inr (a, n), s2, t3) \<and>
     ktls_crypto_info demo_lib c1 KTLS_RX thread_err_zero = (Inr (a, n), c2, t4) \<and>
     be_nat (i_rec_seq a) = 0"
proof -
  obtain u s1 t1 a n s2 t3 where
    s: "ktls_next_key demo_lib demo_abi sx KTLS_TX thread_err_zero = (Inr u, s1, t1)"
      "ktls_crypto_info demo_lib s1 KTLS_TX thread_err_zero = (Inr (a, n), s2, t3)"
    using server_turn by blast
  obtain v c1 t2 b m c2 t4 where
    c: "ktls_next_key demo_lib demo_abi cx KTLS_RX thread_err_zero = (Inr v, c1, t2)"
      "ktls_crypto_info demo_lib c1 KTLS_RX thread_err_zero = (Inr (b, m), c2, t4)"
    using client_turn by blast
  have "a = b \<and> n = m \<and> be_nat (i_rec_seq a) = 0 \<and>
      slot_secret s1 (slot_of KTLS_TX (x_server sx)) = slot_secret c1 (slot_of KTLS_TX (x_server sx))"
    by (rule rekey_agrees [OF demo_server_live demo_client_live demo_quiet _ _ _ s(1) c(1) s(2) c(2)])
      (simp_all add: demo_server_facts demo_client_facts)
  with s c show ?thesis by auto
qed

theorem blob_from_secret_witness:
  "\<exists>ci n x' t'. ktls_crypto_info demo_lib sx KTLS_TX thread_err_zero = (Inr (ci, n), x', t') \<and>
     ktls_expand demo_lib [26, 27, 28] ''key'' 16 = Inr (i_key ci)"
proof -
  obtain ci n x' t' where
    e: "ktls_crypto_info demo_lib sx KTLS_TX thread_err_zero = (Inr (ci, n), x', t')"
    using server_tx by blast
  with blob_from_secret [OF demo_server_live demo_quiet e] show ?thesis
    by (auto simp: demo_server_facts key_length_def)
qed

theorem next_key_one_notch_witness:
  "\<exists>x' t'. ktls_next_key demo_lib demo_abi sx KTLS_TX thread_err_zero = (Inr (), x', t') \<and>
     ktls_expand demo_lib [26, 27, 28] ''traffic upd'' 3 = Inr (slot_secret x' ServerSlot) \<and>
     slot_secret x' ClientSlot = slot_secret sx ClientSlot"
proof -
  obtain u s1 t1 where
    e: "ktls_next_key demo_lib demo_abi sx KTLS_TX thread_err_zero = (Inr u, s1, t1)"
    using server_turn by blast
  have "exchange_wf sx" using live_facts [OF demo_server_live] by simp
  from next_key_one_notch [OF this e, of KTLS_RX] e show ?thesis
    by (simp add: demo_server_facts eval_nat_numeral)
qed

theorem session_state_witness:
  "x_rx sx = foldl scan_byte records_zero client_sent \<and> x_rx_fed sx = 12"
  using session_state [OF demo_sessions(1)] demo_records by simp

theorem done_means_blobs_witness:
  "\<exists>ci. fst (ktls_crypto_info demo_lib sx KTLS_RX thread_err_zero) = Inr (ci, 40)"
proof -
  have "ktls_exchange_step demo_lib demo_abi sx thread_err_zero = (Inr KTLS_DONE, sx, thread_err_zero)"
    by (simp add: ktls_exchange_step_def demo_server_facts step_answer_def bio_pending_def)
  from done_means_blobs [OF demo_sessions(1) this] show ?thesis
    by (simp add: demo_server_facts)
qed

theorem release_keeps_answers_witness:
  "\<exists>x'. ktls_exchange_release (Some cx) = Some x' \<and> x_ssl x' = None \<and>
     fst (ktls_crypto_info demo_lib x' KTLS_RX thread_err_zero) =
     fst (ktls_crypto_info demo_lib cx KTLS_RX thread_err_zero)"
proof -
  have rel: "ktls_exchange_release (Some cx) = Some (cx\<lparr> x_ssl := None, x_in := None, x_out := None \<rparr>)"
    by (simp add: ktls_exchange_release_def demo_client_facts)
  have null: "bio_pending_null demo_lib \<in> {-1, 0}" by (simp add: demo_lib_def)
  have "length server_sent < 2 ^ 64 - 1" unfolding demo_records(4) by simp
  from release_keeps_answers [OF demo_client_live demo_client_facts(2,3) null this rel] rel
  show ?thesis by simp
qed

theorem feed_hands_over_witness:
  "\<exists>x'. ktls_exchange_feed demo_lib [1, 2] sx thread_err_zero = (Inr (), x', thread_err_zero) \<and>
     x_in x' = Some [1, 2]"
proof -
  have "exchange_wf sx" using live_facts [OF demo_server_live] by simp
  from feed_hands_over [OF this, of "[1, 2]" demo_lib thread_err_zero] show ?thesis
    by (auto simp: demo_server_facts demo_lib_def bio_bytes_def)
qed

theorem feed_truncates_witness:
  "\<exists>x'. ktls_exchange_feed demo_lib (replicate (2 ^ 32 + 1) 7) sx thread_err_zero =
       (Inr (), x', thread_err_zero) \<and> x_in x' = Some [7]"
proof -
  have pos: "take 1 (replicate (2 ^ 32 + 1) (7 :: u8)) = [7]"
    unfolding take_replicate by simp
  have len: "length (replicate (2 ^ 32 + 1) (7 :: u8)) = 2 ^ 32 + 1" by (rule length_replicate)
  have bio: "0 \<le> n \<Longrightarrow> bio_write_ret demo_lib p n = n" for p n by (simp add: demo_lib_def)
  obtain x' where
    "ktls_exchange_feed demo_lib (replicate (2 ^ 32 + 1) 7) sx thread_err_zero = (Inr (), x', thread_err_zero)"
    "x_in x' = Some (bio_bytes (x_in sx) @ take 1 (replicate (2 ^ 32 + 1) 7))"
    using feed_truncates [OF _ len _ _ bio, of sx thread_err_zero] demo_server_facts(1) by auto
  then show ?thesis unfolding pos by (auto simp: demo_server_facts bio_bytes_def)
qed

theorem keylog_stores_witness:
  "slot_secret (ktls_keylog (keylog_line ClientSlot ''c1'' [171, 5]) sx) ClientSlot = [171, 5] \<and>
   slot_secret (ktls_keylog (keylog_line ClientSlot ''c1'' [171, 5]) sx) ServerSlot = [26, 27, 28]"
proof -
  have "exchange_wf sx" using live_facts [OF demo_server_live] by simp
  from keylog_stores [OF this, of "[171, 5]" "''c1''" ClientSlot ServerSlot] show ?thesis
    by (simp add: demo_server_facts)
qed

theorem crypto_info_repeatable_witness:
  "\<exists>p x' t'. ktls_crypto_info demo_lib sx KTLS_TX thread_err_zero = (Inr p, x', t') \<and>
     fst (ktls_crypto_info demo_lib x' KTLS_TX thread_err_zero) = Inr p"
proof -
  obtain ci n x' t' where
    e: "ktls_crypto_info demo_lib sx KTLS_TX thread_err_zero = (Inr (ci, n), x', t')"
    using server_tx by blast
  have "exchange_wf sx" using live_facts [OF demo_server_live] by simp
  from crypto_info_repeatable [OF this e] e show ?thesis by auto
qed

text \<open>The server just before the step that ends its handshake.\<close>

definition sx_before :: "nat driven" where
  "sx_before = run_ops demo_lib demo_abi server_hello (demo_open KTLS_SERVER, [], [], thread_err_zero)"

lemma before_end:
  "case sx_before of (x, T, F, t) \<Rightarrow>
     T = wires flight \<and> F = client_sent \<and> \<not> x_done x \<and>
     (case ktls_exchange_step demo_lib demo_abi x t of (r, x', t') \<Rightarrow>
        x_done x' \<and> x_server x' \<and> x_in x' = Some [])"
  by code_simp

theorem handshake_boundary_witness:
  "\<exists>x F t r x' t'. session demo_lib demo_abi x (wires flight) F \<and>
     ktls_exchange_step demo_lib demo_abi x t = (r, x', t') \<and> x_tx_at_done x' = 7 \<and>
     x_rx_at_done x' = of_nat (length F)"
proof -
  obtain x T F t where b: "sx_before = (x, T, F, t)" by (cases sx_before) auto
  have T: "T = wires flight" "\<not> x_done x" using before_end by (simp_all add: b)
  obtain r x' t' where s: "ktls_exchange_step demo_lib demo_abi x t = (r, x', t')"
    by (cases "ktls_exchange_step demo_lib demo_abi x t") auto
  have e: "x_done x'" "x_server x'" "x_in x' = Some []" using before_end by (simp_all add: b s)
  have ses: "session demo_lib demo_abi x T F"
    by (rule driven_session [OF demo_opened b [unfolded sx_before_def]])
  have "x_tx_at_done x' = 7 \<and> x_rx_at_done x' = of_nat (length F)"
    using handshake_boundary [OF ses T(2) s e(1)] e T(1) by (simp add: bio_bytes_def flight_size)
  with ses [unfolded T(1)] s show ?thesis by blast
qed

theorem take_in_order_witness:
  "\<exists>out x' t'. ktls_exchange_take demo_lib 2 (sx\<lparr> x_out := Some [4, 5, 6] \<rparr>) thread_err_zero =
       (Inr out, x', t') \<and> out @ bio_bytes (x_out x') = [4, 5, 6] \<and> length out = 2"
proof -
  let ?x = "sx\<lparr> x_out := Some [4, 5, 6] \<rparr>"
  have "ktls_exchange_take demo_lib 2 ?x thread_err_zero =
      (Inr [4, 5], ?x\<lparr> x_out := Some [6], x_tx := ktls_scan (x_tx ?x) [4, 5] \<rparr>, thread_err_zero)"
    by (simp add: ktls_exchange_take_def demo_server_facts demo_lib_def bio_bytes_def Let_def)
  from take_in_order [OF this] this show ?thesis by (auto simp: bio_bytes_def)
qed

lemma server_both: "\<exists>txi n x1 t1 rxi m x2 t2.
    ktls_crypto_info demo_lib sx KTLS_TX thread_err_zero = (Inr (txi, n), x1, t1) \<and>
    ktls_crypto_info demo_lib x1 KTLS_RX t1 = (Inr (rxi, m), x2, t2)"
proof -
  obtain txi n x1 t1 where
    e: "ktls_crypto_info demo_lib sx KTLS_TX thread_err_zero = (Inr (txi, n), x1, t1)"
    using server_tx by blast
  have "x_done x1 \<and> x_out x1 = x_out sx \<and> x_tx x1 = x_tx sx \<and> x_rx x1 = x_rx sx"
    using e by (cases rule: ktls_crypto_info_cases) simp_all
  then have "\<not> isl (fst (ktls_crypto_info demo_lib x1 KTLS_RX t1))"
    by (simp add: ktls_crypto_info_def Let_def demo_server_facts bio_pending_def)
  with e answered_Inr show ?thesis by blast
qed

text \<open>A kernel that takes everything, and one that refuses the receiving side.\<close>

definition willing :: kernel where "willing = (\<lambda>call. 0)"

definition sends_only :: kernel where
  "sends_only = (\<lambda>call. case call of SetTls fd level name i n \<Rightarrow> if name = 2 then 22 else 0 | _ \<Rightarrow> 0)"

theorem offload_order_witness:
  "\<exists>x' t' calls. ktls_offload demo_lib demo_abi True willing sx 5 thread_err_zero =
       (Inr (), x', t', calls) \<and> length calls = 3 \<and> hd calls = AttachUlp 5"
proof -
  obtain txi n x1 t1 rxi m x2 t2 where
    "ktls_crypto_info demo_lib sx KTLS_TX thread_err_zero = (Inr (txi, n), x1, t1)"
    "ktls_crypto_info demo_lib x1 KTLS_RX t1 = (Inr (rxi, m), x2, t2)" using server_both by blast
  then obtain calls where
    o: "ktls_offload demo_lib demo_abi True willing sx 5 thread_err_zero = (Inr (), x2, t2, calls)"
    "hd calls = AttachUlp 5"
    by (simp add: ktls_offload_def ktls_attach_ulp_def ktls_optname_def Let_def willing_def
        demo_abi_def)
  from offload_order [OF o(1)] o show ?thesis by auto
qed

theorem offload_can_leave_half_witness:
  "\<exists>x' t' call. ktls_offload demo_lib demo_abi True sends_only sx 5 thread_err_zero =
     (Inl (Fail ''setsockopt(TLS_RX)''), x', t', [AttachUlp 5, call])"
proof -
  obtain txi n x1 t1 rxi m x2 t2 where
    b: "ktls_crypto_info demo_lib sx KTLS_TX thread_err_zero = (Inr (txi, n), x1, t1)"
    "ktls_crypto_info demo_lib x1 KTLS_RX t1 = (Inr (rxi, m), x2, t2)" using server_both by blast
  show ?thesis
    using offload_can_leave_half [OF b, of demo_abi sends_only 5]
    by (auto simp: sends_only_def demo_abi_def)
qed

text \<open>An OpenSSL that derives the next secret and then no key from it.\<close>

definition broken_lib :: "nat tls_lib" where
  "broken_lib = demo_lib\<lparr> kdf := \<lambda>secret label n. if label = ''key'' then KdfNoDerive else KdfBytes (\<lambda>i. 7) \<rparr>"

theorem failed_next_key_reuses_key_witness:
  "\<exists>r x' t' ci. ktls_next_key broken_lib demo_abi sx KTLS_TX thread_err_zero = (r, x', t') \<and> isl r \<and>
     slot_secret x' ServerSlot = [7, 7, 7] \<and>
     fst (ktls_crypto_info broken_lib x' KTLS_TX thread_err_zero) = Inr (ci, 40) \<and>
     i_key ci = i_key (x_info sx ServerSlot) \<and> be_nat (i_rec_seq ci) = 0"
proof -
  obtain r x' t' where
    k: "ktls_next_key broken_lib demo_abi sx KTLS_TX thread_err_zero = (r, x', t')"
    by (cases "ktls_next_key broken_lib demo_abi sx KTLS_TX thread_err_zero") auto
  have wf: "exchange_wf sx" using live_facts [OF demo_server_live] by simp
  have s: "slot_of KTLS_TX (x_server sx) = ServerSlot" by (simp add: demo_server_facts)
  have "ktls_expand broken_lib (slot_secret sx ServerSlot) ''traffic upd'' (x_secret_len sx ServerSlot) =
      Inr [7, 7, 7]"
    by (simp add: ktls_expand_def broken_lib_def demo_server_facts upt_rec)
  moreover have "ktls_expand broken_lib [7, 7, 7] ''key'' (key_length (x_cipher sx)) =
      Inl (Fail ''EVP_KDF_derive'')"
    by (simp add: ktls_expand_def broken_lib_def)
  ultimately show ?thesis
    using failed_next_key_reuses_key [OF wf demo_server_facts(4) _ demo_server_facts(8,9) _ _ k]
    by (auto simp: s k bio_pending_def demo_server_facts info_size_def)
qed

end
