(* ===== verification/Ktls_Probe.thy ===== *)
theory Ktls_Probe
  imports Ktls_Errors "HOL-Library.Sublist"
begin

text \<open>
  What the kernel can do, asked without changing it: the Linux branch of src/ktls.c from
  \<open>ktls_initialized\<close> to \<open>ktls_load_module\<close>. The machine is a parameter, the record
  \<open>machine\<close>: which paths exist, what they hold, how \<open>read\<close> cuts it, and what the socket
  calls of \<open>ktls_load_module\<close> answer.
\<close>

section \<open>The search for a name in a file\<close>

text \<open>
  The buffer has 4096 bytes; between two reads only the last \<open>strlen (want) - 1\<close> bytes are
  kept. A file that was opened is what is left of it to read, and a list of cuts: the most
  bytes each next \<open>read\<close> returns, of those asked for and there; 0 is a read that failed, and
  once the list is used up a read returns all it was asked for.
\<close>

type_synonym opened = "string \<times> nat list"

definition buf_size :: nat where
  "buf_size = 4096"

text \<open>The inner loop over \<open>buf[0 .. have - wlen]\<close>; \<open>buf\<close> is what is held, \<open>have\<close> its length.\<close>

definition buffer_names :: "string \<Rightarrow> string \<Rightarrow> bool" where
  "buffer_names want buf \<longleftrightarrow>
     length want \<le> length buf \<and>
     list_ex (\<lambda>i. buf ! i = want ! 0 \<and> take (length want) (drop i buf) = want)
       [0..<length buf - length want + 1]"

text \<open>\<open>read (fd, buf + held, sizeof (buf) - held)\<close>: how many bytes come.\<close>

definition read_len :: "nat \<Rightarrow> opened \<Rightarrow> nat" where
  "read_len room file =
     (case file of (rest, cuts) \<Rightarrow>
        (case cuts of [] \<Rightarrow> min room (length rest) | c # _ \<Rightarrow> min c (min room (length rest))))"

lemma read_len_le: "read_len room (rest, cuts) \<le> length rest"
  by (cases cuts) (simp_all add: read_len_def min_def)

text \<open>The outer loop: \<open>held\<close> is what was kept of the buffer.\<close>

function names_loop :: "string \<Rightarrow> string \<Rightarrow> opened \<Rightarrow> bool" where
  "names_loop want held (rest, cuts) =
     (let n = read_len (buf_size - length held) (rest, cuts)
      in if n = 0 then False
         else (let buf = held @ take n rest
               in if buffer_names want buf then True
                  else (let keep = (if length want - 1 < length buf then length want - 1 else length buf)
                        in names_loop want (drop (length buf - keep) buf) (drop n rest, tl cuts))))"
  by pat_completeness auto
termination
proof (relation "measure (\<lambda>(want, held, f). length (fst f))", goal_cases)
  case 1
  show ?case by simp
next
  case (2 want held rest cuts n buf keep)
  have "n \<le> length rest" unfolding 2(1) by (rule read_len_le)
  with 2(2) show ?case by simp
qed

declare names_loop.simps [simp del]

text \<open>\<open>None\<close>: the file cannot be opened.\<close>

definition ktls_file_names :: "opened option \<Rightarrow> string \<Rightarrow> bool" where
  "ktls_file_names file want = (case file of None \<Rightarrow> False | Some f \<Rightarrow> names_loop want [] f)"

section \<open>The questions\<close>

record machine =
  m_access :: "string \<Rightarrow> bool"              \<comment> \<open>\<open>access (path, F_OK) == 0\<close>\<close>
  m_release :: "string option"             \<comment> \<open>\<open>uname\<close>; \<open>None\<close> when it fails\<close>
  m_open :: "string \<Rightarrow> opened option"       \<comment> \<open>\<open>open\<close> and the reads after it\<close>
  m_socket :: "int \<times> int"                  \<comment> \<open>\<open>socket\<close>: the descriptor, \<open>errno\<close>\<close>
  m_set_ulp :: "int \<times> int"                 \<comment> \<open>\<open>setsockopt\<close>: the result, \<open>errno\<close>\<close>
  m_ENOTCONN :: int

definition ktls_initialized :: "machine \<Rightarrow> bool" where
  "ktls_initialized m = m_access m ''/proc/net/tls_stat''"

text \<open>\<open>char path[sizeof (u.release) + 64]\<close>, \<open>sizeof (u.release)\<close> being 65 on Linux.\<close>

definition module_path :: "string \<Rightarrow> string \<Rightarrow> string" where
  "module_path release file = snprintf_s 129 (''/lib/modules/'' @ release @ ''/'' @ file)"

definition ktls_available :: "machine \<Rightarrow> bool" where
  "ktls_available m =
     (if ktls_initialized m then True
      else (case m_release m of
              None \<Rightarrow> False
            | Some release \<Rightarrow>
                if ktls_file_names (m_open m (module_path release ''modules.dep'')) ''net/tls/tls.ko''
                then True
                else ktls_file_names (m_open m (module_path release ''modules.builtin''))
                       ''net/tls/tls.ko''))"

definition ktls_load_module :: "'z err_lib_scheme \<Rightarrow> machine \<Rightarrow> thread_err \<Rightarrow> (failure + unit) \<times> thread_err" where
  "ktls_load_module lib m t =
     (let (fd, e0) = m_socket m
      in if fd < 0 then (Inl (Fail ''socket''), syscall_failed lib e0 ''socket'' t)
         else (let (rc, e) = m_set_ulp m
               in if rc \<noteq> 0 \<and> e \<noteq> m_ENOTCONN m then
                    (Inl (Fail ''setsockopt(TCP_ULP, \"tls\")''),
                     syscall_failed lib e ''setsockopt(TCP_ULP, \"tls\")'' t)
                  else (Inr (), t)))"

section \<open>The search finds exactly what is there\<close>

lemma sublist_within: "sublist w b \<Longrightarrow> sublist w (a @ b @ c)"
  unfolding sublist_def by (metis append.assoc)

lemma buffer_names_sublist:
  assumes "want \<noteq> []"
  shows "buffer_names want buf \<longleftrightarrow> sublist want buf"
proof
  assume "buffer_names want buf"
  then obtain i where "take (length want) (drop i buf) = want"
    unfolding buffer_names_def list_ex_iff by blast
  then have "buf = take i buf @ want @ drop (length want) (drop i buf)"
    by (metis append_take_drop_id)
  then show "sublist want buf" unfolding sublist_def by blast
next
  assume "sublist want buf"
  then obtain ps ss where buf: "buf = ps @ want @ ss" by (auto simp: sublist_def)
  have "length ps \<in> set [0..<length buf - length want + 1]" by (simp add: buf)
  moreover have "buf ! length ps = want ! 0"
    using assms by (simp add: buf nth_append)
  moreover have "take (length want) (drop (length ps) buf) = want" by (simp add: buf)
  moreover have "length want \<le> length buf" by (simp add: buf)
  ultimately show "buffer_names want buf"
    unfolding buffer_names_def list_ex_iff by blast
qed

text \<open>Dropping all but the last \<open>length want - 1\<close> characters loses no occurrence to come.\<close>

lemma sublist_keep:
  assumes "want \<noteq> []" "\<not> sublist want buf"
  shows "sublist want (buf @ rest) \<longleftrightarrow> sublist want (drop (length buf - (length want - 1)) buf @ rest)"
proof
  let ?d = "length buf - (length want - 1)"
  have whole: "buf @ rest = take ?d buf @ (drop ?d buf @ rest)" by simp
  show "sublist want (drop ?d buf @ rest) \<Longrightarrow> sublist want (buf @ rest)"
    using sublist_within [of want _ "take ?d buf" "[]"] by (subst whole) simp
  assume "sublist want (buf @ rest)"
  then obtain ps ss where e: "buf @ rest = ps @ want @ ss" by (auto simp: sublist_def)
  have long: "length buf < length ps + length want"
  proof (rule ccontr)
    assume "\<not> length buf < length ps + length want"
    then have "buf = ps @ want @ take (length buf - length ps - length want) ss"
      using arg_cong [OF e, of "take (length buf)"] by simp
    with assms(2) show False unfolding sublist_def by blast
  qed
  then have "?d \<le> length ps" by simp
  then have "drop ?d (buf @ rest) = drop ?d ps @ want @ ss" using e by simp
  moreover have "drop ?d (buf @ rest) = drop ?d buf @ rest" by simp
  ultimately show "sublist want (drop ?d buf @ rest)" by (metis sublist_appendI)
qed

lemma names_loop_sublist:
  assumes "want \<noteq> []" "length want \<le> buf_size" "length held < length want" "\<not> sublist want held"
    "0 \<notin> set cuts"
  shows "names_loop want held (rest, cuts) \<longleftrightarrow> sublist want (held @ rest)"
  using assms(3-5)
proof (induction "length rest" arbitrary: held rest cuts rule: less_induct)
  case less
  define n where "n = read_len (buf_size - length held) (rest, cuts)"
  show ?case
  proof (cases "n = 0")
    case True
    have "buf_size - length held \<noteq> 0" using less.prems(1) assms(2) by simp
    then have "rest = []"
      using True less.prems(3) by (auto simp: n_def read_len_def min_def split: list.splits if_splits)
    with True less.prems(2) show ?thesis by (subst names_loop.simps) (simp add: n_def Let_def)
  next
    case False
    let ?buf = "held @ take n rest"
    have n_le: "n \<le> length rest" unfolding n_def by (rule read_len_le)
    have whole: "held @ rest = ?buf @ drop n rest" by simp
    show ?thesis
    proof (cases "sublist want ?buf")
      case True
      then have "sublist want (held @ rest)"
        unfolding whole using sublist_within [of want ?buf "[]" "drop n rest"] by simp
      with True False show ?thesis
        by (subst names_loop.simps) (simp add: n_def [symmetric] buffer_names_sublist [OF assms(1)] Let_def)
    next
      case absent: False
      define keep where
        "keep = (if length want - 1 < length ?buf then length want - 1 else length ?buf)"
      define kept where "kept = drop (length ?buf - keep) ?buf"
      have same: "kept = drop (length ?buf - (length want - 1)) ?buf"
        by (simp add: kept_def keep_def)
      have "length kept < length want" using assms(1) by (cases want) (auto simp: kept_def keep_def)
      moreover have "\<not> sublist want kept"
      proof
        assume "sublist want kept"
        then have "sublist want (take (length ?buf - keep) ?buf @ kept @ [])"
          by (rule sublist_within)
        then have "sublist want ?buf" by (simp only: kept_def append_Nil2 append_take_drop_id)
        with absent show False ..
      qed
      moreover have "0 \<notin> set (tl cuts)" using less.prems(3) by (cases cuts) auto
      moreover have "length (drop n rest) < length rest" using False n_le by simp
      ultimately have "names_loop want kept (drop n rest, tl cuts) \<longleftrightarrow>
          sublist want (kept @ drop n rest)"
        using less.hyps by blast
      also have "\<dots> \<longleftrightarrow> sublist want (held @ rest)"
        unfolding same whole by (rule sublist_keep [OF assms(1) absent, symmetric])
      finally have "names_loop want kept (drop n rest, tl cuts) \<longleftrightarrow> sublist want (held @ rest)" .
      moreover have "names_loop want held (rest, cuts) = names_loop want kept (drop n rest, tl cuts)"
        using False absent
        by (subst names_loop.simps)
          (simp only: n_def [symmetric] buffer_names_sublist [OF assms(1)] Let_def if_False
            kept_def keep_def)
      ultimately show ?thesis by simp
    qed
  qed
qed

section \<open>Properties\<close>

text \<open>
  C40: The search answers whether the name is anywhere in the file, however the reads cut the
  file: a name that straddles two reads is found, and bytes left in the buffer from before
  are never taken for one. The loop always ends.
\<close>

theorem file_names_found:
  assumes "want \<noteq> []" "length want \<le> 4096" "0 \<notin> set cuts"
  shows "ktls_file_names (Some (contents, cuts)) want \<longleftrightarrow>
    (\<exists>before after. contents = before @ want @ after)"
proof -
  have "names_loop want [] (contents, cuts) \<longleftrightarrow> sublist want ([] @ contents)"
    by (rule names_loop_sublist) (use assms in \<open>simp_all add: buf_size_def\<close>)
  then show ?thesis by (simp add: ktls_file_names_def sublist_def)
qed

theorem file_names_found_witness:
  "ktls_file_names (Some (''a/net/tls/tls.ko:'', [6, 3])) ''net/tls/tls.ko''"
proof -
  have "''a/net/tls/tls.ko:'' = ''a/'' @ ''net/tls/tls.ko'' @ '':''" by simp
  then show ?thesis
    by (subst file_names_found) (simp, simp, simp, blast)
qed

text \<open>
  kTLS is offered exactly when the module is loaded already, or the running kernel's list
  of modules or of built-in ones names net/tls/tls.ko; a release whose name fits in
  \<open>utsname\<close> is never cut in the path, and nothing is loaded by asking.
\<close>

theorem available_when_named:
  assumes "m_release m = Some release" "length release \<le> 64"
    and "m_open m (''/lib/modules/'' @ release @ ''/modules.dep'') = Some (deps, cuts1)" "0 \<notin> set cuts1"
    and "m_open m (''/lib/modules/'' @ release @ ''/modules.builtin'') = Some (builtins, cuts2)" "0 \<notin> set cuts2"
  shows "ktls_available m \<longleftrightarrow> m_access m ''/proc/net/tls_stat'' \<or>
    (\<exists>before after. deps = before @ ''net/tls/tls.ko'' @ after \<or> builtins = before @ ''net/tls/tls.ko'' @ after)"
proof -
  have path: "module_path release name = ''/lib/modules/'' @ release @ ''/'' @ name"
    if "length name \<le> 16" for name
    unfolding module_path_def snprintf_s_def by (rule take_all) (use that assms(2) in simp)
  have found: "names_loop ''net/tls/tls.ko'' [] (c, cuts) \<longleftrightarrow> sublist ''net/tls/tls.ko'' c"
    if "0 \<notin> set cuts" for c cuts
    using names_loop_sublist [of "''net/tls/tls.ko''" "[]" cuts c] that by (simp add: buf_size_def)
  have "module_path release ''modules.dep'' = ''/lib/modules/'' @ release @ ''/modules.dep''"
    "module_path release ''modules.builtin'' = ''/lib/modules/'' @ release @ ''/modules.builtin''"
    by (simp_all add: path)
  then have "ktls_file_names (m_open m (module_path release ''modules.dep'')) ''net/tls/tls.ko'' \<longleftrightarrow>
      sublist ''net/tls/tls.ko'' deps"
    "ktls_file_names (m_open m (module_path release ''modules.builtin'')) ''net/tls/tls.ko'' \<longleftrightarrow>
      sublist ''net/tls/tls.ko'' builtins"
    by (simp_all only: assms(3,5) ktls_file_names_def option.case found [OF assms(4)] found [OF assms(6)])
  then have "ktls_available m \<longleftrightarrow> m_access m ''/proc/net/tls_stat'' \<or>
      sublist ''net/tls/tls.ko'' deps \<or> sublist ''net/tls/tls.ko'' builtins"
    unfolding ktls_available_def ktls_initialized_def assms(1) option.case by argo
  then show ?thesis unfolding sublist_def by blast
qed

definition demo_machine :: machine where
  "demo_machine = \<lparr> m_access = (\<lambda>_. False), m_release = Some ''6.1'',
     m_open = (\<lambda>path. Some (if path = ''/lib/modules/6.1/modules.dep'' then ''kernel/net/tls/tls.ko: '' else [], [])),
     m_socket = (3, 0), m_set_ulp = (-1, 107), m_ENOTCONN = 107 \<rparr>"

theorem available_when_named_witness: "ktls_available demo_machine"
proof (rule available_when_named [THEN iffD2])
  show "m_release demo_machine = Some ''6.1''" by (simp add: demo_machine_def)
  show "m_open demo_machine (''/lib/modules/'' @ ''6.1'' @ ''/modules.dep'') =
      Some (''kernel/net/tls/tls.ko: '', [])" by (simp add: demo_machine_def)
  show "m_open demo_machine (''/lib/modules/'' @ ''6.1'' @ ''/modules.builtin'') = Some ([], [])"
    by (simp add: demo_machine_def)
  have "''kernel/net/tls/tls.ko: '' = ''kernel/'' @ ''net/tls/tls.ko'' @ '': ''" by simp
  then show "m_access demo_machine ''/proc/net/tls_stat'' \<or> (\<exists>before after.
      ''kernel/net/tls/tls.ko: '' = before @ ''net/tls/tls.ko'' @ after \<or>
      [] = before @ ''net/tls/tls.ko'' @ after)" by blast
qed simp_all

text \<open>
  Loading the module fails only when no socket could be made or the kernel refused the
  ULP for a reason other than the dummy socket not being connected, and the failure is in
  the thread's text; otherwise nothing is recorded.
\<close>

theorem load_module_answer:
  "(case ktls_load_module lib m t of
      (Inr u, t') \<Rightarrow> t' = t \<and> 0 \<le> fst (m_socket m) \<and>
        (fst (m_set_ulp m) = 0 \<or> snd (m_set_ulp m) = m_ENOTCONN m)
    | (Inl f, t') \<Rightarrow> te_text t' \<noteq> [] \<and>
        (if fst (m_socket m) < 0 then f = Fail ''socket''
         else f = Fail ''setsockopt(TCP_ULP, \"tls\")'' \<and> fst (m_set_ulp m) \<noteq> 0 \<and>
           snd (m_set_ulp m) \<noteq> m_ENOTCONN m))"
  by (cases "m_socket m"; cases "m_set_ulp m")
    (auto simp: ktls_load_module_def syscall_failed_def ktls_fail_text)

end
