(* ===== verification/Ktls_Loops.thy ===== *)
theory Ktls_Loops
  imports Ktls_Service
begin

text \<open>
  The loops of the callers: \<open>for (;;) { n = pull (buf); if (n == 0) break; ... }\<close> over
  \<open>ktls_exchange_take\<close> or \<open>ktls_exchange_backlog\<close>, which the mruby binding, the examples
  and the C++ header's users all write. The loop is a partial function, \<open>None\<close> being one
  that never ends; two locales say under which laws it ends and what it has collected, and
  are interpreted on the two calls.
\<close>

lemma exchange_wf_out: "exchange_wf x \<Longrightarrow> x_ssl x = None \<longrightarrow> x_out x = None"
  unfolding exchange_wf_def by blast

section \<open>The loop\<close>

partial_function (option) drain ::
    "('s \<Rightarrow> bytes \<times> 's) \<Rightarrow> bytes \<Rightarrow> 's \<Rightarrow> (bytes \<times> 's) option" where
  "drain pull out s =
     (case pull s of (got, s') \<Rightarrow>
        if got = [] then Some (out, s') else drain pull (out @ got) s')"

declare drain.simps [code]

text \<open>A property of the state that every pull keeps holds when the loop is over.\<close>

lemma drain_keeps:
  assumes ret: "drain pull out s = Some (got, s')" and init: "Q out s"
    and keep: "\<And>out s b s'. Q out s \<Longrightarrow> pull s = (b, s') \<Longrightarrow> Q (out @ b) s'"
  shows "Q got s'"
proof -
  have "pull = pull \<longrightarrow> Q out s \<longrightarrow> Q (fst (got, s')) (snd (got, s'))"
  proof (rule drain.raw_induct [where
        P = "\<lambda>p out s r. p = pull \<longrightarrow> Q out s \<longrightarrow> Q (fst r) (snd r)", OF _ ret])
    fix f p out s r
    assume IH: "\<And>p out s r. f p out s = Some r \<Longrightarrow>
        p = pull \<longrightarrow> Q out s \<longrightarrow> Q (fst r) (snd r)"
      and eq: "(case p s of (got, s') \<Rightarrow>
          if got = [] then Some (out, s') else f p (out @ got) s') = Some r"
    obtain b s1 where b: "pull s = (b, s1)" by (cases "pull s") auto
    show "p = pull \<longrightarrow> Q out s \<longrightarrow> Q (fst r) (snd r)"
    proof (intro impI)
      assume p: "p = pull" and "Q out s"
      from keep [OF this(2) b] have Q1: "Q (out @ b) s1" .
      show "Q (fst r) (snd r)"
      proof (cases "b = []")
        case True
        with eq p b Q1 show ?thesis by auto
      next
        case False
        with eq p b have "f pull (out @ b) s1 = Some r" by simp
        from IH [OF this] Q1 show ?thesis by simp
      qed
    qed
  qed
  with init show ?thesis by simp
qed

section \<open>When it ends\<close>

locale draining =
  fixes pull :: "'s \<Rightarrow> bytes \<times> 's"
    and left :: "'s \<Rightarrow> nat"
    and ready :: "'s \<Rightarrow> bool"
  assumes pull_ready: "ready s \<Longrightarrow> pull s = (got, s') \<Longrightarrow> ready s'"
    and pull_less: "ready s \<Longrightarrow> pull s = (got, s') \<Longrightarrow> got \<noteq> [] \<Longrightarrow> left s' < left s"
begin

lemma drain_returns: "ready s \<Longrightarrow> \<exists>got s'. drain pull out s = Some (out @ got, s') \<and> ready s'"
proof (induction "left s" arbitrary: out s rule: less_induct)
  case less
  obtain b s1 where b: "pull s = (b, s1)" by (cases "pull s") auto
  note r1 = pull_ready [OF less.prems b]
  show ?case
  proof (cases "b = []")
    case True
    then show ?thesis using b r1 by (subst drain.simps) simp
  next
    case False
    obtain got s' where "drain pull (out @ b) s1 = Some ((out @ b) @ got, s')" "ready s'"
      using less.hyps [OF pull_less [OF less.prems b False] r1] by blast
    then show ?thesis using b False by (subst drain.simps) simp
  qed
qed

end

text \<open>A call that hands out the front of what is pending, and nothing only when nothing is.\<close>

locale draining_queue =
  fixes pull :: "'s \<Rightarrow> bytes \<times> 's"
    and pending :: "'s \<Rightarrow> bytes"
    and ready :: "'s \<Rightarrow> bool"
  assumes queue_ready: "ready s \<Longrightarrow> pull s = (got, s') \<Longrightarrow> ready s'"
    and queue_front: "ready s \<Longrightarrow> pull s = (got, s') \<Longrightarrow> pending s = got @ pending s'"
    and queue_empty: "ready s \<Longrightarrow> pull s = ([], s') \<Longrightarrow> pending s = []"

sublocale draining_queue \<subseteq> loop: draining pull "\<lambda>s. length (pending s)" ready
  by unfold_locales (use queue_ready queue_front in force)+

context draining_queue
begin

lemma drain_pending:
  assumes "ready s"
  shows "\<exists>s'. drain pull out s = Some (out @ pending s, s') \<and> ready s' \<and> pending s' = []"
  using assms
proof (induction "length (pending s)" arbitrary: out s rule: less_induct)
  case less
  obtain b s1 where b: "pull s = (b, s1)" by (cases "pull s") auto
  note r1 = queue_ready [OF less.prems b] and front = queue_front [OF less.prems b]
  show ?case
  proof (cases "b = []")
    case True
    with b queue_empty [OF less.prems] front have "pending s = []" "pending s1 = []" by auto
    then show ?thesis using True b r1 by (subst drain.simps) simp
  next
    case False
    then have "length (pending s1) < length (pending s)" unfolding front by simp
    from less.hyps [OF this r1, of "out @ b"] obtain s'
      where "drain pull (out @ b) s1 = Some ((out @ b) @ pending s1, s')" "ready s'" "pending s' = []"
      by blast
    then show ?thesis using b False front by (subst drain.simps) simp
  qed
qed

end

section \<open>Taking and reading in a loop\<close>

text \<open>The buffer the callers use, \<open>char buf[16384]\<close>, and one call into it.\<close>

definition chunk :: nat where "chunk = 16384"

definition pulled :: "(failure + bytes) \<times> 'x \<times> 't \<Rightarrow> bytes \<times> 'x \<times> 't" where
  "pulled res = (case res of (r, st) \<Rightarrow> (case r of Inl f \<Rightarrow> [] | Inr got \<Rightarrow> got, st))"

definition take_pull ::
    "'s tls_lib \<Rightarrow> 's ktls_exchange \<times> thread_err \<Rightarrow> bytes \<times> 's ktls_exchange \<times> thread_err" where
  "take_pull lib = (\<lambda>(x, t). pulled (ktls_exchange_take lib chunk x t))"

definition backlog_pull ::
    "'s tls_lib \<Rightarrow> nat \<Rightarrow> 's ktls_exchange \<times> thread_err \<Rightarrow> bytes \<times> 's ktls_exchange \<times> thread_err" where
  "backlog_pull lib cap = (\<lambda>(x, t). pulled (ktls_exchange_backlog lib cap x t))"

text \<open>
  What OpenSSL documents for \<open>BIO_read\<close> on a memory BIO: it hands out as much as there is
  and as fits, and answers 0 or -1 when it is empty.
\<close>

definition bio_reads :: "'s tls_lib \<Rightarrow> bool" where
  "bio_reads lib \<longleftrightarrow> (\<forall>p n. 0 < n \<longrightarrow>
     (if p = [] then bio_read_ret lib p n \<le> 0 else bio_read_ret lib p n = min n (int (length p))))"

text \<open>
  What bounds the plaintext \<open>SSL_read\<close> can hand out: \<open>m\<close> of the SSL object and the bytes in
  its BIO, which every read that yields something makes smaller.
\<close>

definition plaintext_bound :: "'s tls_lib \<Rightarrow> ('s \<Rightarrow> bytes \<Rightarrow> nat) \<Rightarrow> bool" where
  "plaintext_bound lib m \<longleftrightarrow> (\<forall>s i u n q. 0 < io_rc (ssl_read lib s i u n q) \<longrightarrow>
     m (io_ssl (ssl_read lib s i u n q)) (io_in (ssl_read lib s i u n q)) < m s i)"

definition plaintext_left :: "('s \<Rightarrow> bytes \<Rightarrow> nat) \<Rightarrow> 's ktls_exchange \<Rightarrow> nat" where
  "plaintext_left m x = (case x_ssl x of None \<Rightarrow> 0 | Some s \<Rightarrow> m s (bio_bytes (x_in x)))"

lemma take_pull_cases:
  assumes "take_pull lib (x, t) = (got, x', t')" "bio_reads lib" "x_ssl x = None \<longrightarrow> x_out x = None"
  shows "bio_bytes (x_out x) = got @ bio_bytes (x_out x')" "got = [] \<longrightarrow> bio_bytes (x_out x) = []"
    "x_ssl x' = None \<longrightarrow> x_out x' = None"
proof -
  obtain r where e: "ktls_exchange_take lib chunk x t = (r, x', t')"
    and got: "got = (case r of Inl f \<Rightarrow> [] | Inr g \<Rightarrow> g)"
    using assms(1) by (auto simp: take_pull_def pulled_def split: prod.splits)
  have n: "c_int chunk = 16384" by (simp add: chunk_def)
  have ret: "bio_read_ret lib p 16384 = (if p = [] then bio_read_ret lib p 16384
      else min 16384 (int (length p)))" "p = [] \<Longrightarrow> bio_read_ret lib p 16384 \<le> 0" for p
    using assms(2) [unfolded bio_reads_def, rule_format, of 16384 p] by (simp_all split: if_splits)
  have "bio_bytes (x_out x) = got @ bio_bytes (x_out x') \<and>
    (got = [] \<longrightarrow> bio_bytes (x_out x) = []) \<and> (x_ssl x' = None \<longrightarrow> x_out x' = None)"
    using e
  proof (cases rule: ktls_exchange_take_cases)
    case released
    with assms(3) got show ?thesis by (simp add: bio_bytes_def)
  next
    case idle
    then have "bio_bytes (x_out x) = []"
      using ret(1) [of "bio_bytes (x_out x)"] unfolding n by (cases "bio_bytes (x_out x)") (simp_all add: min_def split: if_splits)
    with idle got assms(3) show ?thesis by simp
  next
    case (taken k)
    then have ne: "bio_bytes (x_out x) \<noteq> []" using ret(2) unfolding n by fastforce
    with taken(2) taken(5,6,1) got show ?thesis by (auto simp: bio_bytes_def)
  qed
  then show "bio_bytes (x_out x) = got @ bio_bytes (x_out x')"
    "got = [] \<longrightarrow> bio_bytes (x_out x) = []" "x_ssl x' = None \<longrightarrow> x_out x' = None" by blast+
qed

interpretation take_loop: draining_queue "take_pull lib" "\<lambda>(x, t). bio_bytes (x_out x)"
    "\<lambda>(x, t). bio_reads lib \<and> (x_ssl x = None \<longrightarrow> x_out x = None)" for lib
proof (unfold_locales, goal_cases)
  case (1 s got s')
  then show ?case by (cases s; cases s') (simp add: take_pull_cases(3))
next
  case (2 s got s')
  then show ?case by (cases s; cases s') (simp add: take_pull_cases(1))
next
  case (3 s s')
  then show ?case by (cases s; cases s') (simp add: take_pull_cases(2))
qed

interpretation backlog_loop: draining "backlog_pull lib cap" "\<lambda>(x, t). plaintext_left m x"
    "\<lambda>(x, t). plaintext_bound lib m" for lib cap m
proof (unfold_locales, goal_cases)
  case (1 s got s')
  then show ?case by (cases s; cases s') simp
next
  case (2 s got s')
  obtain x t x' t' where s: "s = (x, t)" "s' = (x', t')" by (cases s; cases s') auto
  with 2 have bound: "plaintext_bound lib m" by simp
  from 2(2) s obtain r where e: "ktls_exchange_backlog lib cap x t = (r, x', t')"
    and got: "got = (case r of Inl f \<Rightarrow> [] | Inr g \<Rightarrow> g)"
    by (auto simp: backlog_pull_def pulled_def split: prod.splits)
  with 2(3) bound show ?case unfolding s
    by (auto simp: ktls_exchange_backlog_def failing_def plaintext_left_def plaintext_bound_def
        bio_bytes_def Let_def split: if_splits option.splits)
qed

section \<open>Evaluation\<close>

text \<open>The two calls at the size of the buffer, for evaluation without counting up to it.\<close>

definition chunk_taken ::
    "'s tls_lib \<Rightarrow> 's ktls_exchange \<Rightarrow> thread_err \<Rightarrow> (bytes, 's) outcome" where
  "chunk_taken lib x t = ktls_exchange_take lib chunk x t"

definition chunk_read ::
    "'s tls_lib \<Rightarrow> 's ktls_exchange \<Rightarrow> thread_err \<Rightarrow> (bytes, 's) outcome" where
  "chunk_read lib x t = ktls_exchange_backlog lib chunk x t"

lemma chunk_int: "c_int chunk = 16384"
  by (simp add: chunk_def)

lemmas chunk_taken_code [code] =
  ktls_exchange_take_def [of _ chunk, folded chunk_taken_def, unfolded chunk_int]

lemmas chunk_read_code [code] =
  ktls_exchange_backlog_def [of _ chunk, folded chunk_read_def, unfolded chunk_int]

lemmas chunk_unfold [code_unfold] = chunk_taken_def [symmetric] chunk_read_def [symmetric]

end
