(* ===== verification/Ktls_Ruby.thy ===== *)
theory Ktls_Ruby
  imports Ktls_Loops
begin

text \<open>
  \<open>KTLS::Exchange\<close>, the class src/mrb_ktls.c puts over the functions of ktls.c: every method
  from \<open>initialize\<close> to \<open>offload\<close>, with the checks of its arguments, the loops of \<open>take\<close> and
  \<open>backlog\<close>, and what it returns or raises. A program is a list of method calls on one
  object.

  mruby itself is a parameter: the arguments arrive as \<open>mrb_get_args\<close> leaves them, and where
  a conversion inside mruby can raise (the object is no exchange yet, the keys are none, the
  descriptor has no number) the argument is an option whose \<open>None\<close> is that exception. That
  mruby runs out of memory is not modelled.
\<close>

section \<open>Values and exceptions\<close>

datatype rb_exn =
    KTLS_Error string
  | E_ARGUMENT_ERROR string
  | E_TYPE_ERROR

datatype rb_value =
    VNil
  | VTrue
  | VBool bool
  | VInt int
  | VStr bytes
  | VSym string
  | VSelf
  | VArgument

definition str_value :: "string \<Rightarrow> rb_value" where
  "str_value s = VStr (map of_char s)"

text \<open>\<open>mrb_raise (mrb, ktls_error_class (mrb), ktls_last_error ())\<close>\<close>

definition ktls_raise :: "thread_err \<Rightarrow> rb_exn + 'v" where
  "ktls_raise t = Inl (KTLS_Error (ktls_last_error t))"

text \<open>\<open>(mrb_int) n\<close> for a \<open>uint64_t\<close>, \<open>mrb_int\<close> having 32 or 64 bits by mruby's configuration.\<close>

definition mrb_int :: "nat \<Rightarrow> u64 \<Rightarrow> int" where
  "mrb_int bits n = signed_take_bit (bits - 1) (uint n)"

section \<open>The object\<close>

text \<open>
  \<open>rb_data\<close> is the pointer in the object, \<open>None\<close> before \<open>initialize\<close>; \<open>rb_keys\<close> is the
  instance variable \<open>@keys\<close>, the keys object it refers to; \<open>rb_lost\<close> are the
  exchanges that were allocated and that no pointer leads to any more.
\<close>

record 's rb_object =
  rb_data :: "'s ktls_exchange option"
  rb_keys :: "nat option"
  rb_lost :: "'s ktls_exchange list"

definition rb_allocated :: "'s rb_object" where
  "rb_allocated = \<lparr> rb_data = None, rb_keys = None, rb_lost = [] \<rparr>"

type_synonym 's rb_result = "(rb_exn + rb_value) \<times> 's rb_object \<times> thread_err"

text \<open>
  A method that is one call deep: \<open>exchange_of\<close>, the C function, and a raise with
  \<open>ktls_last_error\<close> when it failed.
\<close>

definition on_exchange ::
    "('s ktls_exchange \<Rightarrow> thread_err \<Rightarrow> ('r, 's) outcome) \<Rightarrow> ('r \<Rightarrow> rb_value) \<Rightarrow>
      's rb_object \<Rightarrow> thread_err \<Rightarrow> 's rb_result" where
  "on_exchange oper val ob t =
     (case rb_data ob of
        None \<Rightarrow> (Inl E_TYPE_ERROR, ob, t)
      | Some x \<Rightarrow> (case oper x t of
          (r, x', t') \<Rightarrow> (case r of Inl f \<Rightarrow> ktls_raise t' | Inr v \<Rightarrow> Inr (val v),
                          ob\<lparr> rb_data := Some x' \<rparr>, t')))"

text \<open>A getter, which changes nothing and cannot fail.\<close>

definition ask_exchange ::
    "('s ktls_exchange \<Rightarrow> rb_value) \<Rightarrow> 's rb_object \<Rightarrow> thread_err \<Rightarrow> 's rb_result" where
  "ask_exchange val ob t =
     (case rb_data ob of
        None \<Rightarrow> (Inl E_TYPE_ERROR, ob, t)
      | Some x \<Rightarrow> (Inr (val x), ob, t))"

section \<open>The methods\<close>

definition role_msg :: string where "role_msg = ''role must be :server or :client''"
definition direction_msg :: string where "direction_msg = ''direction must be :tx or :rx''"

definition role_of :: "string \<Rightarrow> rb_exn + ktls_role" where
  "role_of role = (if role = ''server'' then Inr KTLS_SERVER
     else if role = ''client'' then Inr KTLS_CLIENT else Inl (E_ARGUMENT_ERROR role_msg))"

definition direction_of :: "string \<Rightarrow> rb_exn + ktls_direction" where
  "direction_of d = (if d = ''tx'' then Inr KTLS_TX else if d = ''rx'' then Inr KTLS_RX
     else Inl (E_ARGUMENT_ERROR direction_msg))"

text \<open>
  A method with a direction. C leaves open whether the object or the symbol is looked at
  first; the object is, here.
\<close>

definition with_direction ::
    "string \<Rightarrow> (ktls_direction \<Rightarrow> 's rb_object \<Rightarrow> thread_err \<Rightarrow> 's rb_result) \<Rightarrow>
      's rb_object \<Rightarrow> thread_err \<Rightarrow> 's rb_result" where
  "with_direction d meth ob t =
     (if rb_data ob = None then (Inl E_TYPE_ERROR, ob, t)
      else (case direction_of d of Inl e \<Rightarrow> (Inl e, ob, t) | Inr dir \<Rightarrow> meth dir ob t))"

text \<open>
  \<open>initialize\<close>: \<open>mrb_data_init\<close> overwrites the pointer, whatever it was; \<open>mrb_iv_set\<close> keeps the
  keys reachable as long as the object is.
\<close>

definition exchange_init ::
    "'s tls_lib \<Rightarrow> (nat \<Rightarrow> 's option) \<Rightarrow> bool \<Rightarrow> bool \<Rightarrow> bool \<Rightarrow> nat option \<Rightarrow> string \<Rightarrow>
      's rb_object \<Rightarrow> thread_err \<Rightarrow> 's rb_result" where
  "exchange_init lib ssl_new calloc_ok in_ok out_ok keysv role ob t =
     (case role_of role of
        Inl e \<Rightarrow> (Inl e, ob, t)
      | Inr r \<Rightarrow> (case keysv of
          None \<Rightarrow> (Inl E_TYPE_ERROR, ob, t)
        | Some k \<Rightarrow> (case ktls_exchange_open lib ssl_new calloc_ok in_ok out_ok (Some k) r t of
            (Inl f, t') \<Rightarrow> (ktls_raise t', ob, t')
          | (Inr x, t') \<Rightarrow> (Inr VSelf,
              ob\<lparr> rb_data := Some x, rb_keys := Some k,
                  rb_lost := rb_lost ob @ (case rb_data ob of None \<Rightarrow> [] | Some old \<Rightarrow> [old]) \<rparr>, t'))))"

definition exchange_feed :: "'s tls_lib \<Rightarrow> bytes \<Rightarrow> 's rb_object \<Rightarrow> thread_err \<Rightarrow> 's rb_result" where
  "exchange_feed lib bs = on_exchange (ktls_exchange_feed lib bs) (\<lambda>_. VInt (int (length bs)))"

text \<open>The two loops; \<open>None\<close> is a method that does not return.\<close>

definition collected ::
    "('s ktls_exchange \<times> thread_err \<Rightarrow> bytes \<times> 's ktls_exchange \<times> thread_err) \<Rightarrow>
      's rb_object \<Rightarrow> thread_err \<Rightarrow> 's rb_result option" where
  "collected pull ob t =
     (case rb_data ob of
        None \<Rightarrow> Some (Inl E_TYPE_ERROR, ob, t)
      | Some x \<Rightarrow> (case drain pull [] (x, t) of
          None \<Rightarrow> None
        | Some (out, x', t') \<Rightarrow> Some (Inr (VStr out), ob\<lparr> rb_data := Some x' \<rparr>, t')))"

definition exchange_take :: "'s tls_lib \<Rightarrow> 's rb_object \<Rightarrow> thread_err \<Rightarrow> 's rb_result option" where
  "exchange_take lib = collected (take_pull lib)"

definition exchange_backlog :: "'s tls_lib \<Rightarrow> 's rb_object \<Rightarrow> thread_err \<Rightarrow> 's rb_result option" where
  "exchange_backlog lib = collected (backlog_pull lib chunk)"

fun step_symbol :: "ktls_step \<Rightarrow> rb_value" where
  "step_symbol KTLS_DONE = VSym ''done''"
| "step_symbol KTLS_WRITING = VSym ''writing''"
| "step_symbol KTLS_READING = VSym ''reading''"

definition exchange_step ::
    "'s tls_lib \<Rightarrow> kernel_abi \<Rightarrow> 's rb_object \<Rightarrow> thread_err \<Rightarrow> 's rb_result" where
  "exchange_step lib abi = on_exchange (ktls_exchange_step lib abi) step_symbol"

definition exchange_alpn :: "'s rb_object \<Rightarrow> thread_err \<Rightarrow> 's rb_result" where
  "exchange_alpn = ask_exchange (\<lambda>x. case ktls_exchange_alpn x of None \<Rightarrow> VNil | Some name \<Rightarrow> VStr name)"

definition exchange_cipher :: "'s tls_lib \<Rightarrow> 's rb_object \<Rightarrow> thread_err \<Rightarrow> 's rb_result" where
  "exchange_cipher lib =
     ask_exchange (\<lambda>x. case ktls_exchange_cipher lib x of None \<Rightarrow> VNil | Some name \<Rightarrow> str_value name)"

text \<open>\<open>blob ci n\<close>: the \<open>n\<close> bytes of memory at the blob, in the layout of linux/tls.h.\<close>

definition exchange_crypto_info ::
    "'s tls_lib \<Rightarrow> (ktls_info \<Rightarrow> nat \<Rightarrow> bytes) \<Rightarrow> string \<Rightarrow> 's rb_object \<Rightarrow> thread_err \<Rightarrow> 's rb_result" where
  "exchange_crypto_info lib blob d =
     with_direction d (\<lambda>dir. on_exchange (\<lambda>x. ktls_crypto_info lib x dir)
       (\<lambda>(ci, n). VStr (blob ci n)))"

definition exchange_record_sequence ::
    "'s tls_lib \<Rightarrow> nat \<Rightarrow> string \<Rightarrow> 's rb_object \<Rightarrow> thread_err \<Rightarrow> 's rb_result" where
  "exchange_record_sequence lib bits d =
     with_direction d (\<lambda>dir. ask_exchange (\<lambda>x. VInt (mrb_int bits (ktls_record_sequence lib x dir))))"

definition exchange_record_limit :: "nat \<Rightarrow> 's rb_object \<Rightarrow> thread_err \<Rightarrow> 's rb_result" where
  "exchange_record_limit bits = ask_exchange (\<lambda>x. VInt (mrb_int bits (ktls_record_limit x)))"

definition exchange_next_key ::
    "'s tls_lib \<Rightarrow> kernel_abi \<Rightarrow> string \<Rightarrow> 's rb_object \<Rightarrow> thread_err \<Rightarrow> 's rb_result" where
  "exchange_next_key lib abi d =
     with_direction d (\<lambda>dir. on_exchange (\<lambda>x. ktls_next_key lib abi x dir) (\<lambda>_. VSelf))"

text \<open>
  \<open>fileno\<close>: the number of the descriptor, \<open>None\<close> when the conversion raised. It goes through
  \<open>(int)\<close>.
\<close>

definition exchange_offload ::
    "'s tls_lib \<Rightarrow> kernel_abi \<Rightarrow> bool \<Rightarrow> kernel \<Rightarrow> int option \<Rightarrow> 's rb_object \<Rightarrow> thread_err \<Rightarrow> 's rb_result" where
  "exchange_offload lib abi initialized kern fileno ob t =
     (case fileno of
        None \<Rightarrow> (Inl E_TYPE_ERROR, ob, t)
      | Some fd \<Rightarrow> on_exchange (\<lambda>x t. case ktls_offload lib abi initialized kern x (signed_take_bit 31 fd) t of
            (r, x', t', calls) \<Rightarrow> (r, x', t')) (\<lambda>_. VSelf) ob t)"

text \<open>\<open>exchange_free\<close>: what is given back when the object is collected.\<close>

definition exchange_free :: "'s rb_object \<Rightarrow> 's ktls_exchange list" where
  "exchange_free ob = (case ktls_exchange_free (rb_data ob) of None \<Rightarrow> [] | Some x \<Rightarrow> [x])"

section \<open>Programs\<close>

datatype rb_call =
    RNew "nat option" string bool bool bool
  | RFeed bytes
  | RTake
  | RStep
  | RBacklog
  | RAlpn
  | RCipher
  | RCryptoInfo string
  | RRecordSequence string
  | RRecordLimit
  | RNextKey string
  | ROffload "int option"

text \<open>What the methods are given besides the object: OpenSSL, the kernel and mruby's integers.\<close>

record 's rb_env =
  e_lib :: "'s tls_lib"
  e_abi :: kernel_abi
  e_ssl_new :: "nat \<Rightarrow> 's option"
  e_blob :: "ktls_info \<Rightarrow> nat \<Rightarrow> bytes"
  e_int_bits :: nat
  e_initialized :: bool
  e_kernel :: kernel

fun rb_do :: "'s rb_env \<Rightarrow> rb_call \<Rightarrow> 's rb_object \<Rightarrow> thread_err \<Rightarrow> 's rb_result option" where
  "rb_do e (RNew keysv role a b c) ob t =
     Some (exchange_init (e_lib e) (e_ssl_new e) a b c keysv role ob t)"
| "rb_do e (RFeed bs) ob t = Some (exchange_feed (e_lib e) bs ob t)"
| "rb_do e RTake ob t = exchange_take (e_lib e) ob t"
| "rb_do e RStep ob t = Some (exchange_step (e_lib e) (e_abi e) ob t)"
| "rb_do e RBacklog ob t = exchange_backlog (e_lib e) ob t"
| "rb_do e RAlpn ob t = Some (exchange_alpn ob t)"
| "rb_do e RCipher ob t = Some (exchange_cipher (e_lib e) ob t)"
| "rb_do e (RCryptoInfo d) ob t = Some (exchange_crypto_info (e_lib e) (e_blob e) d ob t)"
| "rb_do e (RRecordSequence d) ob t = Some (exchange_record_sequence (e_lib e) (e_int_bits e) d ob t)"
| "rb_do e RRecordLimit ob t = Some (exchange_record_limit (e_int_bits e) ob t)"
| "rb_do e (RNextKey d) ob t = Some (exchange_next_key (e_lib e) (e_abi e) d ob t)"
| "rb_do e (ROffload fileno) ob t =
     Some (exchange_offload (e_lib e) (e_abi e) (e_initialized e) (e_kernel e) fileno ob t)"

text \<open>The bytes a program has taken from its exchange and fed to it, as Ruby sees them.\<close>

fun rb_note :: "rb_call \<Rightarrow> rb_exn + rb_value \<Rightarrow> bytes \<times> bytes \<Rightarrow> bytes \<times> bytes" where
  "rb_note (RNew keysv role a b c) (Inr v) _ = ([], [])"
| "rb_note (RFeed bs) (Inr v) (T, F) = (T, F @ bs)"
| "rb_note RTake (Inr (VStr out)) (T, F) = (T @ out, F)"
| "rb_note _ _ TF = TF"

fun rb_run ::
    "'s rb_env \<Rightarrow> rb_call list \<Rightarrow> 's rb_object \<times> bytes \<times> bytes \<times> thread_err \<Rightarrow>
      ('s rb_object \<times> bytes \<times> bytes \<times> thread_err) option" where
  "rb_run e [] st = Some st"
| "rb_run e (c # cs) (ob, T, F, t) =
     (case rb_do e c ob t of
        None \<Rightarrow> None
      | Some (r, ob', t') \<Rightarrow> (case rb_note c r (T, F) of (T', F') \<Rightarrow> rb_run e cs (ob', T', F', t')))"

end
