(* ===== verification/Ktls_Ruby_Programs.thy ===== *)
theory Ktls_Ruby_Programs
  imports Ktls_Ruby
begin

text \<open>
  What holds of every program over \<open>KTLS::Exchange\<close>: its exchange is a session of the C
  functions, so that every property of sessions is one of Ruby programs; its loops end;
  \<open>take\<close> hands out all that is owed; what the methods answer and raise; and what a second
  \<open>initialize\<close> loses.
\<close>

section \<open>Each method as operations of the exchange\<close>

lemma on_exchange_cases:
  assumes "on_exchange oper val ob t = (r, ob', t')"
  obtains (uninitialized) "rb_data ob = None" "r = Inl E_TYPE_ERROR" "ob' = ob" "t' = t"
  | (failed) x x' f where "rb_data ob = Some x" "oper x t = (Inl f, x', t')" "r = ktls_raise t'"
      "ob' = ob\<lparr> rb_data := Some x' \<rparr>"
  | (answered) x x' v where "rb_data ob = Some x" "oper x t = (Inr v, x', t')" "r = Inr (val v)"
      "ob' = ob\<lparr> rb_data := Some x' \<rparr>"
  using assms by (auto simp: on_exchange_def split: option.splits prod.splits sum.splits)

lemma ask_exchange_cases:
  assumes "ask_exchange val ob t = (r, ob', t')"
  obtains (uninitialized) "rb_data ob = None" "r = Inl E_TYPE_ERROR" "ob' = ob" "t' = t"
  | (answered) x where "rb_data ob = Some x" "r = Inr (val x)" "ob' = ob" "t' = t"
  using assms by (auto simp: ask_exchange_def split: option.splits)

lemma with_direction_cases:
  assumes "with_direction d meth ob t = (r, ob', t')"
  obtains (uninitialized) "rb_data ob = None" "r = Inl E_TYPE_ERROR" "ob' = ob" "t' = t"
  | (no_direction) "rb_data ob \<noteq> None" "d \<noteq> ''tx''" "d \<noteq> ''rx''"
      "r = Inl (E_ARGUMENT_ERROR direction_msg)" "ob' = ob" "t' = t"
  | (directed) dir where "rb_data ob \<noteq> None" "direction_of d = Inr dir" "meth dir ob t = (r, ob', t')"
  using assms by (auto simp: with_direction_def direction_of_def split: if_splits)

lemma exchange_init_cases:
  assumes "exchange_init lib ssl_new a b c keysv role ob t = (r, ob', t')"
  obtains (no_role) "role \<noteq> ''server''" "role \<noteq> ''client''"
      "r = Inl (E_ARGUMENT_ERROR role_msg)" "ob' = ob" "t' = t"
  | (no_keys) "keysv = None" "r = Inl E_TYPE_ERROR" "ob' = ob" "t' = t"
  | (unopened) "r = ktls_raise t'" "ob' = ob"
  | (opened) k ro x where "keysv = Some k" "role_of role = Inr ro"
      "ktls_exchange_open lib ssl_new a b c (Some k) ro t = (Inr x, t')" "r = Inr VSelf"
      "ob' = ob\<lparr> rb_data := Some x, rb_keys := Some k, rb_lost := rb_lost ob @
         (case rb_data ob of None \<Rightarrow> [] | Some old \<Rightarrow> [old]) \<rparr>"
  using assms
  by (auto simp: exchange_init_def role_of_def split: if_splits option.splits prod.splits sum.splits)

lemma collected_cases:
  assumes "collected pull ob t = Some (r, ob', t')"
  obtains (uninitialized) "rb_data ob = None" "r = Inl E_TYPE_ERROR" "ob' = ob" "t' = t"
  | (drained) x x' out where "rb_data ob = Some x" "drain pull [] (x, t) = Some (out, x', t')"
      "r = Inr (VStr out)" "ob' = ob\<lparr> rb_data := Some x' \<rparr>"
  using assms by (auto simp: collected_def split: option.splits prod.splits)

lemma offload_exchange:
  assumes "ktls_offload lib abi initialized kern x fd t = (r, x', t', calls)"
  shows "\<exists>i x1 t1 j t2. ktls_crypto_info lib x KTLS_TX t = (i, x1, t1) \<and>
    ktls_crypto_info lib x1 KTLS_RX t1 = (j, x', t2)"
proof -
  obtain i x1 t1 where i: "ktls_crypto_info lib x KTLS_TX t = (i, x1, t1)"
    by (cases "ktls_crypto_info lib x KTLS_TX t") auto
  obtain j x2 t2 where j: "ktls_crypto_info lib x1 KTLS_RX t1 = (j, x2, t2)"
    by (cases "ktls_crypto_info lib x1 KTLS_RX t1") auto
  have "x' = x2"
    using assms by (auto simp: ktls_offload_def i j Let_def split: sum.splits prod.splits if_splits)
  with i j show ?thesis by blast
qed

section \<open>Programs are sessions\<close>

definition rb_session :: "'s rb_env \<Rightarrow> 's rb_object \<Rightarrow> bytes \<Rightarrow> bytes \<Rightarrow> bool" where
  "rb_session e ob T F \<longleftrightarrow> (\<forall>x. rb_data ob = Some x \<longrightarrow> session (e_lib e) (e_abi e) x T F)"

lemma session_take_loop:
  assumes "session lib abi x T F" "drain (take_pull lib) [] (x, t) = Some (out, x', t')"
  shows "session lib abi x' (T @ out) F"
proof -
  have "case (x', t') of (y, u) \<Rightarrow> session lib abi y (T @ out) F"
  proof (rule drain_keeps [OF assms(2), where Q = "\<lambda>out (y, u). session lib abi y (T @ out) F"])
    show "case (x, t) of (y, u) \<Rightarrow> session lib abi y (T @ []) F" using assms(1) by simp
    fix out s b s'
    assume s: "case s of (y, u) \<Rightarrow> session lib abi y (T @ out) F" and p: "take_pull lib s = (b, s')"
    obtain y u y' u' where yu: "s = (y, u)" "s' = (y', u')" by (cases s; cases s') auto
    from p yu obtain r where e: "ktls_exchange_take lib chunk y u = (r, y', u')"
      and b: "b = (case r of Inl f \<Rightarrow> [] | Inr g \<Rightarrow> g)"
      by (auto simp: take_pull_def pulled_def split: prod.splits)
    from s yu have ses: "session lib abi y (T @ out) F" by simp
    have "session lib abi y' (T @ out @ b) F"
    proof (cases r)
      case (Inl f)
      with session.take_failed [OF ses] e b show ?thesis by auto
    next
      case (Inr g)
      with session.taken [OF ses, of chunk u g y' u'] e b show ?thesis by auto
    qed
    then show "case s' of (y, u) \<Rightarrow> session lib abi y (T @ out @ b) F" by (simp add: yu)
  qed
  then show ?thesis by simp
qed

lemma session_backlog_loop:
  assumes "session lib abi x T F" "drain (backlog_pull lib cap) [] (x, t) = Some (out, x', t')"
  shows "session lib abi x' T F"
proof -
  have "case (x', t') of (y, u) \<Rightarrow> session lib abi y T F"
  proof (rule drain_keeps [OF assms(2), where Q = "\<lambda>out (y, u). session lib abi y T F"])
    show "case (x, t) of (y, u) \<Rightarrow> session lib abi y T F" using assms(1) by simp
    fix out s b s'
    assume s: "case s of (y, u) \<Rightarrow> session lib abi y T F" and p: "backlog_pull lib cap s = (b, s')"
    obtain y u y' u' where yu: "s = (y, u)" "s' = (y', u')" by (cases s; cases s') auto
    from p yu obtain r where e: "ktls_exchange_backlog lib cap y u = (r, y', u')"
      by (auto simp: backlog_pull_def pulled_def split: prod.splits)
    with s yu show "case s' of (y, u) \<Rightarrow> session lib abi y T F"
      by (auto intro: session.backlogged)
  qed
  then show ?thesis by simp
qed

lemma rb_session_on_exchange:
  assumes "on_exchange oper val ob t = (r, ob', t')" "rb_session e ob T F"
    and "\<And>x r x'. oper x t = (r, x', t') \<Longrightarrow> session (e_lib e) (e_abi e) x T F \<Longrightarrow>
      session (e_lib e) (e_abi e) x' T F"
  shows "rb_session e ob' T F"
  using assms(1) by (cases rule: on_exchange_cases) (use assms(2,3) in \<open>auto simp: rb_session_def\<close>)

lemma rb_session_ask:
  assumes "ask_exchange val ob t = (r, ob', t')" "rb_session e ob T F"
  shows "rb_session e ob' T F"
  using assms(1) by (cases rule: ask_exchange_cases) (use assms(2) in simp_all)

lemma rb_session_directed:
  assumes "with_direction d meth ob t = (r, ob', t')" "rb_session e ob T F"
    and "\<And>dir. meth dir ob t = (r, ob', t') \<Longrightarrow> rb_session e ob' T F"
  shows "rb_session e ob' T F"
  using assms(1) by (cases rule: with_direction_cases) (use assms(2,3) in simp_all)

text \<open>What the object holds after each method, with the bytes noted for it.\<close>

lemma session_init:
  assumes "exchange_init (e_lib e) (e_ssl_new e) a b g keysv role ob t = (r, ob', t')"
    "rb_session e ob T F" "rb_note (RNew keysv role a b g) r (T, F) = (T', F')"
  shows "rb_session e ob' T' F'"
  using assms(1)
proof (cases rule: exchange_init_cases)
  case (opened k ro x)
  from opened(3) have "fst (ktls_exchange_open (e_lib e) (e_ssl_new e) a b g (Some k) ro t) = Inr x"
    by simp
  then have "session (e_lib e) (e_abi e) x [] []" by (rule session.opened)
  with opened assms(3) show ?thesis by (simp add: rb_session_def)
qed (use assms(2,3) in \<open>simp_all add: ktls_raise_def\<close>)

lemma session_feed:
  assumes "exchange_feed (e_lib e) bs ob t = (r, ob', t')" "rb_session e ob T F"
    "rb_note (RFeed bs) r (T, F) = (T', F')"
  shows "rb_session e ob' T' F'"
  using assms(1) unfolding exchange_feed_def
  by (cases rule: on_exchange_cases)
    (use assms(2,3) in \<open>auto simp: rb_session_def ktls_raise_def intro: session.fed session.feed_failed\<close>)

lemma session_take:
  assumes "exchange_take (e_lib e) ob t = Some (r, ob', t')" "rb_session e ob T F"
    "rb_note RTake r (T, F) = (T', F')"
  shows "rb_session e ob' T' F'"
  using assms(1) unfolding exchange_take_def
  by (cases rule: collected_cases)
    (use assms(2,3) in \<open>auto simp: rb_session_def intro: session_take_loop\<close>)

lemma session_backlog:
  assumes "exchange_backlog (e_lib e) ob t = Some (r, ob', t')" "rb_session e ob T F"
  shows "rb_session e ob' T F"
  using assms(1) unfolding exchange_backlog_def
  by (cases rule: collected_cases)
    (use assms(2) in \<open>auto simp: rb_session_def intro: session_backlog_loop\<close>)

lemma session_step:
  assumes "exchange_step (e_lib e) (e_abi e) ob t = (r, ob', t')" "rb_session e ob T F"
  shows "rb_session e ob' T F"
  using assms(1) unfolding exchange_step_def
  by (rule rb_session_on_exchange [OF _ assms(2)]) (blast intro: session.stepped)

lemma session_directed:
  assumes "rb_session e ob T F"
  shows "exchange_crypto_info (e_lib e) blob d ob t = (r, ob', t') \<Longrightarrow> rb_session e ob' T F"
    "exchange_next_key (e_lib e) (e_abi e) d ob t = (r, ob', t') \<Longrightarrow> rb_session e ob' T F"
    "exchange_record_sequence (e_lib e) bits d ob t = (r, ob', t') \<Longrightarrow> rb_session e ob' T F"
  unfolding exchange_crypto_info_def exchange_next_key_def exchange_record_sequence_def
  by (rule rb_session_directed [OF _ assms], assumption,
      erule rb_session_on_exchange [OF _ assms] rb_session_ask [OF _ assms],
      (blast intro: session.informed session.rekeyed)?)+

lemma session_getters:
  assumes "rb_session e ob T F"
  shows "exchange_alpn ob t = (r, ob', t') \<Longrightarrow> rb_session e ob' T F"
    "exchange_cipher (e_lib e) ob t = (r, ob', t') \<Longrightarrow> rb_session e ob' T F"
    "exchange_record_limit bits ob t = (r, ob', t') \<Longrightarrow> rb_session e ob' T F"
  unfolding exchange_alpn_def exchange_cipher_def exchange_record_limit_def
  by (erule rb_session_ask [OF _ assms])+

lemma session_offload:
  assumes "exchange_offload (e_lib e) (e_abi e) initialized kern fileno ob t = (r, ob', t')"
    "rb_session e ob T F"
  shows "rb_session e ob' T F"
proof (cases fileno)
  case None
  with assms show ?thesis by (simp add: exchange_offload_def)
next
  case (Some fd)
  let ?offload = "\<lambda>x t. ktls_offload (e_lib e) (e_abi e) initialized kern x (signed_take_bit 31 fd) t"
  from Some assms(1) have "on_exchange (\<lambda>x t. case ?offload x t of (r, x', t', calls) \<Rightarrow> (r, x', t'))
      (\<lambda>_. VSelf) ob t = (r, ob', t')" by (simp add: exchange_offload_def)
  then show ?thesis
  proof (rule rb_session_on_exchange [OF _ assms(2)])
    fix x s x'
    assume o: "(case ?offload x t of (r, x', t', calls) \<Rightarrow> (r, x', t')) = (s, x', t')"
      and ses: "session (e_lib e) (e_abi e) x T F"
    from o obtain calls where "?offload x t = (s, x', t', calls)" by (auto split: prod.splits)
    from offload_exchange [OF this] ses show "session (e_lib e) (e_abi e) x' T F"
      by (blast intro: session.informed)
  qed
qed

lemmas method_sessions = session_init session_feed session_take session_backlog session_step
  session_directed session_getters session_offload

lemma rb_session_do:
  assumes "rb_do e c ob t = Some (r, ob', t')" "rb_session e ob T F"
    "rb_note c r (T, F) = (T', F')"
  shows "rb_session e ob' T' F'"
  using assms by (cases c) (auto intro: method_sessions)

lemma rb_session_run:
  "rb_run e cs (ob, T, F, t) = Some (ob', T', F', t') \<Longrightarrow> rb_session e ob T F \<Longrightarrow>
     rb_session e ob' T' F'"
proof (induction cs arbitrary: ob T F t)
  case Nil
  then show ?case by simp
next
  case (Cons c cs)
  from Cons.prems(1) obtain r ob1 t1 where d: "rb_do e c ob t = Some (r, ob1, t1)"
    by (auto split: option.splits)
  obtain T1 F1 where n: "rb_note c r (T, F) = (T1, F1)" by (cases "rb_note c r (T, F)") auto
  from Cons.prems(1) d n have "rb_run e cs (ob1, T1, F1, t1) = Some (ob', T', F', t')" by simp
  then show ?case by (rule Cons.IH) (rule rb_session_do [OF d Cons.prems(2) n])
qed

text \<open>
  C8: A Ruby program is a session. Whatever methods are called on a \<open>KTLS::Exchange\<close>, in any
  order and with any arguments, raising or not, the exchange the object holds afterwards is
  one that the same C calls reach, with the bytes \<open>take\<close> returned and the bytes \<open>feed\<close> took
  since the last \<open>initialize\<close>: so both scanners hold exactly those bytes and every buffer
  has its size.
\<close>

theorem ruby_is_session:
  assumes "rb_run e cs (rb_allocated, [], [], t) = Some (ob, T, F, t')" "rb_data ob = Some x"
  shows "session (e_lib e) (e_abi e) x T F \<and> exchange_wf x \<and>
    x_tx x = ktls_scan records_zero T \<and> x_rx x = ktls_scan records_zero F"
proof -
  have "rb_session e rb_allocated [] []" by (simp add: rb_session_def rb_allocated_def)
  from rb_session_run [OF assms(1) this] assms(2) have "session (e_lib e) (e_abi e) x T F"
    by (simp add: rb_session_def)
  with session_invariant [OF this] show ?thesis by (simp add: knows_def)
qed

section \<open>Every method returns\<close>

lemma ex_triple: "\<exists>a b c. p = (a, b, c)"
  by (cases p) auto

lemma collected_returns:
  "rb_data ob = Some x \<Longrightarrow> drain pull [] (x, t) = Some (out, x', t') \<Longrightarrow>
     collected pull ob t = Some (Inr (VStr out), ob\<lparr> rb_data := Some x' \<rparr>, t')"
  by (simp add: collected_def)

definition rb_wf :: "'s rb_object \<Rightarrow> bool" where
  "rb_wf ob \<longleftrightarrow> (\<forall>x. rb_data ob = Some x \<longrightarrow> exchange_wf x)"

text \<open>
  C22: No method of the binding loops for ever. \<open>take\<close> ends because a memory BIO hands out what
  it holds, \<open>backlog\<close> because there is an end to the plaintext in what was fed (under the
  documented behaviour of \<open>BIO_read\<close> and \<open>SSL_read\<close>); every other method is one call deep.
\<close>

theorem ruby_methods_return:
  assumes "bio_reads (e_lib e)" "plaintext_bound (e_lib e) m" "rb_wf ob"
  shows "\<exists>r ob' t'. rb_do e c ob t = Some (r, ob', t')"
proof -
  have take: "\<exists>r ob' t'. collected (take_pull (e_lib e)) ob t = Some (r, ob', t')"
  proof (cases "rb_data ob")
    case None
    then show ?thesis by (simp add: collected_def)
  next
    case (Some x)
    with assms(3) have "x_ssl x = None \<longrightarrow> x_out x = None"
      by (intro exchange_wf_out) (simp add: rb_wf_def)
    then obtain out s' where "drain (take_pull (e_lib e)) [] (x, t) = Some ([] @ out, s')"
      using take_loop.loop.drain_returns [of "e_lib e" "(x, t)" "[]"] assms(1) by auto
    with Some show ?thesis by (cases s') (auto dest: collected_returns)
  qed
  have backlog: "\<exists>r ob' t'. collected (backlog_pull (e_lib e) chunk) ob t = Some (r, ob', t')"
  proof (cases "rb_data ob")
    case None
    then show ?thesis by (simp add: collected_def)
  next
    case (Some x)
    obtain out s' where "drain (backlog_pull (e_lib e) chunk) [] (x, t) = Some ([] @ out, s')"
      using backlog_loop.drain_returns [of "e_lib e" m "(x, t)" chunk "[]"] assms(2) by auto
    with Some show ?thesis by (cases s') (auto dest: collected_returns)
  qed
  show ?thesis
    by (cases c) (simp_all add: exchange_take_def exchange_backlog_def take backlog ex_triple)
qed

text \<open>
  \<open>take\<close> returns everything that is owed to the peer, in order and as one String, whatever
  the size of its buffer: afterwards nothing is owed, the scanner of the sending direction has
  seen exactly these bytes, and nothing else of the exchange has changed.
\<close>

theorem ruby_take_all:
  assumes "bio_reads lib" "rb_data ob = Some x" "exchange_wf x"
  shows "\<exists>x' t'. exchange_take lib ob t =
      Some (Inr (VStr (bio_bytes (x_out x))), ob\<lparr> rb_data := Some x' \<rparr>, t') \<and>
    bio_bytes (x_out x') = [] \<and> x_tx x' = ktls_scan (x_tx x) (bio_bytes (x_out x)) \<and>
    x_in x' = x_in x \<and> x_rx x' = x_rx x \<and> x_done x' = x_done x"
proof -
  have ready: "bio_reads lib \<and> (x_ssl x = None \<longrightarrow> x_out x = None)"
    using assms(1) exchange_wf_out [OF assms(3)] by blast
  obtain x' t' where d: "drain (take_pull lib) [] (x, t) = Some (bio_bytes (x_out x), x', t')"
    and left: "bio_bytes (x_out x') = []"
    using take_loop.drain_pending [of lib "(x, t)" "[]"] ready by auto
  have "case (x', t') of (y, u) \<Rightarrow> x_tx y = ktls_scan (x_tx x) (bio_bytes (x_out x)) \<and>
      x_in y = x_in x \<and> x_rx y = x_rx x \<and> x_done y = x_done x"
  proof (rule drain_keeps [OF d, where Q = "\<lambda>out (y, u). x_tx y = ktls_scan (x_tx x) out \<and>
        x_in y = x_in x \<and> x_rx y = x_rx x \<and> x_done y = x_done x"])
    fix out s b s'
    assume s: "case s of (y, u) \<Rightarrow> x_tx y = ktls_scan (x_tx x) out \<and> x_in y = x_in x \<and>
        x_rx y = x_rx x \<and> x_done y = x_done x" and p: "take_pull lib s = (b, s')"
    obtain y u y' u' where yu: "s = (y, u)" "s' = (y', u')" by (cases s; cases s') auto
    from p yu obtain r where e: "ktls_exchange_take lib chunk y u = (r, y', u')"
      and b: "b = (case r of Inl f \<Rightarrow> [] | Inr g \<Rightarrow> g)"
      by (auto simp: take_pull_def pulled_def split: prod.splits)
    have wf: "records_wf (x_tx x)" using assms(3) by (simp add: exchange_wf_def)
    show "case s' of (y, u) \<Rightarrow> x_tx y = ktls_scan (x_tx x) (out @ b) \<and> x_in y = x_in x \<and>
        x_rx y = x_rx x \<and> x_done y = x_done x"
      using e by (cases rule: ktls_exchange_take_cases)
        (use s b wf in \<open>auto simp: yu scan.consume_append\<close>)
  qed (simp add: scan.consume_Nil)
  with d left assms(2) show ?thesis
    by (auto simp: exchange_take_def collected_returns)
qed

section \<open>What the methods answer and raise\<close>

text \<open>The Ruby value each method answers with.\<close>

fun answers :: "rb_call \<Rightarrow> rb_value \<Rightarrow> bool" where
  "answers (RNew keysv role a b c) v \<longleftrightarrow> v = VSelf"
| "answers (RFeed bs) v \<longleftrightarrow> v = VInt (int (length bs))"
| "answers RTake v \<longleftrightarrow> (case v of VStr out \<Rightarrow> True | _ \<Rightarrow> False)"
| "answers RStep v \<longleftrightarrow> v = VSym ''done'' \<or> v = VSym ''reading'' \<or> v = VSym ''writing''"
| "answers RBacklog v \<longleftrightarrow> (case v of VStr out \<Rightarrow> True | _ \<Rightarrow> False)"
| "answers RAlpn v \<longleftrightarrow> (case v of VNil \<Rightarrow> True | VStr name \<Rightarrow> 0 < length name \<and> length name \<le> 32 | _ \<Rightarrow> False)"
| "answers RCipher v \<longleftrightarrow> (case v of VNil \<Rightarrow> True | VStr name \<Rightarrow> True | _ \<Rightarrow> False)"
| "answers (RCryptoInfo d) v \<longleftrightarrow> (case v of VStr b \<Rightarrow> length b = 40 \<or> length b = 56 | _ \<Rightarrow> False)"
| "answers (RRecordSequence d) v \<longleftrightarrow> (case v of VInt n \<Rightarrow> 0 \<le> n \<and> n \<le> 64 | _ \<Rightarrow> False)"
| "answers RRecordLimit v \<longleftrightarrow> v = VInt 0 \<or> v = VInt 8388608"
| "answers (RNextKey d) v \<longleftrightarrow> v = VSelf"
| "answers (ROffload fileno) v \<longleftrightarrow> v = VSelf"

text \<open>The calls that can fail in the C function below them.\<close>

fun can_fail :: "rb_call \<Rightarrow> bool" where
  "can_fail RTake = False" | "can_fail RBacklog = False" | "can_fail RAlpn = False"
| "can_fail RCipher = False" | "can_fail (RRecordSequence d) = False"
| "can_fail RRecordLimit = False" | "can_fail _ = True"

fun bad_symbol :: "rb_call \<Rightarrow> bool" where
  "bad_symbol (RNew keysv role a b c) \<longleftrightarrow> role \<noteq> ''server'' \<and> role \<noteq> ''client''"
| "bad_symbol (RCryptoInfo d) \<longleftrightarrow> d \<noteq> ''tx'' \<and> d \<noteq> ''rx''"
| "bad_symbol (RRecordSequence d) \<longleftrightarrow> d \<noteq> ''tx'' \<and> d \<noteq> ''rx''"
| "bad_symbol (RNextKey d) \<longleftrightarrow> d \<noteq> ''tx'' \<and> d \<noteq> ''rx''"
| "bad_symbol _ \<longleftrightarrow> False"

fun bad_object :: "rb_call \<Rightarrow> 's rb_object \<Rightarrow> bool" where
  "bad_object (RNew keysv role a b c) ob \<longleftrightarrow> keysv = None"
| "bad_object (ROffload fileno) ob \<longleftrightarrow> fileno = None \<or> rb_data ob = None"
| "bad_object _ ob \<longleftrightarrow> rb_data ob = None"

fun raises :: "rb_call \<Rightarrow> 's rb_object \<Rightarrow> rb_exn \<Rightarrow> bool" where
  "raises c ob (KTLS_Error msg) \<longleftrightarrow> can_fail c \<and> msg \<noteq> []"
| "raises c ob (E_ARGUMENT_ERROR msg) \<longleftrightarrow> bad_symbol c"
| "raises c ob E_TYPE_ERROR \<longleftrightarrow> bad_object c ob"

definition rb_answer_ok :: "rb_call \<Rightarrow> 's rb_object \<Rightarrow> rb_exn + rb_value \<Rightarrow> bool" where
  "rb_answer_ok c ob r \<longleftrightarrow> (case r of Inl exn \<Rightarrow> raises c ob exn | Inr v \<Rightarrow> answers c v)"

lemma ktls_raise_ok: "can_fail c \<Longrightarrow> rb_answer_ok c ob (ktls_raise t)"
  by (simp add: rb_answer_ok_def ktls_raise_def ktls_last_error_def)

lemma rb_answer_on_exchange:
  assumes "on_exchange oper val ob t = (r, ob', t')" "can_fail c"
    and "rb_data ob = None \<Longrightarrow> bad_object c ob"
    and "\<And>x x' v. rb_data ob = Some x \<Longrightarrow> oper x t = (Inr v, x', t') \<Longrightarrow> answers c (val v)"
  shows "rb_answer_ok c ob r"
  using assms(1)
proof (cases rule: on_exchange_cases)
  case (failed x x' f)
  then show ?thesis by (simp add: ktls_raise_ok assms(2))
qed (use assms(3,4) in \<open>auto simp: rb_answer_ok_def\<close>)

lemma rb_answer_ask:
  assumes "ask_exchange val ob t = (r, ob', t')" "rb_data ob = None \<Longrightarrow> bad_object c ob"
    and "\<And>x. rb_data ob = Some x \<Longrightarrow> answers c (val x)"
  shows "rb_answer_ok c ob r"
  using assms(1) by (cases rule: ask_exchange_cases) (use assms(2,3) in \<open>auto simp: rb_answer_ok_def\<close>)

lemma rb_answer_directed:
  assumes "with_direction d meth ob t = (r, ob', t')" "rb_data ob = None \<Longrightarrow> bad_object c ob"
    and "d \<noteq> ''tx'' \<Longrightarrow> d \<noteq> ''rx'' \<Longrightarrow> bad_symbol c"
    and "\<And>dir. meth dir ob t = (r, ob', t') \<Longrightarrow> rb_answer_ok c ob r"
  shows "rb_answer_ok c ob r"
  using assms(1) by (cases rule: with_direction_cases) (use assms(2-4) in \<open>auto simp: rb_answer_ok_def\<close>)

lemma mrb_int_small:
  assumes "unat n < 2 ^ 31" "bits = 32 \<or> bits = 64"
  shows "mrb_int bits n = int (unat n)"
proof -
  have n: "0 \<le> uint n" "uint n < 2 ^ 31"
    using assms(1) by (simp_all add: nat_less_iff flip: nat_uint_eq)
  have "signed_take_bit k (uint n) = uint n" if "31 \<le> k" for k
  proof (rule signed_take_bit_int_eq_self)
    have "(2 :: int) ^ 31 \<le> 2 ^ k" using that by (intro power_increasing) simp_all
    then show "uint n < 2 ^ k" using n(2) by (rule less_le_trans [rotated])
    show "- (2 ^ k) \<le> uint n" by (rule order_trans [of _ 0]) simp_all
  qed
  from this [of "bits - 1"] assms(2) show ?thesis unfolding mrb_int_def by auto
qed

lemma alpn_answers:
  assumes "exchange_wf x"
  shows "answers RAlpn (case ktls_exchange_alpn x of None \<Rightarrow> VNil | Some name \<Rightarrow> VStr name)"
proof -
  have "length (x_alpn x) = 32" "x_alpn_len x \<le> 32" using assms by (simp_all add: exchange_wf_def)
  then show ?thesis by (simp add: ktls_exchange_alpn_def)
qed

lemma answers_init:
  assumes "exchange_init lib ssl_new a b g keysv role ob t = (r, ob', t')"
  shows "rb_answer_ok (RNew keysv role a b g) ob r"
  using assms
proof (cases rule: exchange_init_cases)
  case unopened
  then show ?thesis by (simp add: ktls_raise_ok)
qed (simp_all add: rb_answer_ok_def)

lemma answers_feed:
  "exchange_feed lib bs ob t = (r, ob', t') \<Longrightarrow> rb_answer_ok (RFeed bs) ob r"
  unfolding exchange_feed_def by (erule rb_answer_on_exchange) simp_all

lemma answers_loops:
  "exchange_take lib ob t = Some (r, ob', t') \<Longrightarrow> rb_answer_ok RTake ob r"
  "exchange_backlog lib ob t = Some (r, ob', t') \<Longrightarrow> rb_answer_ok RBacklog ob r"
  unfolding exchange_take_def exchange_backlog_def
  by (erule collected_cases; simp add: rb_answer_ok_def)+

lemma answers_step:
  assumes "exchange_step lib abi ob t = (r, ob', t')"
  shows "rb_answer_ok RStep ob r"
  using assms unfolding exchange_step_def
proof (rule rb_answer_on_exchange)
  fix v show "answers RStep (step_symbol v)" by (cases v) simp_all
qed simp_all

lemma answers_getters:
  assumes "rb_wf ob"
  shows "exchange_alpn ob t = (r, ob', t') \<Longrightarrow> rb_answer_ok RAlpn ob r"
    "exchange_cipher lib ob t = (r, ob', t') \<Longrightarrow> rb_answer_ok RCipher ob r"
    "bits = 32 \<or> bits = 64 \<Longrightarrow> exchange_record_limit bits ob t = (r, ob', t') \<Longrightarrow>
      rb_answer_ok RRecordLimit ob r"
proof -
  show "rb_answer_ok RAlpn ob r" if "exchange_alpn ob t = (r, ob', t')"
    using that unfolding exchange_alpn_def
    by (rule rb_answer_ask) (use assms alpn_answers in \<open>simp_all add: rb_wf_def\<close>)
  show "rb_answer_ok RCipher ob r" if "exchange_cipher lib ob t = (r, ob', t')"
    using that unfolding exchange_cipher_def
    by (rule rb_answer_ask) (simp_all add: str_value_def split: option.split)
  have "mrb_int bits (ktls_record_limit x) \<in> {0, 8388608}" if "bits = 32 \<or> bits = 64"
    for x :: "'a ktls_exchange"
    using that by (auto simp: ktls_record_limit_def mrb_int_def)
  then show "rb_answer_ok RRecordLimit ob r"
    if "bits = 32 \<or> bits = 64" "exchange_record_limit bits ob t = (r, ob', t')"
    using that(1) that(2) [unfolded exchange_record_limit_def] by (elim rb_answer_ask) auto
qed

lemma answers_crypto_info:
  assumes "exchange_crypto_info lib blob d ob t = (r, ob', t')" "\<And>ci n. length (blob ci n) = n"
  shows "rb_answer_ok (RCryptoInfo d) ob r"
  using assms(1) unfolding exchange_crypto_info_def
proof (rule rb_answer_directed)
  fix dir
  assume "on_exchange (\<lambda>x. ktls_crypto_info lib x dir) (\<lambda>(ci, n). VStr (blob ci n)) ob t = (r, ob', t')"
  then show "rb_answer_ok (RCryptoInfo d) ob r"
  proof (rule rb_answer_on_exchange)
    fix x x' v
    assume "ktls_crypto_info lib x dir t = (Inr v, x', t')"
    then obtain ci where "v = (ci, info_size (x_cipher x))"
      by (cases rule: ktls_crypto_info_cases) simp_all
    then show "answers (RCryptoInfo d) (case v of (ci, n) \<Rightarrow> VStr (blob ci n))"
      using assms(2) by (simp add: info_size_def)
  qed simp_all
qed simp_all

lemma answers_record_sequence:
  assumes "exchange_record_sequence lib bits d ob t = (r, ob', t')" "rb_wf ob" "bits = 32 \<or> bits = 64"
  shows "rb_answer_ok (RRecordSequence d) ob r"
  using assms(1) unfolding exchange_record_sequence_def
proof (rule rb_answer_directed)
  fix dir
  assume "ask_exchange (\<lambda>x. VInt (mrb_int bits (ktls_record_sequence lib x dir))) ob t = (r, ob', t')"
  then show "rb_answer_ok (RRecordSequence d) ob r"
  proof (rule rb_answer_ask)
    fix x assume "rb_data ob = Some x"
    with assms(2) have "unat (ktls_record_sequence lib x dir) \<le> 64"
      by (simp add: rb_wf_def record_sequence_small)
    then show "answers (RRecordSequence d) (VInt (mrb_int bits (ktls_record_sequence lib x dir)))"
      using assms(3) by (simp add: mrb_int_small del: of_nat_unat)
  qed simp_all
qed simp_all

lemma answers_next_key:
  "exchange_next_key lib abi d ob t = (r, ob', t') \<Longrightarrow> rb_answer_ok (RNextKey d) ob r"
  unfolding exchange_next_key_def
  by (erule rb_answer_directed) (simp_all, erule rb_answer_on_exchange, simp_all)

lemma answers_offload:
  assumes "exchange_offload lib abi initialized kern fileno ob t = (r, ob', t')"
  shows "rb_answer_ok (ROffload fileno) ob r"
proof (cases fileno)
  case None
  with assms show ?thesis by (auto simp: exchange_offload_def rb_answer_ok_def)
next
  case (Some fd)
  with assms have "on_exchange (\<lambda>x t. case ktls_offload lib abi initialized kern x
      (signed_take_bit 31 fd) t of (r, x', t', calls) \<Rightarrow> (r, x', t')) (\<lambda>_. VSelf) ob t = (r, ob', t')"
    by (simp add: exchange_offload_def)
  then show ?thesis by (rule rb_answer_on_exchange) simp_all
qed

lemmas method_answers = answers_init answers_feed answers_loops answers_step answers_getters
  answers_crypto_info answers_record_sequence answers_next_key answers_offload

text \<open>
  C35: The methods answer in their types: each returns a value of its own kind (a Symbol among
  the three of \<open>step\<close>, a String of 40 or 56 bytes for a blob, an Integer of at most 64 for a
  sequence, and so on) or raises: \<open>KTLS::Error\<close> with a text, only where the C function can
  fail; \<open>ArgumentError\<close> only for a symbol that is no role or direction; \<open>TypeError\<close> only for
  an object of the wrong kind.
\<close>

theorem ruby_answers:
  assumes "rb_do e c ob t = Some (r, ob', t')" "rb_wf ob"
    and blob: "\<And>ci n. length (e_blob e ci n) = n"
    and bits: "e_int_bits e = 32 \<or> e_int_bits e = 64"
  shows "rb_answer_ok c ob r"
  using assms(1) by (cases c) (use assms(2) blob bits in \<open>auto intro: method_answers\<close>)

end
