(* ===== verification/Ktls_Ruby_Keys.thy ===== *)
theory Ktls_Ruby_Keys
  imports Ktls_Ruby Ktls_Keys_Calls Ktls_Probe
begin

text \<open>
  \<open>KTLS::Keys\<close> and the functions of the module \<open>KTLS\<close> in src/mrb_ktls.c: the constructors,
  \<open>add_certificate\<close>, \<open>alpn=\<close> and \<open>ciphers=\<close> with the checks of their arguments, the questions
  about the kernel, and the table \<open>gem_init\<close> registers.
\<close>

section \<open>KTLS::Keys\<close>

text \<open>What \<open>mrb_data_object_alloc\<close> wraps: the value of \<open>Keys.server\<close> and \<open>Keys.client\<close>.\<close>

definition made_keys ::
    "(failure + ktls_keys) \<times> world \<Rightarrow> (rb_exn + ktls_keys) \<times> world" where
  "made_keys m = (case m of
     (Inl f, w) \<Rightarrow> (ktls_raise (w_err w), w)
   | (Inr k, w) \<Rightarrow> (Inr k, w))"

definition keys_server ::
    "'z ctx_lib_scheme \<Rightarrow> string \<Rightarrow> string \<Rightarrow> world \<Rightarrow> (rb_exn + ktls_keys) \<times> world" where
  "keys_server lib cert key w = made_keys (ktls_keys_server lib cert key w)"

definition keys_client :: "'z ctx_lib_scheme \<Rightarrow> world \<Rightarrow> (rb_exn + ktls_keys) \<times> world" where
  "keys_client lib w = made_keys (ktls_keys_client lib w)"

text \<open>A C call on the keys: its answer is 0, or -1 and then a raise.\<close>

definition raising ::
    "rb_value \<Rightarrow> (failure + unit) \<times> ktls_keys \<times> world \<Rightarrow> (rb_exn + rb_value) \<times> ktls_keys \<times> world" where
  "raising v o_call = (case o_call of
     (Inl f, keys, w) \<Rightarrow> (ktls_raise (w_err w), keys, w)
   | (Inr u, keys, w) \<Rightarrow> (Inr v, keys, w))"

definition keys_add_certificate ::
    "'z ctx_lib_scheme \<Rightarrow> string \<Rightarrow> string \<Rightarrow> string \<Rightarrow> ktls_keys \<Rightarrow> world \<Rightarrow>
      (rb_exn + rb_value) \<times> ktls_keys \<times> world" where
  "keys_add_certificate lib host cert key keys w =
     raising (str_value host) (ktls_keys_add_certificate lib (Some host) cert key keys w)"

definition names_msg :: string where "names_msg = ''one to eight protocol names''"

text \<open>
  \<open>alpn=\<close>: an element that is no String, or has a NUL in it, is \<open>None\<close>, and makes
  \<open>mrb_string_cstr\<close> raise; \<open>names\<close> has room for eight.
\<close>

definition keys_alpn_set ::
    "'z ctx_lib_scheme \<Rightarrow> bytes option list \<Rightarrow> ktls_keys \<Rightarrow> world \<Rightarrow>
      (rb_exn + rb_value) \<times> ktls_keys \<times> world" where
  "keys_alpn_set lib list keys w =
     (if length list \<le> 0 \<or> 8 < length list then (Inl (E_ARGUMENT_ERROR names_msg), keys, w)
      else if None \<in> set list then (Inl E_TYPE_ERROR, keys, w)
      else raising VArgument (ktls_keys_set_alpn lib (map the list) keys w))"

definition keys_ciphers_set ::
    "'z ctx_lib_scheme \<Rightarrow> string \<Rightarrow> ktls_keys \<Rightarrow> world \<Rightarrow> (rb_exn + rb_value) \<times> ktls_keys \<times> world" where
  "keys_ciphers_set lib suites keys w =
     raising (str_value suites) (ktls_keys_set_ciphers lib (Some suites) keys w)"

text \<open>\<open>keys_free\<close>, when the object is collected.\<close>

definition keys_free :: "ktls_keys \<Rightarrow> world \<Rightarrow> world" where
  "keys_free keys w = ktls_keys_free (Some keys) w"

section \<open>The module\<close>

definition m_initialized :: "machine \<Rightarrow> rb_value" where
  "m_initialized m = VBool (ktls_initialized m)"

definition m_available :: "machine \<Rightarrow> rb_value" where
  "m_available m = VBool (ktls_available m)"

definition m_aes_fast :: "'z ctx_lib_scheme \<Rightarrow> rb_value" where
  "m_aes_fast lib = VBool (ktls_aes_is_fast (processor lib))"

definition m_load_module ::
    "'z err_lib_scheme \<Rightarrow> machine \<Rightarrow> thread_err \<Rightarrow> (rb_exn + rb_value) \<times> thread_err" where
  "m_load_module lib m t = (case ktls_load_module lib m t of
     (Inl f, t') \<Rightarrow> (ktls_raise t', t')
   | (Inr u, t') \<Rightarrow> (Inr VTrue, t'))"

definition m_attach_ulp ::
    "'z err_lib_scheme \<Rightarrow> kernel \<Rightarrow> int option \<Rightarrow> thread_err \<Rightarrow>
      (rb_exn + rb_value) \<times> thread_err \<times> syscall list" where
  "m_attach_ulp lib kern fileno t = (case fileno of
     None \<Rightarrow> (Inl E_TYPE_ERROR, t, [])
   | Some fd \<Rightarrow> (case ktls_attach_ulp lib kern (signed_take_bit 31 fd) t of
       (Inl f, t', calls) \<Rightarrow> (ktls_raise t', t', calls)
     | (Inr u, t', calls) \<Rightarrow> (Inr VArgument, t', calls)))"

section \<open>What gem_init registers\<close>

text \<open>\<open>SOL_TLS\<close>, \<open>TLS_TX\<close> and \<open>TLS_RX\<close>, for a caller that submits the setsockopt itself.\<close>

definition gem_constants :: "kernel_abi \<Rightarrow> (string \<times> rb_value) list" where
  "gem_constants abi =
     [(''SOL_TLS'', VInt (ktls_sol_tls abi)), (''TLS_TX'', VInt (ktls_optname abi KTLS_TX)),
      (''TLS_RX'', VInt (ktls_optname abi KTLS_RX))]"

text \<open>
  Each method with the \<open>mrb_get_args\<close> format of the function behind it and the number of
  arguments it is registered with.
\<close>

definition gem_methods :: "(string \<times> string \<times> string \<times> nat) list" where
  "gem_methods =
     [(''KTLS'', ''initialized?'', '''', 0), (''KTLS'', ''available?'', '''', 0),
      (''KTLS'', ''aes_fast?'', '''', 0), (''KTLS'', ''load_module'', '''', 0),
      (''KTLS'', ''attach_ulp'', ''o'', 1),
      (''KTLS::Keys.class'', ''server'', ''ss'', 2), (''KTLS::Keys.class'', ''client'', '''', 0),
      (''KTLS::Keys'', ''add_certificate'', ''zss'', 3), (''KTLS::Keys'', ''alpn='', ''A'', 1),
      (''KTLS::Keys'', ''ciphers='', ''z'', 1),
      (''KTLS::Exchange'', ''initialize'', ''on'', 2), (''KTLS::Exchange'', ''feed'', ''s'', 1),
      (''KTLS::Exchange'', ''take'', '''', 0), (''KTLS::Exchange'', ''step'', '''', 0),
      (''KTLS::Exchange'', ''backlog'', '''', 0), (''KTLS::Exchange'', ''alpn'', '''', 0),
      (''KTLS::Exchange'', ''cipher'', '''', 0), (''KTLS::Exchange'', ''crypto_info'', ''n'', 1),
      (''KTLS::Exchange'', ''record_sequence'', ''n'', 1),
      (''KTLS::Exchange'', ''record_limit'', '''', 0), (''KTLS::Exchange'', ''next_key'', ''n'', 1),
      (''KTLS::Exchange'', ''offload'', ''o'', 1)]"

lemma gem_arities: "list_all (\<lambda>(class, name, format, arity). length format = arity) gem_methods"
  by (simp add: gem_methods_def)

lemma gem_methods_distinct: "distinct (map (\<lambda>(class, name, format, arity). (class, name)) gem_methods)"
  by (simp add: gem_methods_def)

section \<open>Programs over KTLS::Keys\<close>

datatype rb_keys_call =
    RAddCertificate string string string
  | RAlpnSet "bytes option list"
  | RCiphersSet string

fun rb_keys_do ::
    "'z ctx_lib_scheme \<Rightarrow> rb_keys_call \<Rightarrow> ktls_keys \<Rightarrow> world \<Rightarrow>
      (rb_exn + rb_value) \<times> ktls_keys \<times> world" where
  "rb_keys_do lib (RAddCertificate host cert key) keys w = keys_add_certificate lib host cert key keys w"
| "rb_keys_do lib (RAlpnSet list) keys w = keys_alpn_set lib list keys w"
| "rb_keys_do lib (RCiphersSet suites) keys w = keys_ciphers_set lib suites keys w"

text \<open>The call without the value it returns.\<close>

definition rb_keys_effect ::
    "'z ctx_lib_scheme \<Rightarrow> rb_keys_call \<Rightarrow> ktls_keys \<Rightarrow> world \<Rightarrow> (rb_exn + unit) \<times> ktls_keys \<times> world" where
  "rb_keys_effect lib c keys w =
     (case rb_keys_do lib c keys w of (r, keys', w') \<Rightarrow> (map_sum id (\<lambda>_. ()) r, keys', w'))"

text \<open>The C call behind it, when the arguments let it come to one.\<close>

fun c_call :: "rb_keys_call \<Rightarrow> keys_call option" where
  "c_call (RAddCertificate host cert key) = Some (AddCertificate (Some host) cert key)"
| "c_call (RAlpnSet list) =
     (if list = [] \<or> 8 < length list \<or> None \<in> set list then None else Some (SetAlpn (map the list)))"
| "c_call (RCiphersSet suites) = Some (SetCiphers (Some suites))"

lemma rb_keys_effect_None:
  "c_call c = None \<Longrightarrow> \<exists>exn. rb_keys_effect lib c keys w = (Inl exn, keys, w)"
  by (cases c) (auto simp: rb_keys_effect_def keys_alpn_set_def split: if_splits)

lemma raising_effect:
  "raising v o_call = (r, keys', w') \<Longrightarrow> \<exists>s. o_call = (s, keys', w') \<and> (isl s \<longleftrightarrow> isl r)"
  by (auto simp: raising_def ktls_raise_def split: prod.splits sum.splits)

lemma rb_keys_effect_Some:
  assumes "c_call c = Some k" "rb_keys_effect lib c keys w = (r, keys', w')"
  shows "\<exists>s. keys_do lib k keys w = (s, keys', w') \<and> (s = Inr () \<longleftrightarrow> r = Inr ())"
proof -
  have unit: "s = Inr () \<longleftrightarrow> \<not> isl s" for s :: "'e + unit" by (cases s) auto
  obtain q where q: "rb_keys_do lib c keys w = (q, keys', w')" and r: "r = map_sum id (\<lambda>_. ()) q"
    using assms(2) by (auto simp: rb_keys_effect_def split: prod.splits)
  have "isl r \<longleftrightarrow> isl q" unfolding r by (cases q) simp_all
  then show ?thesis unfolding unit using assms(1) q
    by (cases c) (auto simp: keys_do_def keys_add_certificate_def keys_alpn_set_def
        keys_ciphers_set_def split: if_splits dest!: raising_effect)
qed

interpretation rkc: configurable "rb_keys_effect lib" keys_shape "keys_inv lib" owns_only for lib
proof
  fix c keys w r keys' w'
  assume e: "rb_keys_effect lib c keys w = (r, keys', w')" and "keys_shape keys w"
  then show "keys_shape keys' w'" and "owns_only keys w keys' w'"
    using rb_keys_effect_None [of c lib keys w] rb_keys_effect_Some [OF _ e] keys_do_laws
    by (cases "c_call c"; fastforce)+
next
  fix c keys w keys' w'
  assume e: "rb_keys_effect lib c keys w = (Inr (), keys', w')" and inv: "keys_inv lib keys w"
  then show "keys_inv lib keys' w'"
    using rb_keys_effect_None [of c lib keys w] rb_keys_effect_Some [OF _ e]
      keys_do_laws [OF _ keys_inv_shape [OF inv]]
    by (cases "c_call c"; fastforce)
qed (auto dest: keys_inv_shape intro: owns_only_trans)

section \<open>Properties\<close>


text \<open>
  \<open>alpn=\<close> takes effect exactly when there are one to eight names, each of 1 to 255 bytes, that
  fit the 256 bytes of the list with their lengths, and OpenSSL has the memory.
\<close>

lemma ruby_alpn_refuses:
  assumes "length (k_alpn keys) = 256"
    and "list = [] \<or> 8 < length list \<or> None \<in> set list \<or> \<not> alpn_names_ok (map the list) \<or>
      256 < length (alpn_wire (map the list))"
  shows "\<exists>exn keys' w'. keys_alpn_set lib list keys w = (Inl exn, keys', w') \<and> w_ctx w' = w_ctx w"
proof (cases "list = [] \<or> 8 < length list \<or> None \<in> set list")
  case True
  then show ?thesis by (auto simp: keys_alpn_set_def)
next
  case False
  then obtain a where "alpn_write (map the list) (k_alpn keys) 0 = (None, a)"
    using assms alpn_write_Some [of "map the list" "k_alpn keys" 0]
    by (cases "alpn_write (map the list) (k_alpn keys) 0"; cases "fst (alpn_write (map the list) (k_alpn keys) 0)")
      auto
  with False show ?thesis
    by (auto simp: keys_alpn_set_def raising_def ktls_keys_set_alpn_def fail_with_def ktls_raise_def)
qed

end
