(* ===== verification/Ktls_Ruby_Evidence.thy ===== *)
theory Ktls_Ruby_Evidence
  imports Ktls_Ruby_Programs Ktls_Ruby_Keys Ktls_Instance Ktls_Keys_Evidence
begin

text \<open>
  The properties of the Ruby surface at concrete inputs: programs over the stand-ins for
  OpenSSL, run method by method.
\<close>

text \<open>A stand-in that reads three bytes of plaintext out of whatever was fed, once.\<close>

definition chatty_lib :: "nat tls_lib" where
  "chatty_lib = demo_lib\<lparr> ssl_read := \<lambda>s i u n q. if i = [] then demo_io (-1) s [] u [] q
     else (demo_io 3 s [] u [] q)\<lparr> io_data := [1, 2, 3] \<rparr> \<rparr>"

definition chatty_env :: "nat rb_env" where
  "chatty_env = \<lparr> e_lib = chatty_lib, e_abi = demo_abi, e_ssl_new = (\<lambda>k. Some 0),
     e_blob = (\<lambda>ci n. replicate n 0), e_int_bits = 64, e_initialized = False, e_kernel = (\<lambda>call. 0) \<rparr>"

lemma chatty_laws: "bio_reads chatty_lib" "plaintext_bound chatty_lib (\<lambda>s i. length i)"
  by (simp_all add: bio_reads_def plaintext_bound_def chatty_lib_def demo_lib_def demo_io_def)

lemma chatty_env_lib [simp]: "e_lib chatty_env = chatty_lib" "e_abi chatty_env = demo_abi"
  "e_int_bits chatty_env = 64" "length (e_blob chatty_env ci n) = n"
  by (simp_all add: chatty_env_def)

text \<open>A server of one flight, two methods that raise on the way.\<close>

definition chatty_program :: "rb_call list" where
  "chatty_program = [RStep, RNew (Some 0) ''server'' True True True, RFeed (demo_record 22 [1]),
     RCryptoInfo ''up'', RStep, RTake, RFeed (demo_record 22 [20]), RStep, RTake, RBacklog]"

lemma chatty_run:
  "case rb_run chatty_env chatty_program (rb_allocated, [], [], thread_err_zero) of
     None \<Rightarrow> False
   | Some (ob, T, F, t) \<Rightarrow> (case rb_data ob of None \<Rightarrow> False | Some x \<Rightarrow> x_done x) \<and>
       T = server_sent \<and> F = client_sent \<and> rb_lost ob = []"
  by code_simp

lemma chatty_ran:
  obtains ob x t where
    "rb_run chatty_env chatty_program (rb_allocated, [], [], thread_err_zero) =
       Some (ob, server_sent, client_sent, t)" "rb_data ob = Some x" "x_done x"
proof (cases "rb_run chatty_env chatty_program (rb_allocated, [], [], thread_err_zero)")
  case None
  from chatty_run show ?thesis unfolding None option.case by (rule FalseE)
next
  case (Some r)
  obtain ob T F t where r: "r = (ob, T, F, t)" by (cases r)
  have "(case rb_data ob of None \<Rightarrow> False | Some x \<Rightarrow> x_done x) \<and> T = server_sent \<and> F = client_sent \<and>
      rb_lost ob = []"
    using chatty_run unfolding Some r option.case prod.case .
  with Some r that show ?thesis by (auto split: option.splits)
qed

theorem ruby_is_session_witness:
  "\<exists>ob x t. rb_run chatty_env chatty_program (rb_allocated, [], [], thread_err_zero) =
       Some (ob, server_sent, client_sent, t) \<and> rb_data ob = Some x \<and>
     session chatty_lib demo_abi x server_sent client_sent"
proof -
  obtain ob x t where
    r: "rb_run chatty_env chatty_program (rb_allocated, [], [], thread_err_zero) =
       Some (ob, server_sent, client_sent, t)" "rb_data ob = Some x"
    by (rule chatty_ran)
  from ruby_is_session [OF r] r show ?thesis by auto
qed

definition fed_object :: "nat rb_object" where
  "fed_object = \<lparr> rb_data = Some (sx\<lparr> x_in := Some [9, 9], x_out := Some [4, 5, 6] \<rparr>), rb_keys = None, rb_lost = [] \<rparr>"

lemma sx_wf: "exchange_wf sx"
  using live_facts [OF demo_server_live] by simp

lemma fed_object_wf: "rb_wf fed_object" "exchange_wf (sx\<lparr> x_in := Some [9, 9], x_out := Some [4, 5, 6] \<rparr>)"
proof -
  show "exchange_wf (sx\<lparr> x_in := Some [9, 9], x_out := Some [4, 5, 6] \<rparr>)"
    using sx_wf demo_server_facts(1) by (simp add: exchange_wf_def)
  then show "rb_wf fed_object" by (simp add: rb_wf_def fed_object_def)
qed

theorem ruby_methods_return_witness:
  "\<exists>r ob' t'. rb_do chatty_env RBacklog fed_object thread_err_zero = Some (r, ob', t')"
  by (rule ruby_methods_return [where m = "\<lambda>s i. length i"]) (simp_all add: chatty_laws fed_object_wf)

theorem ruby_take_all_witness:
  "\<exists>x' t'. exchange_take chatty_lib fed_object thread_err_zero =
       Some (Inr (VStr [4, 5, 6]), fed_object\<lparr> rb_data := Some x' \<rparr>, t') \<and> bio_bytes (x_out x') = []"
  using ruby_take_all [OF chatty_laws(1) _ fed_object_wf(2), of fed_object thread_err_zero]
  by (auto simp: fed_object_def bio_bytes_def)

theorem ruby_answers_witness:
  "\<exists>r ob' t'. rb_do chatty_env RStep fed_object thread_err_zero = Some (r, ob', t') \<and>
     r = Inr (VSym ''writing'') \<and> rb_answer_ok RStep fed_object r"
proof -
  obtain r ob' t' where r: "rb_do chatty_env RStep fed_object thread_err_zero = Some (r, ob', t')"
    by (cases "exchange_step chatty_lib demo_abi fed_object thread_err_zero") simp
  have "r = Inr (VSym ''writing'')"
    using r by (auto simp: exchange_step_def on_exchange_def fed_object_def ktls_exchange_step_def
        demo_server_facts step_answer_def bio_pending_def)
  with ruby_answers [OF r fed_object_wf(1)] r show ?thesis by simp
qed

text \<open>A server's keys made and configured from Ruby; the second \<open>alpn=\<close> raises.\<close>

definition ruby_keys_calls :: "rb_keys_call list" where
  "ruby_keys_calls = [RAddCertificate ''a.org'' ''C2'' ''K2'', RAlpnSet [Some [104, 50]], RCiphersSet ''S'',
     RAlpnSet []]"

end
