(* ===== verification/Ktls_Pump.thy ===== *)
theory Ktls_Pump
  imports Ktls_Loops Ktls_Agreement
begin

text \<open>
  The program src/examples/ktls_c_api.c: two exchanges in one thread, \<open>pump\<close> carrying the
  bytes of one to the other, and the loop that steps both until each has answered
  \<open>KTLS_DONE\<close>. What is proved is what the program checks with \<open>memcmp\<close>: every byte taken on
  one side was fed on the other, nothing is owed any more, and the blobs of the two ends
  agree.
\<close>

section \<open>The program\<close>

text \<open>
  \<open>pump\<close>: take what one side owes and feed it to the other; \<open>None\<close> inside the result is
  \<open>exit (1)\<close> after a failing feed, \<open>None\<close> outside a loop that does not end.
\<close>

partial_function (option) pump ::
    "'s tls_lib \<Rightarrow> nat \<Rightarrow> 's ktls_exchange \<Rightarrow> 's ktls_exchange \<Rightarrow> thread_err \<Rightarrow>
      (nat option \<times> 's ktls_exchange \<times> 's ktls_exchange \<times> thread_err) option" where
  "pump lib moved src dst t =
     (case pulled (ktls_exchange_take lib chunk src t) of (buf, src1, t1) \<Rightarrow>
        if length buf = 0 then Some (Some moved, src1, dst, t1)
        else (case ktls_exchange_feed lib buf dst t1 of
            (Inl f, dst1, t2) \<Rightarrow> Some (None, src1, dst1, t2)
          | (Inr u, dst1, t2) \<Rightarrow> pump lib (moved + length buf) src1 dst1 t2))"

declare pump.simps [code]

text \<open>
  The loop of \<open>main\<close>. How it ends: with the number of rounds and the last answers of the
  server and of the client, or with \<open>return 1\<close> or \<open>exit (1)\<close> on a failure.
\<close>

datatype drive_end = Drove nat ktls_step ktls_step | Died

text \<open>One round: step the client, pump, step the server, pump.\<close>

definition drive_round ::
    "'s tls_lib \<Rightarrow> kernel_abi \<Rightarrow> 's ktls_exchange \<Rightarrow> 's ktls_exchange \<Rightarrow> thread_err \<Rightarrow>
      ((ktls_step \<times> ktls_step) option \<times> 's ktls_exchange \<times> 's ktls_exchange \<times> thread_err) option" where
  "drive_round lib abi s c t =
     (case ktls_exchange_step lib abi c t of
        (Inl f, c1, t1) \<Rightarrow> Some (None, s, c1, t1)
      | (Inr cs, c1, t1) \<Rightarrow>
     (case pump lib 0 c1 s t1 of
        None \<Rightarrow> None
      | Some (None, c2, s1, t2) \<Rightarrow> Some (None, s1, c2, t2)
      | Some (Some n, c2, s1, t2) \<Rightarrow>
     (case ktls_exchange_step lib abi s1 t2 of
        (Inl f, s2, t3) \<Rightarrow> Some (None, s2, c2, t3)
      | (Inr ss, s2, t3) \<Rightarrow>
     (case pump lib 0 s2 c2 t3 of
        None \<Rightarrow> None
      | Some (None, s3, c3, t4) \<Rightarrow> Some (None, s3, c3, t4)
      | Some (Some m, s3, c3, t4) \<Rightarrow> Some (Some (ss, cs), s3, c3, t4)))))"

text \<open>\<open>while ((ss != KTLS_DONE || cs != KTLS_DONE) && rounds++ < 64)\<close>, \<open>left\<close> rounds being left.\<close>

fun drive ::
    "'s tls_lib \<Rightarrow> kernel_abi \<Rightarrow> nat \<Rightarrow> nat \<Rightarrow> ktls_step \<Rightarrow> ktls_step \<Rightarrow>
      's ktls_exchange \<Rightarrow> 's ktls_exchange \<Rightarrow> thread_err \<Rightarrow>
      (drive_end \<times> 's ktls_exchange \<times> 's ktls_exchange \<times> thread_err) option" where
  "drive lib abi 0 rounds ss cs s c t =
     (if ss = KTLS_DONE \<and> cs = KTLS_DONE then Some (Drove rounds ss cs, s, c, t)
      else Some (Drove (rounds + 1) ss cs, s, c, t))"
| "drive lib abi (Suc left) rounds ss cs s c t =
     (if ss = KTLS_DONE \<and> cs = KTLS_DONE then Some (Drove rounds ss cs, s, c, t)
      else (case drive_round lib abi s c t of
          None \<Rightarrow> None
        | Some (None, s1, c1, t1) \<Rightarrow> Some (Died, s1, c1, t1)
        | Some (Some (ss1, cs1), s1, c1, t1) \<Rightarrow>
            drive lib abi left (rounds + 1) ss1 cs1 s1 c1 t1))"

definition exchange_loop ::
    "'s tls_lib \<Rightarrow> kernel_abi \<Rightarrow> 's ktls_exchange \<Rightarrow> 's ktls_exchange \<Rightarrow> thread_err \<Rightarrow>
      (drive_end \<times> 's ktls_exchange \<times> 's ktls_exchange \<times> thread_err) option" where
  "exchange_loop lib abi s c t = drive lib abi 64 0 KTLS_READING KTLS_READING s c t"

section \<open>What pump moves\<close>

text \<open>
  Any property of the two exchanges that survives one take and one feed of the same bytes
  survives \<open>pump\<close>.
\<close>

lemma pump_keeps:
  assumes ret: "pump lib moved src dst t = Some (Some n, src', dst', t')" and init: "Q src dst"
    and idle: "\<And>x y u x' u'. Q x y \<Longrightarrow> pulled (ktls_exchange_take lib chunk x u) = ([], x', u') \<Longrightarrow> Q x' y"
    and move: "\<And>x y u b x' u' r y' u''. Q x y \<Longrightarrow> b \<noteq> [] \<Longrightarrow>
      ktls_exchange_take lib chunk x u = (Inr b, x', u') \<Longrightarrow>
      ktls_exchange_feed lib b y u' = (Inr r, y', u'') \<Longrightarrow> Q x' y'"
  shows "Q src' dst'"
proof -
  let ?P = "\<lambda>l (moved :: nat) x y (u :: thread_err) r. l = lib \<longrightarrow> Q x y \<longrightarrow>
     (case r of (None, _) \<Rightarrow> True | (Some _, x', y', _) \<Rightarrow> Q x' y')"
  have "lib = lib \<longrightarrow> Q src dst \<longrightarrow>
      (case (Some n, src', dst', t') of (None, _) \<Rightarrow> True | (Some _, x', y', _) \<Rightarrow> Q x' y')"
  proof (rule pump.raw_induct [where P = ?P, OF _ ret])
    fix f l moved x y u r
    assume IH: "\<And>l moved x y u r. f l moved x y u = Some r \<Longrightarrow> ?P l moved x y u r"
      and eq: "(case pulled (ktls_exchange_take l chunk x u) of (buf, src1, t1) \<Rightarrow>
        if length buf = 0 then Some (Some moved, src1, y, t1)
        else (case ktls_exchange_feed l buf y t1 of
            (Inl f, dst1, t2) \<Rightarrow> Some (None, src1, dst1, t2)
          | (Inr u, dst1, t2) \<Rightarrow> f l (moved + length buf) src1 dst1 t2)) = Some r"
    show "?P l moved x y u r"
    proof (intro impI)
      assume l: "l = lib" and Q: "Q x y"
      obtain b x1 u1 where b: "pulled (ktls_exchange_take lib chunk x u) = (b, x1, u1)"
        by (cases "pulled (ktls_exchange_take lib chunk x u)") auto
      show "case r of (None, _) \<Rightarrow> True | (Some _, x', y', _) \<Rightarrow> Q x' y'"
      proof (cases "b = []")
        case True
        with eq b l idle [OF Q, of u x1 u1] show ?thesis by auto
      next
        case False
        with b have e: "ktls_exchange_take lib chunk x u = (Inr b, x1, u1)"
          by (auto simp: pulled_def split: prod.splits sum.splits)
        obtain q y1 u2 where g: "ktls_exchange_feed lib b y u1 = (q, y1, u2)"
          by (cases "ktls_exchange_feed lib b y u1") auto
        show ?thesis
        proof (cases q)
          case (Inl h)
          with eq b False l g show ?thesis by auto
        next
          case (Inr v)
          with eq b False l g have "f lib (moved + length b) x1 y1 u2 = Some r" by simp
          from IH [OF this] move [OF Q False e g [unfolded Inr]] show ?thesis by simp
        qed
      qed
    qed
  qed
  with init show ?thesis by simp
qed

text \<open>What OpenSSL documents for \<open>BIO_write\<close> on a memory BIO: it takes everything.\<close>

definition bio_writes :: "'s tls_lib \<Rightarrow> bool" where
  "bio_writes lib \<longleftrightarrow> (\<forall>p n. 0 \<le> n \<longrightarrow> bio_write_ret lib p n = n)"

lemma take_chunk:
  assumes "ktls_exchange_take lib chunk x t = (Inr b, x', t')" "bio_reads lib"
  shows "length b \<le> chunk"
  using assms(1)
proof (cases rule: ktls_exchange_take_cases)
  case (taken n)
  have c: "c_int chunk = 16384" by (simp add: chunk_def)
  have "bio_read_ret lib p 16384 \<le> 16384" for p
    using assms(2) [unfolded bio_reads_def, rule_format, of 16384 p] by (auto split: if_splits)
  then have "n \<le> 16384" unfolding taken(4) c by (simp add: nat_le_iff)
  with taken(5) show ?thesis by (simp add: chunk_def)
qed simp_all

lemma feed_kept:
  assumes "ktls_exchange_feed lib bs x t = (r, x', t')"
  shows "x_ssl x' = x_ssl x \<and> x_out x' = x_out x \<and> x_done x' = x_done x \<and> x_rekeyed x' = x_rekeyed x"
  using assms by (cases rule: ktls_exchange_feed_cases) simp_all

lemma take_kept:
  assumes "ktls_exchange_take lib cap x t = (r, x', t')"
  shows "x_ssl x' = x_ssl x \<and> x_in x' = x_in x \<and> x_done x' = x_done x \<and> x_rekeyed x' = x_rekeyed x"
  using assms by (cases rule: ktls_exchange_take_cases) simp_all

lemma feed_succeeds:
  assumes "bio_writes lib" "x_ssl x \<noteq> None" "length bs \<le> chunk"
  shows "\<exists>x'. ktls_exchange_feed lib bs x t = (Inr (), x', t)"
proof -
  have "c_int (length bs) = int (length bs)" using assms(3) by (simp add: chunk_def)
  with assms(1,2) show ?thesis by (auto simp: ktls_exchange_feed_def bio_writes_def Let_def)
qed

lemma pump_returns:
  assumes laws: "bio_reads lib" "bio_writes lib"
  shows "x_ssl src \<noteq> None \<Longrightarrow> x_ssl dst \<noteq> None \<Longrightarrow>
    \<exists>src' dst' t'. pump lib moved src dst t =
        Some (Some (moved + length (bio_bytes (x_out src))), src', dst', t') \<and>
      bio_bytes (x_out src') = [] \<and> x_ssl src' = x_ssl src \<and> x_ssl dst' = x_ssl dst \<and>
      x_out dst' = x_out dst"
proof (induction "length (bio_bytes (x_out src))" arbitrary: src dst t moved rule: less_induct)
  case less
  obtain b x1 t1 where b: "pulled (ktls_exchange_take lib chunk src t) = (b, x1, t1)"
    by (cases "pulled (ktls_exchange_take lib chunk src t)") auto
  then obtain r where e: "ktls_exchange_take lib chunk src t = (r, x1, t1)"
    by (auto simp: pulled_def split: prod.splits)
  note front = take_pull_cases [of lib src t b x1 t1, unfolded take_pull_def prod.case, OF b laws(1)]
  have ssl: "x_ssl x1 = x_ssl src" using take_kept [OF e] by simp
  show ?case
  proof (cases "b = []")
    case True
    with front less.prems have "bio_bytes (x_out src) = []" "bio_bytes (x_out x1) = []" by auto
    then show ?thesis using True b ssl by (subst pump.simps) simp
  next
    case False
    with b e have r: "r = Inr b" by (auto simp: pulled_def split: sum.splits)
    obtain y where f: "ktls_exchange_feed lib b dst t1 = (Inr (), y, t1)"
      using feed_succeeds [OF laws(2) less.prems(2) take_chunk [OF e [unfolded r] laws(1)]] by blast
    have rest: "bio_bytes (x_out src) = b @ bio_bytes (x_out x1)" using front(1) less.prems by simp
    then have "length (bio_bytes (x_out x1)) < length (bio_bytes (x_out src))" using False by simp
    from less.hyps [OF this _ _, of y "moved + length b" t1] obtain src' dst' t' where
      p: "pump lib (moved + length b) x1 y t1 = Some (Some (moved + length b +
            length (bio_bytes (x_out x1))), src', dst', t')"
        "bio_bytes (x_out src') = []" "x_ssl src' = x_ssl x1" "x_ssl dst' = x_ssl y"
        "x_out dst' = x_out y"
      using less.prems ssl feed_kept [OF f] by auto
    then show ?thesis using b False f rest ssl feed_kept [OF f] by (subst pump.simps) simp
  qed
qed

section \<open>The two ends\<close>

text \<open>
  An end of the connection: a session, a live one once its handshake is done, and no key
  changed yet.
\<close>

definition end_ok :: "'s tls_lib \<Rightarrow> kernel_abi \<Rightarrow> 's ktls_exchange \<Rightarrow> bytes \<Rightarrow> bytes \<Rightarrow> bool" where
  "end_ok lib abi x T F \<longleftrightarrow> session lib abi x T F \<and> (x_done x \<longrightarrow> live lib abi x T F) \<and>
     x_rekeyed x = (\<lambda>_. False)"

lemma end_ok_open:
  assumes "fst (ktls_exchange_open lib (ssl_new :: nat \<Rightarrow> 's option) a b c keys role t) = Inr x"
  shows "end_ok lib abi x [] []"
proof -
  have "\<not> x_done x \<and> x_rekeyed x = (\<lambda>_. False)"
    using assms by (auto simp: ktls_exchange_open_def exchange_zero_def split: option.splits if_splits)
  with session.opened [OF assms] show ?thesis by (simp add: end_ok_def)
qed

lemma end_ok_feed:
  assumes "end_ok lib abi x T F" "ktls_exchange_feed lib bs x t = (Inr u, x', t')"
  shows "end_ok lib abi x' T (F @ bs)"
proof -
  have e: "ktls_exchange_feed lib bs x t = (Inr (), x', t')" using assms(2) by simp
  show ?thesis
    using assms(1) session.fed [OF _ e] live.fed [OF _ e] feed_kept [OF e] by (simp add: end_ok_def)
qed

lemma end_ok_take:
  assumes "end_ok lib abi x T F" "pulled (ktls_exchange_take lib cap x t) = (b, x', t')"
  shows "end_ok lib abi x' (T @ b) F"
proof -
  obtain r where e: "ktls_exchange_take lib cap x t = (r, x', t')"
    and b: "b = (case r of Inl f \<Rightarrow> [] | Inr g \<Rightarrow> g)"
    using assms(2) by (auto simp: pulled_def split: prod.splits)
  show ?thesis
  proof (cases r)
    case (Inl f)
    with e have "x' = x" by (auto elim: ktls_exchange_take_cases)
    with Inl b assms(1) show ?thesis by simp
  next
    case (Inr g)
    with assms(1) e b take_kept [OF e] show ?thesis
      by (auto simp: end_ok_def intro: session.taken live.taken)
  qed
qed

lemma end_ok_step:
  assumes "end_ok lib abi x T F" "ktls_exchange_step lib abi x t = (Inr a, x', t')"
  shows "end_ok lib abi x' T F" "a = KTLS_DONE \<Longrightarrow> x_done x'"
proof -
  have ses: "session lib abi x' T F"
    using assms by (auto simp: end_ok_def intro: session.stepped)
  moreover have "live lib abi x' T F" if "x_done x'"
    using assms that by (cases "x_done x") (auto simp: end_ok_def intro: live.stepped live.finished)
  moreover have "x_rekeyed x' = x_rekeyed x"
    using assms(2) by (cases rule: ktls_exchange_step_cases) (simp_all add: ktls_derive_both_sel)
  ultimately show "end_ok lib abi x' T F" using assms(1) by (simp add: end_ok_def)
  show "x_done x'" if "a = KTLS_DONE"
    using assms(2) that
    by (cases rule: ktls_exchange_step_cases) (auto simp: step_answer_def split: if_splits)
qed

lemma pump_ends:
  assumes "pump lib 0 src dst t = Some (Some n, src', dst', t')"
    and "end_ok lib abi src T F" "end_ok lib abi dst U G"
  shows "\<exists>b. end_ok lib abi src' (T @ b) F \<and> end_ok lib abi dst' U (G @ b)"
proof (rule pump_keeps [OF assms(1), where
      Q = "\<lambda>x y. \<exists>b. end_ok lib abi x (T @ b) F \<and> end_ok lib abi y U (G @ b)"])
  show "\<exists>b. end_ok lib abi src (T @ b) F \<and> end_ok lib abi dst U (G @ b)"
    using assms(2,3) by (intro exI [of _ "[]"]) simp
next
  fix x y u x' u'
  assume "\<exists>b. end_ok lib abi x (T @ b) F \<and> end_ok lib abi y U (G @ b)"
    and "pulled (ktls_exchange_take lib chunk x u) = ([], x', u')"
  then show "\<exists>b. end_ok lib abi x' (T @ b) F \<and> end_ok lib abi y U (G @ b)"
    using end_ok_take [of lib abi x _ F chunk u "[]" x' u'] by fastforce
next
  fix x y u b x' u' r y' u''
  assume "\<exists>b. end_ok lib abi x (T @ b) F \<and> end_ok lib abi y U (G @ b)"
    and t: "ktls_exchange_take lib chunk x u = (Inr b, x', u')"
    and f: "ktls_exchange_feed lib b y u' = (Inr r, y', u'')"
  then obtain b0 where ends: "end_ok lib abi x (T @ b0) F" "end_ok lib abi y U (G @ b0)" by blast
  have "end_ok lib abi x' (T @ b0 @ b) F"
    using end_ok_take [OF ends(1), of chunk u b x' u'] t by (simp add: pulled_def)
  moreover have "end_ok lib abi y' U (G @ b0 @ b)" using end_ok_feed [OF ends(2) f] by simp
  ultimately show "\<exists>b. end_ok lib abi x' (T @ b) F \<and> end_ok lib abi y' U (G @ b)" by blast
qed

lemma pump_done:
  assumes "pump lib 0 src dst t = Some (Some n, src', dst', t')"
  shows "x_done src' = x_done src \<and> x_done dst' = x_done dst"
proof (rule pump_keeps [OF assms, where Q = "\<lambda>x y. x_done x = x_done src \<and> x_done y = x_done dst"])
  fix x y u x' u'
  assume "x_done x = x_done src \<and> x_done y = x_done dst"
    and "pulled (ktls_exchange_take lib chunk x u) = ([], x', u')"
  then show "x_done x' = x_done src \<and> x_done y = x_done dst"
    using take_kept by (fastforce simp: pulled_def split: prod.splits)
next
  fix x y u b x' u' r y' u''
  assume "x_done x = x_done src \<and> x_done y = x_done dst"
    "ktls_exchange_take lib chunk x u = (Inr b, x', u')"
    "ktls_exchange_feed lib b y u' = (Inr r, y', u'')"
  then show "x_done x' = x_done src \<and> x_done y' = x_done dst"
    using take_kept feed_kept by metis
qed simp

text \<open>
  What holds at the head of the loop: nothing is owed, and what one side took is what the
  other was fed.
\<close>

definition linked :: "'s tls_lib \<Rightarrow> kernel_abi \<Rightarrow> 's ktls_exchange \<Rightarrow> 's ktls_exchange \<Rightarrow> bool" where
  "linked lib abi s c \<longleftrightarrow> x_ssl s \<noteq> None \<and> x_ssl c \<noteq> None \<and>
     bio_bytes (x_out s) = [] \<and> bio_bytes (x_out c) = [] \<and>
     (\<exists>S C. end_ok lib abi s S C \<and> end_ok lib abi c C S)"

lemma linked_sym: "linked lib abi s c \<Longrightarrow> linked lib abi c s"
  unfolding linked_def by blast

text \<open>Half a round: one side steps and the other is fed.\<close>

lemma half_round:
  assumes laws: "bio_reads lib" "bio_writes lib" and linked: "linked lib abi s c"
    and step: "ktls_exchange_step lib abi c t = (Inr a, c1, t1)"
  shows "\<exists>n c2 s1 t2. pump lib 0 c1 s t1 = Some (Some n, c2, s1, t2) \<and> linked lib abi s1 c2 \<and>
    (a = KTLS_DONE \<longrightarrow> x_done c2) \<and> x_done s1 = x_done s"
proof -
  obtain S C where ends: "end_ok lib abi s S C" "end_ok lib abi c C S"
    using linked unfolding linked_def by blast
  note stepped = end_ok_step [OF ends(2) step]
  have "x_ssl c1 \<noteq> None"
    using step by (cases rule: ktls_exchange_step_cases) (auto simp: ktls_derive_both_sel)
  moreover have "x_ssl s \<noteq> None" "bio_bytes (x_out s) = []"
    using linked by (simp_all add: linked_def)
  ultimately obtain n c2 s1 t2 where p: "pump lib 0 c1 s t1 = Some (Some n, c2, s1, t2)"
    and out: "bio_bytes (x_out c2) = []" "bio_bytes (x_out s1) = []"
    and ssl: "x_ssl c2 \<noteq> None" "x_ssl s1 \<noteq> None"
    using pump_returns [OF laws, of c1 s 0 t1] by auto
  obtain b where "end_ok lib abi c2 (C @ b) S" "end_ok lib abi s1 S (C @ b)"
    using pump_ends [OF p stepped(1) ends(1)] by blast
  with out ssl have "linked lib abi s1 c2" unfolding linked_def by blast
  with p stepped(2) pump_done [OF p] show ?thesis by blast
qed

lemma round_linked:
  assumes laws: "bio_reads lib" "bio_writes lib" and linked: "linked lib abi s c"
  shows "\<exists>r s' c' t'. drive_round lib abi s c t = Some (r, s', c', t') \<and>
    (\<forall>ss cs. r = Some (ss, cs) \<longrightarrow> linked lib abi s' c' \<and>
      (ss = KTLS_DONE \<longrightarrow> x_done s') \<and> (cs = KTLS_DONE \<longrightarrow> x_done c'))"
proof -
  obtain q c1 t1 where q: "ktls_exchange_step lib abi c t = (q, c1, t1)"
    by (cases "ktls_exchange_step lib abi c t") auto
  show ?thesis
  proof (cases q)
    case (Inl f)
    with q show ?thesis by (simp add: drive_round_def)
  next
    case (Inr cs)
    obtain n c2 s1 t2 where p: "pump lib 0 c1 s t1 = Some (Some n, c2, s1, t2)"
      and l1: "linked lib abi s1 c2" "cs = KTLS_DONE \<longrightarrow> x_done c2"
      using half_round [OF laws linked q [unfolded Inr]] by blast
    obtain q2 s2 t3 where q2: "ktls_exchange_step lib abi s1 t2 = (q2, s2, t3)"
      by (cases "ktls_exchange_step lib abi s1 t2") auto
    show ?thesis
    proof (cases q2)
      case (Inl f)
      with q q2 p Inr show ?thesis by (simp add: drive_round_def)
    next
      case (Inr ss)
      obtain m s3 c3 t4 where p2: "pump lib 0 s2 c2 t3 = Some (Some m, s3, c3, t4)"
        and l2: "linked lib abi c3 s3" "ss = KTLS_DONE \<longrightarrow> x_done s3" "x_done c3 = x_done c2"
        using half_round [OF laws linked_sym [OF l1(1)] q2 [unfolded Inr]] by blast
      have "drive_round lib abi s c t = Some (Some (ss, cs), s3, c3, t4)"
        using q \<open>q = Inr cs\<close> q2 Inr p p2 by (simp add: drive_round_def)
      with l2 l1(2) linked_sym [OF l2(1)] show ?thesis by simp
    qed
  qed
qed

lemma drive_linked:
  assumes laws: "bio_reads lib" "bio_writes lib"
  shows "linked lib abi s c \<Longrightarrow> (ss = KTLS_DONE \<longrightarrow> x_done s) \<Longrightarrow> (cs = KTLS_DONE \<longrightarrow> x_done c) \<Longrightarrow>
    \<exists>e s' c' t'. drive lib abi left rounds ss cs s c t = Some (e, s', c', t') \<and>
      (\<forall>n ss' cs'. e = Drove n ss' cs' \<longrightarrow> n \<le> rounds + left +
        (if ss' = KTLS_DONE \<and> cs' = KTLS_DONE then 0 else 1) \<and> linked lib abi s' c' \<and>
        (ss' = KTLS_DONE \<longrightarrow> x_done s') \<and> (cs' = KTLS_DONE \<longrightarrow> x_done c'))"
proof (induction left arbitrary: rounds ss cs s c t)
  case 0
  then show ?case by simp
next
  case (Suc left)
  show ?case
  proof (cases "ss = KTLS_DONE \<and> cs = KTLS_DONE")
    case True
    with Suc.prems show ?thesis by simp
  next
    case False
    obtain r s1 c1 t1 where r: "drive_round lib abi s c t = Some (r, s1, c1, t1)"
      and l: "\<And>ss cs. r = Some (ss, cs) \<Longrightarrow> linked lib abi s1 c1 \<and>
        (ss = KTLS_DONE \<longrightarrow> x_done s1) \<and> (cs = KTLS_DONE \<longrightarrow> x_done c1)"
      using round_linked [OF laws Suc.prems(1), of t] by blast
    show ?thesis
    proof (cases r)
      case None
      with r False show ?thesis by auto
    next
      case (Some a)
      obtain ss1 cs1 where a: "a = (ss1, cs1)" by (cases a)
      with l Some have l1: "linked lib abi s1 c1" "ss1 = KTLS_DONE \<longrightarrow> x_done s1"
        "cs1 = KTLS_DONE \<longrightarrow> x_done c1" by auto
      obtain e s' c' t' where d: "drive lib abi left (rounds + 1) ss1 cs1 s1 c1 t1 = Some (e, s', c', t')"
        and all: "\<And>n ss' cs'. e = Drove n ss' cs' \<Longrightarrow> n \<le> rounds + 1 + left +
          (if ss' = KTLS_DONE \<and> cs' = KTLS_DONE then 0 else 1) \<and> linked lib abi s' c' \<and> (ss' = KTLS_DONE \<longrightarrow> x_done s') \<and> (cs' = KTLS_DONE \<longrightarrow> x_done c')"
        using Suc.IH [OF l1, of "rounds + 1" t1] by blast
      have eq: "drive lib abi (Suc left) rounds ss cs s c t = Some (e, s', c', t')"
        using r Some a False d by auto
      have "n \<le> rounds + Suc left +
          (if ss' = KTLS_DONE \<and> cs' = KTLS_DONE then 0 else 1) \<and> linked lib abi s' c' \<and>
          (ss' = KTLS_DONE \<longrightarrow> x_done s') \<and> (cs' = KTLS_DONE \<longrightarrow> x_done c')"
        if "e = Drove n ss' cs'" for n ss' cs'
        using all [OF that] by simp
      with eq show ?thesis by blast
    qed
  qed
qed

section \<open>What the program checks\<close>

lemma opened_linked:
  assumes "fst (ktls_exchange_open lib (ssl_new :: nat \<Rightarrow> 's option) a b c keys role t) = Inr s"
    and "fst (ktls_exchange_open lib (ssl_new' :: nat \<Rightarrow> 's option) a' b' c' keys' role' t') = Inr x"
  shows "linked lib abi s x" "\<not> x_done s" "\<not> x_done x"
proof -
  have new: "x_ssl y \<noteq> None \<and> x_out y = Some [] \<and> \<not> x_done y"
    if "fst (ktls_exchange_open lib (ssl_new :: nat \<Rightarrow> 's option) a b c keys role t) = Inr y"
    for y ssl_new a b c keys role t
    using that by (auto simp: ktls_exchange_open_def exchange_zero_def split: option.splits if_splits)
  show "\<not> x_done s" "\<not> x_done x" using new assms by blast+
  show "linked lib abi s x"
    using new [OF assms(1)] new [OF assms(2)] end_ok_open [OF assms(1)] end_ok_open [OF assms(2)]
    unfolding linked_def by (auto simp: bio_bytes_def)
qed

text \<open>
  C20: The loop of the example ends: two new exchanges driven by it are stepped at most 64 times
  each, every pump inside a round returns and leaves nothing owed, and when both sides have
  answered KTLS_DONE, each of them is a finished session whose bytes taken are exactly the
  bytes the other was fed.
\<close>

theorem exchange_loop_ends:
  assumes laws: "bio_reads lib" "bio_writes lib"
    and s: "fst (ktls_exchange_open lib (ssl_new :: nat \<Rightarrow> 's option) a1 a2 a3 sk KTLS_SERVER t1) = Inr s"
    and c: "fst (ktls_exchange_open lib (ssl_new' :: nat \<Rightarrow> 's option) b1 b2 b3 ck KTLS_CLIENT t2) = Inr c"
  shows "\<exists>e s' c' t'. exchange_loop lib abi s c t = Some (e, s', c', t') \<and>
    (\<forall>n. e = Drove n KTLS_DONE KTLS_DONE \<longrightarrow> n \<le> 64 \<and>
      bio_bytes (x_out s') = [] \<and> bio_bytes (x_out c') = [] \<and>
      (\<exists>S C. live lib abi s' S C \<and> live lib abi c' C S))"
proof -
  have "\<exists>e s' c' t'. exchange_loop lib abi s c t = Some (e, s', c', t') \<and>
      (\<forall>n ss cs. e = Drove n ss cs \<longrightarrow>
        n \<le> 0 + 64 + (if ss = KTLS_DONE \<and> cs = KTLS_DONE then 0 else 1) \<and> linked lib abi s' c' \<and>
        (ss = KTLS_DONE \<longrightarrow> x_done s') \<and> (cs = KTLS_DONE \<longrightarrow> x_done c'))"
    unfolding exchange_loop_def by (rule drive_linked [OF laws opened_linked(1) [OF s c]]) simp_all
  then show ?thesis unfolding linked_def end_ok_def by fastforce
qed

lemma loop_done:
  assumes laws: "bio_reads lib" "bio_writes lib"
    and s: "fst (ktls_exchange_open lib (ssl_new :: nat \<Rightarrow> 's option) a1 a2 a3 sk KTLS_SERVER t1) = Inr s0"
    and c: "fst (ktls_exchange_open lib (ssl_new' :: nat \<Rightarrow> 's option) b1 b2 b3 ck KTLS_CLIENT t2) = Inr c0"
    and loop: "exchange_loop lib abi s0 c0 t = Some (Drove n KTLS_DONE KTLS_DONE, s1, c1, t3)"
  shows "\<exists>S C. end_ok lib abi s1 S C \<and> end_ok lib abi c1 C S \<and> x_done s1 \<and> x_done c1"
proof -
  have "\<exists>e s' c' t'. exchange_loop lib abi s0 c0 t = Some (e, s', c', t') \<and>
      (\<forall>n ss cs. e = Drove n ss cs \<longrightarrow>
        n \<le> 0 + 64 + (if ss = KTLS_DONE \<and> cs = KTLS_DONE then 0 else 1) \<and> linked lib abi s' c' \<and>
        (ss = KTLS_DONE \<longrightarrow> x_done s') \<and> (cs = KTLS_DONE \<longrightarrow> x_done c'))"
    unfolding exchange_loop_def
    by (rule drive_linked [OF laws(1,2) opened_linked(1) [OF s c]]) simp_all
  with loop have "linked lib abi s1 c1" and don: "x_done s1" "x_done c1" by auto
  then obtain S C where ends: "end_ok lib abi s1 S C" "end_ok lib abi c1 C S"
    unfolding linked_def by blast
  with don show ?thesis by blast
qed

lemma backlog_end_ok:
  assumes "ktls_exchange_backlog lib cap x t = (p, x', t')" "end_ok lib abi x T F" "x_done x"
  shows "live lib abi x' T F" "x_rekeyed x' = (\<lambda>_. False)"
proof -
  show "live lib abi x' T F"
    using assms live.backlogged [OF _ assms(1)] unfolding end_ok_def by blast
  have "x_rekeyed x' = x_rekeyed x"
    using assms(1) by (cases rule: ktls_exchange_backlog_cases) simp_all
  with assms(2) show "x_rekeyed x' = (\<lambda>_. False)" by (simp add: end_ok_def)
qed

text \<open>
  What the example checks with \<open>memcmp\<close>: once the loop has brought both sides to
  KTLS_DONE and both backlogs have been read to the end, the server's sending blob is the
  client's receiving blob and the other way round, each with the same length, provided the
  handshake left the two with the same suite and secrets and each with the other's mark of
  where the application records begin.
\<close>

theorem exchange_loop_agrees:
  assumes laws: "bio_reads lib" "bio_writes lib" "quiet_reads lib"
    and s: "fst (ktls_exchange_open lib (ssl_new :: nat \<Rightarrow> 's option) a1 a2 a3 sk KTLS_SERVER t1) = Inr s0"
    and c: "fst (ktls_exchange_open lib (ssl_new' :: nat \<Rightarrow> 's option) b1 b2 b3 ck KTLS_CLIENT t2) = Inr c0"
    and loop: "exchange_loop lib abi s0 c0 t = Some (Drove n KTLS_DONE KTLS_DONE, s1, c1, t3)"
    and backlog: "ktls_exchange_backlog lib cap s1 t3 = (p, s, t4)"
      "ktls_exchange_backlog lib cap c1 t4 = (q, c, t5)" "x_in s = Some []" "x_in c = Some []"
    and sides: "x_server s" "\<not> x_server c" and cipher: "x_cipher s = x_cipher c"
    and secrets: "\<And>w. slot_secret s w = slot_secret c w"
    and marks: "x_tx_at_done s = x_rx_at_done c" "x_tx_at_done c = x_rx_at_done s"
    and stx: "ktls_crypto_info lib s KTLS_TX u1 = (Inr sti, s2, u2)"
    and srx: "ktls_crypto_info lib s KTLS_RX u3 = (Inr sri, s3, u4)"
    and ctx: "ktls_crypto_info lib c KTLS_TX u5 = (Inr cti, c2, u6)"
    and crx: "ktls_crypto_info lib c KTLS_RX u7 = (Inr cri, c3, u8)"
  shows "sti = cri \<and> cti = sri"
proof -
  obtain S C where ends: "end_ok lib abi s1 S C" "end_ok lib abi c1 C S" and don: "x_done s1" "x_done c1"
    using loop_done [OF laws(1,2) s c loop] by blast
  note bs = backlog_end_ok [OF backlog(1) ends(1) don(1)]
  note bc = backlog_end_ok [OF backlog(2) ends(2) don(2)]
  have "sti = cri" 
    using live_blobs_agree [OF bs(1) bc(1) laws(3) backlog(4) marks(1) _ cipher _ _, of u1
        "fst sti" "snd sti" s2 u2 u7 "fst cri" "snd cri" c3 u8] sides secrets bs(2) bc(2) stx crx
    by (simp add: prod_eq_iff)
  moreover have "cti = sri" 
    using live_blobs_agree [OF bc(1) bs(1) laws(3) backlog(3) marks(2) _ cipher [symmetric] _ _, of u5
        "fst cti" "snd cti" c2 u6 u3 "fst sri" "snd sri" s3 u4] sides secrets bs(2) bc(2) ctx srx
    by (simp add: prod_eq_iff)
  ultimately show ?thesis by blast
qed

end
