(* ===== verification/Ktls_Handles.thy ===== *)
theory Ktls_Handles
  imports Ktls_Pump
begin

text \<open>
  The handles of src/include/ktls.hpp, the classes \<open>Keys\<close> and \<open>Exchange\<close>: move-only owners of
  a pointer from the C functions. A program is a list of what C++ does to handle objects
  (construct, move, assign, destroy), and what is proved is that no such program frees a
  pointer twice or loses one. Then the C++ example, whose loop is the one of the C example
  with the failures ignored.
\<close>

section \<open>The heap and a handle\<close>

text \<open>
  What the C functions allocated: the pointers alive, the next one, and whether a pointer
  that is not alive was ever given to the free function.
\<close>

record c_heap =
  h_live :: "nat \<Rightarrow> bool"
  h_next :: nat
  h_bad :: bool

text \<open>\<open>ktls_keys_free\<close> and \<open>ktls_exchange_free\<close> as far as the heap goes: NULL is fine.\<close>

definition raw_free :: "nat option \<Rightarrow> c_heap \<Rightarrow> c_heap" where
  "raw_free p h = (case p of
     None \<Rightarrow> h
   | Some a \<Rightarrow> if h_live h a then h\<lparr> h_live := (h_live h)(a := False) \<rparr> else h\<lparr> h_bad := True \<rparr>)"

text \<open>\<open>ktls_keys_server\<close>, \<open>ktls_keys_client\<close>, \<open>ktls_exchange_open\<close>: a new pointer, or NULL.\<close>

definition raw_make :: "bool \<Rightarrow> c_heap \<Rightarrow> nat option \<times> c_heap" where
  "raw_make succeeds h =
     (if succeeds
      then (Some (h_next h), h\<lparr> h_live := (h_live h)(h_next h := True), h_next := h_next h + 1 \<rparr>)
      else (None, h))"

text \<open>
  The members of \<open>class Keys\<close> that touch \<open>k_\<close>: \<open>Keys (Keys&& o)\<close>, \<open>operator=\<close>, \<open>~Keys ()\<close>,
  \<open>operator bool\<close>. Each answers with the pointers afterwards.
\<close>

definition keys_move :: "nat option \<Rightarrow> nat option \<times> nat option" where
  "keys_move o_k = (o_k, None)"

definition keys_assign ::
    "bool \<Rightarrow> nat option \<Rightarrow> nat option \<Rightarrow> c_heap \<Rightarrow> nat option \<times> nat option \<times> c_heap" where
  "keys_assign same k o_k h = (if \<not> same then (o_k, None, raw_free k h) else (k, o_k, h))"

definition keys_destroy :: "nat option \<Rightarrow> c_heap \<Rightarrow> c_heap" where
  "keys_destroy k h = raw_free k h"

definition keys_bool :: "nat option \<Rightarrow> bool" where
  "keys_bool k \<longleftrightarrow> k \<noteq> None"

text \<open>And those of \<open>class Exchange\<close>, over \<open>x_\<close>.\<close>

definition exchange_move :: "nat option \<Rightarrow> nat option \<times> nat option" where
  "exchange_move o_x = (o_x, None)"

definition exchange_assign ::
    "bool \<Rightarrow> nat option \<Rightarrow> nat option \<Rightarrow> c_heap \<Rightarrow> nat option \<times> nat option \<times> c_heap" where
  "exchange_assign same x o_x h = (if \<not> same then (o_x, None, raw_free x h) else (x, o_x, h))"

definition exchange_destroy :: "nat option \<Rightarrow> c_heap \<Rightarrow> c_heap" where
  "exchange_destroy x h = raw_free x h"

section \<open>Programs over handles\<close>

datatype handle_class = Keys | Exchange

text \<open>
  The objects a program has: a variable has no object (\<open>None\<close>), or one of a class with the
  pointer it holds.
\<close>

record cpp_state =
  c_vars :: "nat \<Rightarrow> (handle_class \<times> nat option) option"
  c_raw :: c_heap

datatype handle_op =
    Default nat handle_class        \<comment> \<open>\<open>Keys k;\<close>\<close>
  | Make nat handle_class bool      \<comment> \<open>\<open>Keys k = Keys::server (...)\<close>, \<open>Exchange::open\<close>\<close>
  | MoveNew nat nat                 \<comment> \<open>\<open>Keys k (std::move (o))\<close>\<close>
  | MoveAssign nat nat              \<comment> \<open>\<open>k = std::move (o)\<close>\<close>
  | Destroy nat                     \<comment> \<open>leaving its scope\<close>

fun move_of :: "handle_class \<Rightarrow> nat option \<Rightarrow> nat option \<times> nat option" where
  "move_of Keys p = keys_move p"
| "move_of Exchange p = exchange_move p"

fun assign_of :: "handle_class \<Rightarrow> bool \<Rightarrow> nat option \<Rightarrow> nat option \<Rightarrow> c_heap \<Rightarrow>
    nat option \<times> nat option \<times> c_heap" where
  "assign_of Keys same p q h = keys_assign same p q h"
| "assign_of Exchange same p q h = exchange_assign same p q h"

fun destroy_of :: "handle_class \<Rightarrow> nat option \<Rightarrow> c_heap \<Rightarrow> c_heap" where
  "destroy_of Keys p h = keys_destroy p h"
| "destroy_of Exchange p h = exchange_destroy p h"

text \<open>A step of a program the compiler accepts; copying a handle is not one.\<close>

inductive handle_step :: "cpp_state \<Rightarrow> handle_op \<Rightarrow> cpp_state \<Rightarrow> bool" where
  default: "c_vars s v = None \<Longrightarrow>
     handle_step s (Default v cls) (s\<lparr> c_vars := (c_vars s)(v \<mapsto> (cls, None)) \<rparr>)"
| make: "c_vars s v = None \<Longrightarrow> raw_make succeeds (c_raw s) = (p, h) \<Longrightarrow>
     handle_step s (Make v cls succeeds) (s\<lparr> c_vars := (c_vars s)(v \<mapsto> (cls, p)), c_raw := h \<rparr>)"
| move_new: "c_vars s v = None \<Longrightarrow> c_vars s w = Some (cls, q) \<Longrightarrow> move_of cls q = (p, q') \<Longrightarrow>
     handle_step s (MoveNew v w) (s\<lparr> c_vars := (c_vars s)(w \<mapsto> (cls, q'), v \<mapsto> (cls, p)) \<rparr>)"
| move_assign: "v \<noteq> w \<Longrightarrow> c_vars s v = Some (cls, p) \<Longrightarrow> c_vars s w = Some (cls, q) \<Longrightarrow>
     assign_of cls False p q (c_raw s) = (p', q', h) \<Longrightarrow>
     handle_step s (MoveAssign v w)
       (s\<lparr> c_vars := (c_vars s)(v \<mapsto> (cls, p'), w \<mapsto> (cls, q')), c_raw := h \<rparr>)"
| move_self: "c_vars s v = Some (cls, p) \<Longrightarrow> assign_of cls True p p (c_raw s) = (p', q', h) \<Longrightarrow>
     handle_step s (MoveAssign v v) (s\<lparr> c_vars := (c_vars s)(v \<mapsto> (cls, p')), c_raw := h \<rparr>)"
| destroy: "c_vars s v = Some (cls, p) \<Longrightarrow>
     handle_step s (Destroy v)
       (s\<lparr> c_vars := (c_vars s)(v := None), c_raw := destroy_of cls p (c_raw s) \<rparr>)"

definition cpp_start :: cpp_state where
  "cpp_start = \<lparr> c_vars = (\<lambda>v. None),
     c_raw = \<lparr> h_live = (\<lambda>a. False), h_next = 0, h_bad = False \<rparr> \<rparr>"

inductive handle_reach :: "cpp_state \<Rightarrow> bool" where
  start: "handle_reach cpp_start"
| step: "handle_reach s \<Longrightarrow> handle_step s c s' \<Longrightarrow> handle_reach s'"

section \<open>Each pointer has one owner\<close>

definition owns_ptr :: "cpp_state \<Rightarrow> nat \<Rightarrow> nat \<Rightarrow> bool" where
  "owns_ptr s v a \<longleftrightarrow> (\<exists>cls. c_vars s v = Some (cls, Some a))"

definition handles_inv :: "cpp_state \<Rightarrow> bool" where
  "handles_inv s \<longleftrightarrow> \<not> h_bad (c_raw s) \<and>
     (\<forall>a. h_live (c_raw s) a \<longleftrightarrow> (\<exists>v. owns_ptr s v a)) \<and>
     (\<forall>v w a. owns_ptr s v a \<longrightarrow> owns_ptr s w a \<longrightarrow> v = w) \<and>
     (\<forall>a. h_live (c_raw s) a \<longrightarrow> a < h_next (c_raw s))"

lemma handles_inv_start: "handles_inv cpp_start"
  by (simp add: handles_inv_def cpp_start_def owns_ptr_def)

text \<open>The two ways pointers change hands: given from one variable to another, and freed.\<close>

lemma handles_inv_give:
  assumes inv: "handles_inv s" and v: "\<And>a. \<not> owns_ptr s v a"
    and w: "c_vars s w = Some (cls, q)" and ne: "v \<noteq> w"
  shows "handles_inv (s\<lparr> c_vars := (c_vars s)(w \<mapsto> (cls', None), v \<mapsto> (cls, q)) \<rparr>)"
proof -
  let ?s = "s\<lparr> c_vars := (c_vars s)(w \<mapsto> (cls', None), v \<mapsto> (cls, q)) \<rparr>"
  have own: "owns_ptr ?s u a \<longleftrightarrow> (if u = v then owns_ptr s w a else u \<noteq> w \<and> owns_ptr s u a)" for u a
    using w ne by (auto simp: owns_ptr_def)
  have "(\<exists>u. owns_ptr ?s u a) \<longleftrightarrow> (\<exists>u. owns_ptr s u a)" for a
    unfolding own using v ne by metis
  moreover have "u = u'" if "owns_ptr ?s u a" "owns_ptr ?s u' a" for u u' a
    using that inv unfolding own handles_inv_def by (metis (full_types))
  ultimately show ?thesis using inv unfolding handles_inv_def by simp
qed

lemma handles_inv_free:
  assumes inv: "handles_inv s" and v: "c_vars s v = Some (cls, p)" and e: "e = None \<or> e = Some (cls, None)"
  shows "handles_inv (s\<lparr> c_vars := (c_vars s)(v := e), c_raw := raw_free p (c_raw s) \<rparr>)"
proof -
  let ?s = "s\<lparr> c_vars := (c_vars s)(v := e), c_raw := raw_free p (c_raw s) \<rparr>"
  have own: "owns_ptr ?s u a \<longleftrightarrow> u \<noteq> v \<and> owns_ptr s u a" for u a
    using e by (auto simp: owns_ptr_def)
  show ?thesis
  proof (cases p)
    case None
    with v have "\<not> owns_ptr s v a" for a by (simp add: owns_ptr_def)
    then have "owns_ptr ?s u a \<longleftrightarrow> owns_ptr s u a" for u a unfolding own by blast
    with inv None show ?thesis by (simp add: handles_inv_def raw_free_def)
  next
    case (Some b)
    with v have vb: "owns_ptr s v b" by (simp add: owns_ptr_def)
    with inv have live: "h_live (c_raw s) b" unfolding handles_inv_def by blast
    have only: "owns_ptr s v a \<longleftrightarrow> a = b" for a using v Some by (auto simp: owns_ptr_def)
    have "(\<exists>u. owns_ptr ?s u a) \<longleftrightarrow> a \<noteq> b \<and> (\<exists>u. owns_ptr s u a)" for a
      using inv vb only unfolding own handles_inv_def by metis
    moreover have "u = u'" if "owns_ptr ?s u a" "owns_ptr ?s u' a" for u u' a
      using that inv unfolding own handles_inv_def by blast
    ultimately show ?thesis
      using inv live Some by (simp add: handles_inv_def raw_free_def)
  qed
qed

lemma handles_inv_new:
  assumes inv: "handles_inv s" and v: "c_vars s v = None"
  shows "handles_inv (s\<lparr> c_vars := (c_vars s)(v \<mapsto> (cls, None)) \<rparr>)"
    "raw_make b (c_raw s) = (p, h) \<Longrightarrow>
      handles_inv (s\<lparr> c_vars := (c_vars s)(v \<mapsto> (cls, p)), c_raw := h \<rparr>)"
proof -
  have own: "owns_ptr (s\<lparr> c_vars := (c_vars s)(v \<mapsto> (cls, q)), c_raw := h \<rparr>) u a \<longleftrightarrow>
      (if u = v then q = Some a else owns_ptr s u a)" for q h u a
    by (auto simp: owns_ptr_def)
  have no: "\<not> owns_ptr s v a" for a using v by (simp add: owns_ptr_def)
  have same: "handles_inv (s\<lparr> c_vars := (c_vars s)(v \<mapsto> (cls, None)), c_raw := c_raw s \<rparr>)"
  proof -
    have "owns_ptr (s\<lparr> c_vars := (c_vars s)(v \<mapsto> (cls, None)), c_raw := c_raw s \<rparr>) u a \<longleftrightarrow>
        owns_ptr s u a" for u a
      unfolding own using no by auto
    with inv show ?thesis by (simp add: handles_inv_def)
  qed
  then show "handles_inv (s\<lparr> c_vars := (c_vars s)(v \<mapsto> (cls, None)) \<rparr>)" by simp
  assume make: "raw_make b (c_raw s) = (p, h)"
  show "handles_inv (s\<lparr> c_vars := (c_vars s)(v \<mapsto> (cls, p)), c_raw := h \<rparr>)"
  proof (cases b)
    case False
    with make same show ?thesis by (simp add: raw_make_def)
  next
    case True
    let ?n = "h_next (c_raw s)"
    have fresh: "\<not> owns_ptr s u ?n" for u using inv unfolding handles_inv_def by (metis less_irrefl)
    let ?s = "s\<lparr> c_vars := (c_vars s)(v \<mapsto> (cls, p)), c_raw := h \<rparr>"
    have p: "p = Some ?n" and
      h: "h = (c_raw s)\<lparr> h_live := (h_live (c_raw s))(?n := True), h_next := ?n + 1 \<rparr>"
      using make True by (simp_all add: raw_make_def)
    have own': "owns_ptr ?s u a \<longleftrightarrow> (if u = v then a = ?n else owns_ptr s u a)" for u a
      unfolding own p by auto
    have live: "h_live (c_raw ?s) a \<longleftrightarrow> a = ?n \<or> h_live (c_raw s) a" for a by (simp add: h)
    have "(\<exists>u. owns_ptr ?s u a) \<longleftrightarrow> a = ?n \<or> (\<exists>u. owns_ptr s u a)" for a
      unfolding own' using no by metis
    then have "h_live (c_raw ?s) a \<longleftrightarrow> (\<exists>u. owns_ptr ?s u a)" for a
      unfolding live using inv unfolding handles_inv_def by blast
    moreover have "u = u'" if "owns_ptr ?s u a" "owns_ptr ?s u' a" for u u' a
      using that inv fresh unfolding own' handles_inv_def by metis
    moreover have "a < h_next (c_raw ?s)" if "h_live (c_raw ?s) a" for a
      using that inv unfolding live handles_inv_def by (auto simp: h less_Suc_eq)
    moreover have "\<not> h_bad (c_raw ?s)" using inv by (simp add: handles_inv_def h)
    ultimately show ?thesis unfolding handles_inv_def by blast
  qed
qed

lemma move_of_eq: "move_of cls p = (p, None)"
  by (cases cls) (simp_all add: keys_move_def exchange_move_def)

lemma assign_of_eq:
  "assign_of cls same p q h = (if same then (p, q, h) else (q, None, raw_free p h))"
  by (cases cls) (simp_all add: keys_assign_def exchange_assign_def)

lemma destroy_of_eq: "destroy_of cls p h = raw_free p h"
  by (cases cls) (simp_all add: keys_destroy_def exchange_destroy_def)

lemma handles_inv_step:
  assumes "handle_step s c s'" "handles_inv s"
  shows "handles_inv s'"
  using assms(1)
proof cases
  case (default v cls)
  with assms(2) show ?thesis by (simp add: handles_inv_new(1))
next
  case (make v succeeds p h cls)
  with assms(2) show ?thesis by (simp add: handles_inv_new(2))
next
  case (move_new v w cls q p q')
  have "\<And>a. \<not> owns_ptr s v a" "v \<noteq> w" using move_new by (auto simp: owns_ptr_def)
  with assms(2) move_new show ?thesis by (simp add: handles_inv_give move_of_eq)
next
  case (move_assign v w cls p q p' q' h)
  let ?t = "s\<lparr> c_vars := (c_vars s)(v := Some (cls, None)), c_raw := raw_free p (c_raw s) \<rparr>"
  have "handles_inv ?t" by (rule handles_inv_free [OF assms(2)]) (use move_assign in simp_all)
  then have "handles_inv (?t\<lparr> c_vars := (c_vars ?t)(w \<mapsto> (cls, None), v \<mapsto> (cls, q)) \<rparr>)"
    by (rule handles_inv_give) (use move_assign in \<open>simp_all add: owns_ptr_def\<close>)
  moreover have "(c_vars ?t)(w \<mapsto> (cls, None), v \<mapsto> (cls, q)) = (c_vars s)(v \<mapsto> (cls, q), w \<mapsto> (cls, None))"
    using move_assign(3) by (auto simp: fun_eq_iff)
  moreover have "s' = ?t\<lparr> c_vars := (c_vars s)(v \<mapsto> (cls, q), w \<mapsto> (cls, None)) \<rparr>"
    using move_assign by (intro cpp_state.equality) (auto simp: assign_of_eq)
  ultimately show ?thesis by (simp only:)
next
  case (move_self v cls p p' q' h)
  then have "(c_vars s)(v \<mapsto> (cls, p')) = c_vars s" "h = c_raw s"
    by (auto simp: assign_of_eq fun_eq_iff)
  with assms(2) move_self show ?thesis by simp
next
  case (destroy v cls p)
  with assms(2) show ?thesis by (simp add: handles_inv_free destroy_of_eq)
qed

lemma handles_inv_reach: "handle_reach s \<Longrightarrow> handles_inv s"
  by (induction rule: handle_reach.induct) (blast intro: handles_inv_start handles_inv_step)+

text \<open>
  The C++ handles own what they hold: whatever a program makes, moves, assigns (to itself
  too) and destroys, no pointer is ever freed twice, every pointer that is alive is held by
  exactly one object, and when the last object is gone everything has been freed.
\<close>

theorem handles_own:
  assumes "handle_reach s"
  shows "\<not> h_bad (c_raw s) \<and> (h_live (c_raw s) a \<longrightarrow> (\<exists>!v. owns_ptr s v a)) \<and>
    (owns_ptr s v a \<longrightarrow> h_live (c_raw s) a) \<and>
    (c_vars s = (\<lambda>u. None) \<longrightarrow> \<not> h_live (c_raw s) a)"
proof -
  have inv: "handles_inv s" by (rule handles_inv_reach [OF assms])
  have "\<not> owns_ptr s u a" if "c_vars s = (\<lambda>u. None)" for u using that by (simp add: owns_ptr_def)
  with inv show ?thesis unfolding handles_inv_def by blast
qed

section \<open>The C++ example\<close>

text \<open>
  src/examples/ktls_cpp_api.cpp: the lambda \<open>pump\<close> and the loop of \<open>main\<close>. Neither looks at
  what \<open>feed\<close> and \<open>step\<close> return; a step that fails leaves its variable as it was.
\<close>

partial_function (option) cpp_pump ::
    "'s tls_lib \<Rightarrow> 's ktls_exchange \<Rightarrow> 's ktls_exchange \<Rightarrow> thread_err \<Rightarrow>
      ('s ktls_exchange \<times> 's ktls_exchange \<times> thread_err) option" where
  "cpp_pump lib src dst t =
     (case pulled (ktls_exchange_take lib chunk src t) of (b, src1, t1) \<Rightarrow>
        if length b = 0 then Some (src1, dst, t1)
        else (case ktls_exchange_feed lib b dst t1 of (r, dst1, t2) \<Rightarrow> cpp_pump lib src1 dst1 t2))"

definition cpp_step ::
    "'s tls_lib \<Rightarrow> kernel_abi \<Rightarrow> ktls_step \<Rightarrow> 's ktls_exchange \<Rightarrow> thread_err \<Rightarrow>
      ktls_step \<times> 's ktls_exchange \<times> thread_err" where
  "cpp_step lib abi before x t =
     (case ktls_exchange_step lib abi x t of
        (Inl f, x', t') \<Rightarrow> (before, x', t')
      | (Inr a, x', t') \<Rightarrow> (a, x', t'))"

fun cpp_loop ::
    "'s tls_lib \<Rightarrow> kernel_abi \<Rightarrow> nat \<Rightarrow> ktls_step \<Rightarrow> ktls_step \<Rightarrow>
      's ktls_exchange \<Rightarrow> 's ktls_exchange \<Rightarrow> thread_err \<Rightarrow>
      (ktls_step \<times> ktls_step \<times> 's ktls_exchange \<times> 's ktls_exchange \<times> thread_err) option" where
  "cpp_loop lib abi 0 ss cs s c t = Some (ss, cs, s, c, t)"
| "cpp_loop lib abi (Suc left) ss cs s c t =
     (if \<not> (ss \<noteq> KTLS_DONE \<or> cs \<noteq> KTLS_DONE) then Some (ss, cs, s, c, t)
      else (case cpp_step lib abi cs c t of (cs1, c1, t1) \<Rightarrow>
        (case cpp_pump lib c1 s t1 of
           None \<Rightarrow> None
         | Some (c2, s1, t2) \<Rightarrow> (case cpp_step lib abi ss s1 t2 of (ss1, s2, t3) \<Rightarrow>
             (case cpp_pump lib s2 c2 t3 of
                None \<Rightarrow> None
              | Some (s3, c3, t4) \<Rightarrow> cpp_loop lib abi left ss1 cs1 s3 c3 t4)))))"

lemma cpp_pump_of_pump:
  assumes "pump lib moved src dst t = Some (Some n, src', dst', t')"
  shows "cpp_pump lib src dst t = Some (src', dst', t')"
proof -
  let ?P = "\<lambda>l (m :: nat) x y u r.
     case r of (None, _) \<Rightarrow> True | (Some _, x', y', u') \<Rightarrow> cpp_pump l x y u = Some (x', y', u')"
  have "?P lib moved src dst t (Some n, src', dst', t')"
  proof (rule pump.raw_induct [where P = ?P, OF _ assms])
    fix f l m x y u r
    assume IH: "\<And>l m x y u r. f l m x y u = Some r \<Longrightarrow> ?P l m x y u r"
      and eq: "(case pulled (ktls_exchange_take l chunk x u) of (buf, src1, t1) \<Rightarrow>
        if length buf = 0 then Some (Some m, src1, y, t1)
        else (case ktls_exchange_feed l buf y t1 of
            (Inl f, dst1, t2) \<Rightarrow> Some (None, src1, dst1, t2)
          | (Inr u, dst1, t2) \<Rightarrow> f l (m + length buf) src1 dst1 t2)) = Some r"
    obtain b x1 u1 where b: "pulled (ktls_exchange_take l chunk x u) = (b, x1, u1)"
      by (cases "pulled (ktls_exchange_take l chunk x u)") auto
    obtain q y1 u2 where g: "ktls_exchange_feed l b y u1 = (q, y1, u2)"
      by (cases "ktls_exchange_feed l b y u1") auto
    have unfold: "cpp_pump l x y u = (if b = [] then Some (x1, y, u1) else cpp_pump l x1 y1 u2)"
      by (subst cpp_pump.simps) (simp add: b g)
    show "?P l m x y u r"
    proof (cases "b = []")
      case True
      with eq b unfold show ?thesis by auto
    next
      case ne: False
      show ?thesis
      proof (cases q)
        case (Inl h)
        with eq b g ne show ?thesis by auto
      next
        case (Inr v)
        with eq b g ne have "f l (m + length b) x1 y1 u2 = Some r" by simp
        moreover have "cpp_pump l x y u = cpp_pump l x1 y1 u2" using ne unfold by simp
        ultimately show ?thesis using IH by (simp only:)
      qed
    qed
  qed
  then show ?thesis by simp
qed

lemma drive_round_cpp:
  assumes "drive_round lib abi s c t = Some (Some (ss1, cs1), s3, c3, t4)"
  shows "\<exists>c1 t1 c2 s1 t2 s2 t3. cpp_step lib abi cs c t = (cs1, c1, t1) \<and>
    cpp_pump lib c1 s t1 = Some (c2, s1, t2) \<and> cpp_step lib abi ss s1 t2 = (ss1, s2, t3) \<and>
    cpp_pump lib s2 c2 t3 = Some (s3, c3, t4)"
proof -
  obtain q c1 t1 where q: "ktls_exchange_step lib abi c t = (q, c1, t1)"
    by (cases "ktls_exchange_step lib abi c t") auto
  with assms have qr: "q = Inr (projr q)" by (cases q) (simp_all add: drive_round_def)
  obtain n c2 s1 t2 where p: "pump lib 0 c1 s t1 = Some (Some n, c2, s1, t2)"
    using assms q qr by (auto simp: drive_round_def split: option.splits sum.splits)
  obtain q2 s2 t3 where q2: "ktls_exchange_step lib abi s1 t2 = (q2, s2, t3)"
    by (cases "ktls_exchange_step lib abi s1 t2") auto
  with assms q qr p have q2r: "q2 = Inr (projr q2)" by (cases q; cases q2) (simp_all add: drive_round_def)
  obtain m s4 c4 t5 where p2: "pump lib 0 s2 c2 t3 = Some (Some m, s4, c4, t5)"
    using assms q qr p q2 q2r by (auto simp: drive_round_def split: option.splits sum.splits)
  have "cs1 = projr q" "ss1 = projr q2" "s4 = s3" "c4 = c3" "t5 = t4"
    using assms q qr p q2 q2r p2 by (cases q; cases q2; simp add: drive_round_def)+
  with q qr q2 q2r have "cpp_step lib abi cs c t = (cs1, c1, t1)"
    "cpp_step lib abi ss s1 t2 = (ss1, s2, t3)"
    by (cases q; cases q2; simp add: cpp_step_def)+
  moreover have "cpp_pump lib s2 c2 t3 = Some (s3, c3, t4)"
    using cpp_pump_of_pump [OF p2] \<open>s4 = s3\<close> \<open>c4 = c3\<close> \<open>t5 = t4\<close> by simp
  ultimately show ?thesis using cpp_pump_of_pump [OF p] by blast
qed

text \<open>
  The two examples do the same: whenever the loop of the C program comes to an end without
  a failure, the loop of the C++ program, which looks at no return value, ends with the same
  answers and with both exchanges in the same state.
\<close>

theorem cpp_loop_same:
  "drive lib abi left rounds ss cs s c t = Some (Drove n ss' cs', s', c', t') \<Longrightarrow>
     cpp_loop lib abi left ss cs s c t = Some (ss', cs', s', c', t')"
proof (induction left arbitrary: rounds ss cs s c t)
  case 0
  then show ?case by (simp split: if_splits)
next
  case (Suc left)
  show ?case
  proof (cases "ss = KTLS_DONE \<and> cs = KTLS_DONE")
    case True
    with Suc.prems show ?thesis by simp
  next
    case False
    then obtain ss1 cs1 s1 c1 t1 where r: "drive_round lib abi s c t = Some (Some (ss1, cs1), s1, c1, t1)"
      and d: "drive lib abi left (rounds + 1) ss1 cs1 s1 c1 t1 = Some (Drove n ss' cs', s', c', t')"
      using Suc.prems by (auto split: option.splits prod.splits)
    from drive_round_cpp [OF r, of cs ss] Suc.IH [OF d] False show ?thesis by auto
  qed
qed

end
