(* ===== verification/Ktls_Checks.thy ===== *)
theory Ktls_Checks
  imports Ktls_Pump Ktls_Record_Types
begin

text \<open>
  The rest of src/examples/ktls_c_api.c: what \<open>main\<close> checks after its loop, each check under the
  text it prints. The blobs of both sides are read and compared, the sequence numbers, a key
  update, what is left after the SSL object is released, the record types and the refusal. A
  NULL the program would follow is \<open>None\<close>. What is proved is that the program cannot
  print FAIL for anything that is the library's to keep.
\<close>

type_synonym checks = "(string \<times> bool) list"

section \<open>The blobs\<close>

text \<open>\<open>strstr\<close>: the first place, and the character at a place, NUL past the end.\<close>

definition strstr_at :: "string \<Rightarrow> string \<Rightarrow> nat option" where
  "strstr_at s w = find (\<lambda>i. take (length w) (drop i s) = w) [0..<length s]"

definition char_at :: "string \<Rightarrow> nat \<Rightarrow> char" where
  "char_at s i = (if i < length s then s ! i else CHR 0x00)"

definition wanted_cipher :: "kernel_abi \<Rightarrow> bool \<Rightarrow> string option \<Rightarrow> 16 word" where
  "wanted_cipher abi aes_fast suites = (case suites of
     Some s \<Rightarrow> (if strstr_at s ''CHACHA'' = Some 4 \<or> char_at s 4 = CHR ''C''
               then TLS_CIPHER_CHACHA20_POLY1305 abi else TLS_CIPHER_AES_GCM_128 abi)
   | None \<Rightarrow> (if aes_fast then TLS_CIPHER_AES_GCM_128 abi else TLS_CIPHER_CHACHA20_POLY1305 abi))"

text \<open>
  The sixteen bytes behind the head of the blob: in linux/tls.h the iv comes first, then the
  key.
\<close>

definition behind_head :: "ktls_info \<Rightarrow> bytes" where
  "behind_head ci = take 16 (i_iv ci @ i_key ci)"

definition blob_checks ::
    "'s tls_lib \<Rightarrow> kernel_abi \<Rightarrow> bool \<Rightarrow> string option \<Rightarrow> 's ktls_exchange \<Rightarrow> 's ktls_exchange \<Rightarrow> thread_err \<Rightarrow>
      (checks \<times> ktls_info \<times> 's ktls_exchange \<times> 's ktls_exchange \<times> thread_err) option" where
  "blob_checks lib abi aes_fast suites s c t =
     (case ktls_crypto_info lib s KTLS_TX t of (a, s1, t1) \<Rightarrow>
     (case ktls_crypto_info lib s1 KTLS_RX t1 of (b, s2, t2) \<Rightarrow>
     (case ktls_crypto_info lib c KTLS_TX t2 of (d, c1, t3) \<Rightarrow>
     (case ktls_crypto_info lib c1 KTLS_RX t3 of (e, c2, t4) \<Rightarrow>
     (case (a, b, d, e) of
        (Inr (sti, stx), Inr (sri, srx), Inr (cti, ctx), Inr (cri, crx)) \<Rightarrow>
          Some ([(''every direction yields a crypto_info'', True),
             (''the kernel is told TLS 1.3'', i_version sti = TLS_1_3_VERSION abi),
             (''and the suite that was asked for'', i_cipher_type sti = wanted_cipher abi aes_fast suites),
             (''the blob is the size that cipher's struct has'',
                stx = (if i_cipher_type sti = TLS_CIPHER_AES_GCM_128 abi then 40 else 56)),
             (''the server's SEND blob IS the client's RECEIVE blob'', sti = cri),
             (''and the other way round'', cti = sri),
             (''the two directions differ'', sti \<noteq> cti),
             (''the key is not zeroes'', behind_head sti \<noteq> replicate 16 0)], sti, s2, c2, t4)
      | _ \<Rightarrow> None)))))"

definition sequence_checks ::
    "'s tls_lib \<Rightarrow> ktls_info \<Rightarrow> 's ktls_exchange \<Rightarrow> 's ktls_exchange \<Rightarrow> checks" where
  "sequence_checks lib sti s c =
     (let s_tx = ktls_record_sequence lib s KTLS_TX;
          c_rx = ktls_record_sequence lib c KTLS_RX
      in [(''the tickets DID move the sequence - zero would be nonce reuse'', 0 < s_tx),
          (''server TX sequence == client RX sequence'', s_tx = c_rx),
          (''the sequence is written big-endian, as the kernel reads it'',
             i_rec_seq sti ! 7 = ucast s_tx \<and> i_rec_seq sti ! 0 = 0),
          (''the server read no application record - the client sent none'',
             ktls_record_sequence lib s KTLS_RX = 0)])"

section \<open>A key update\<close>

text \<open>\<open>before\<close> is a copy of the server's sending blob, taken ahead of the update.\<close>

definition rekey_checks ::
    "'s tls_lib \<Rightarrow> kernel_abi \<Rightarrow> ktls_info \<Rightarrow> 's ktls_exchange \<Rightarrow> 's ktls_exchange \<Rightarrow> thread_err \<Rightarrow>
      (checks \<times> 's ktls_exchange \<times> 's ktls_exchange \<times> thread_err) option" where
  "rekey_checks lib abi before s c t =
     (case ktls_next_key lib abi s KTLS_TX t of (p, s1, t1) \<Rightarrow>
     (case ktls_next_key lib abi c KTLS_RX t1 of (q, c1, t2) \<Rightarrow>
     (case ktls_crypto_info lib s1 KTLS_TX t2 of (a, s2, t3) \<Rightarrow>
     (case ktls_crypto_info lib c1 KTLS_RX t3 of (b, c2, t4) \<Rightarrow>
     (case (a, b) of
        (Inr (sti2, n), Inr (cri2, m)) \<Rightarrow>
          Some ([(''ktls_next_key turns the server's send secret'', \<not> isl p),
             (''and the client's receive secret'', \<not> isl q),
             (''both hand out a fresh blob'', n = m),
             (''and after the update the two STILL match'', sti2 = cri2),
             (''the new key is not the old one'', sti2 \<noteq> before),
             (''and the sequence restarts at zero, as a key change leaves it'', last (i_rec_seq sti2) = 0),
             (''which record_sequence says too - the blob and the getter agree'',
                ktls_record_sequence lib s2 KTLS_TX = 0)], s2, c2, t4)
      | _ \<Rightarrow> None)))))"

section \<open>After the release\<close>

definition alpn_len :: "bytes option \<Rightarrow> nat" where
  "alpn_len a = (case a of None \<Rightarrow> 0 | Some name \<Rightarrow> length name)"

definition release_checks ::
    "'s tls_lib \<Rightarrow> kernel_abi \<Rightarrow> 's ktls_exchange \<Rightarrow> thread_err \<Rightarrow>
      (checks \<times> 's ktls_exchange \<times> thread_err) option" where
  "release_checks lib abi s t =
     (let alpn_before = ktls_exchange_alpn s;
          suite_kept = snprintf_s 64 (case ktls_exchange_cipher lib s of None \<Rightarrow> [] | Some n \<Rightarrow> n)
      in case ktls_exchange_release (Some s) of
        None \<Rightarrow> None
      | Some x \<Rightarrow>
     (case ktls_exchange_step lib abi x t of (r, x1, t1) \<Rightarrow>
     (case (if isl r then pulled (ktls_exchange_take lib 0 x1 t1) else ([], x1, t1)) of (got, x2, t2) \<Rightarrow>
     (case ktls_crypto_info lib x2 KTLS_TX t2 of
        (Inl f, _, _) \<Rightarrow> None
      | (Inr (kept, before_len), x3, t3) \<Rightarrow>
     (case ktls_next_key lib abi x3 KTLS_TX t3 of (p, x4, t4) \<Rightarrow>
     (case ktls_crypto_info lib x4 KTLS_TX t4 of (a, x5, t5) \<Rightarrow>
        Some ([(''after release the suite is still known'', ktls_exchange_cipher lib x = Some suite_kept),
           (''and so is what ALPN settled on'',
              (alpn_before = None) = (ktls_exchange_alpn x = None) \<and>
              alpn_len alpn_before = alpn_len (ktls_exchange_alpn x)),
           (''but the handshake calls refuse by name'', isl r \<and> got = []),
           (''a KeyUpdate is still answerable without the SSL'', \<not> isl p),
           (''and it hands out a key the old one is not'', (case a of
                Inl f \<Rightarrow> False
              | Inr (after, after_len) \<Rightarrow> after_len = before_len \<and> after \<noteq> kept)),
           (''with the sequence back at zero'', ktls_record_sequence lib x5 KTLS_TX = 0)], x5, t5)))))))"

section \<open>Record types and the refusal\<close>

definition type_checks :: "kernel_abi \<Rightarrow> checks" where
  "type_checks abi =
     [(''the control message that carries a record's type has a name'', 0 < ktls_record_type_cmsg abi),
      (''23 is application data'', ktls_record_type (Some [23]) 1 = KTLS_RECORD_DATA),
      (''21 is an alert'', ktls_record_type (Some [21]) 1 = KTLS_RECORD_ALERT),
      (''22 is post-handshake'', ktls_record_type (Some [22]) 1 = KTLS_RECORD_HANDSHAKE),
      (''anything else is unknown'', ktls_record_type (Some [99]) 1 = KTLS_RECORD_UNKNOWN),
      (''and so is a message that was not there'', ktls_record_type None 0 = KTLS_RECORD_UNKNOWN),
      (''the control message that SETS a type has one too'', 0 < ktls_record_type_set_cmsg abi),
      (''an alert is spelled back to the number it was read from'',
         ktls_record_type_encode KTLS_RECORD_ALERT (Some [0]) 1 = (1, Some [21])),
      (''and a kind with no number is refused rather than guessed'',
         fst (ktls_record_type_encode KTLS_RECORD_UNKNOWN (Some [21]) 1) = 0)]"

definition refusal_checks ::
    "'s tls_lib \<Rightarrow> kernel_abi \<Rightarrow> bool \<Rightarrow> kernel \<Rightarrow> 's ktls_exchange \<Rightarrow> thread_err \<Rightarrow> checks" where
  "refusal_checks lib abi initialized kern s t =
     (if \<not> initialized then [(''ktls_offload refuses by name without the tls module'',
        isl (fst (ktls_offload lib abi initialized kern s 0 t)))] else [])"

section \<open>All of main after the loop\<close>

definition main_checks ::
    "'s tls_lib \<Rightarrow> kernel_abi \<Rightarrow> bool \<Rightarrow> string option \<Rightarrow> bool \<Rightarrow> kernel \<Rightarrow>
      's ktls_exchange \<Rightarrow> 's ktls_exchange \<Rightarrow> thread_err \<Rightarrow> checks option" where
  "main_checks lib abi aes_fast suites initialized kern s c t =
     (case pulled (ktls_exchange_backlog lib 4096 s t) of (p, s1, t1) \<Rightarrow>
     (case pulled (ktls_exchange_backlog lib 4096 c t1) of (q, c1, t2) \<Rightarrow>
     (case blob_checks lib abi aes_fast suites s1 c1 t2 of
        None \<Rightarrow> None
      | Some (blobs, sti, s2, c2, t3) \<Rightarrow>
     (case rekey_checks lib abi sti s2 c2 t3 of
        None \<Rightarrow> None
      | Some (rekeys, s3, c3, t4) \<Rightarrow>
     (case release_checks lib abi s3 t4 of
        None \<Rightarrow> None
      | Some (releases, s4, t5) \<Rightarrow>
        Some ([(''the server has no backlog - this client pipelined nothing'', p = []),
           (''ALPN settles on h2 - the server's order decides'',
              ktls_exchange_alpn s1 = Some (map of_char ''h2''))] @
         blobs @ sequence_checks lib sti s2 c2 @ rekeys @ releases @
         type_checks abi @ refusal_checks lib abi initialized kern s4 t5))))))"

section \<open>Calls that answer\<close>

definition answers_ready :: "'s tls_lib \<Rightarrow> 's ktls_exchange \<Rightarrow> bool" where
  "answers_ready lib x \<longleftrightarrow> x_done x \<and> bio_pending lib (x_out x) \<le> 0 \<and>
     \<not> r_overflowed (x_tx x) \<and> \<not> r_overflowed (x_rx x)"

text \<open>OpenSSL has TLS13-KDF and its derivations succeed.\<close>

definition kdf_works :: "'s tls_lib \<Rightarrow> bool" where
  "kdf_works lib \<longleftrightarrow> (\<forall>secret label n. \<exists>out. kdf lib secret label n = KdfBytes out)"

lemma crypto_info_answers:
  assumes "answers_ready lib x"
  shows "\<exists>ci. ktls_crypto_info lib x dir t = (Inr (ci, info_size (x_cipher x)),
      x\<lparr> x_info := (x_info x)(slot_of dir (x_server x) := ci) \<rparr>, t)"
  using assms by (simp add: answers_ready_def ktls_crypto_info_def Let_def)

lemma expand_works:
  assumes "kdf_works lib"
  shows "\<exists>out. ktls_expand lib secret label n = Inr out"
proof -
  obtain out where "kdf lib secret label n = KdfBytes out" using assms unfolding kdf_works_def by blast
  then show ?thesis by (simp add: ktls_expand_def)
qed

lemma next_key_answers:
  assumes "kdf_works lib" "x_done x" "x_secret_len x (slot_of dir (x_server x)) \<noteq> 0"
  shows "\<exists>x'. ktls_next_key lib abi x dir t = (Inr (), x', t) \<and> x_out x' = x_out x \<and>
    x_ssl x' = x_ssl x \<and> x_secret_len x' = x_secret_len x \<and> x_cipher_name x' = x_cipher_name x \<and>
    x_alpn_len x' = x_alpn_len x \<and> x_alpn x' = x_alpn x \<and>
    x_rekeyed x' = (x_rekeyed x)(slot_of dir (x_server x) := True)"
proof -
  let ?w = "slot_of dir (x_server x)"
  obtain nxt where n: "ktls_expand lib (slot_secret x ?w) ''traffic upd'' (x_secret_len x ?w) = Inr nxt"
    using expand_works [OF assms(1)] by blast
  define x1 where "x1 = x\<lparr> x_secret := (x_secret x)(?w := memcpy_at (x_secret x ?w) 0 nxt),
    x_rekeyed := (x_rekeyed x)(?w := True) \<rparr>"
  obtain r x' t' where f: "ktls_fill lib abi x1 ?w t = (r, x', t')" by (cases "ktls_fill lib abi x1 ?w t") auto
  have "r = Inr () \<and> t' = t"
    using f
  proof (cases rule: ktls_fill_cases)
    case no_secret
    with assms(3) show ?thesis by (simp add: x1_def)
  next
    case (no_key g)
    then show ?thesis using expand_works [OF assms(1)] by (metis Inl_Inr_False)
  next
    case (no_iv g k)
    then have "ktls_expand lib (slot_secret x1 ?w) ''iv'' 12 = Inl g \<or> r = Inr ()" 
      using f expand_works [OF assms(1), of "slot_secret x1 ?w" "''iv''" 12]
      by (auto simp: ktls_fill_def failing_def Let_def slot_secret_def split: sum.splits if_splits)
    with no_iv show ?thesis using expand_works [OF assms(1)] by (metis Inl_Inr_False)
  qed simp_all
  moreover have "ktls_next_key lib abi x dir t = ktls_fill lib abi x1 ?w t"
    using assms(2) n by (simp add: ktls_next_key_def Let_def x1_def)
  ultimately show ?thesis using f ktls_fill_sel [OF f] by (simp add: x1_def)
qed

text \<open>A live connection knows its suite by name and has both secrets.\<close>

lemma derived_complete:
  assumes "ktls_derive_both lib abi s x t = (Inr u, x', t')"
  shows "x_secret_len x' w \<noteq> 0" "\<exists>name. ssl_cipher_name lib s = Some name \<and> name \<noteq> []"
proof -
  have "x_secret_len x' w \<noteq> 0 \<and> (\<exists>name. ssl_cipher_name lib s = Some name \<and> name \<noteq> [])"
    using assms
  proof (cases rule: ktls_derive_both_cases)
    case (both x2 t2)
    have "x_secret_len x2 (slot_of KTLS_TX (ssl_is_server lib s)) \<noteq> 0"
      using both(2) by (cases rule: ktls_fill_cases) auto
    moreover have "x_secret_len x2 (slot_of KTLS_RX (ssl_is_server lib s)) \<noteq> 0"
      using both(3) by (cases rule: ktls_fill_cases) auto
    ultimately have "x_secret_len x' w \<noteq> 0"
      using slot_of_both [of w "ssl_is_server lib s"] ktls_fill_sel [OF both(3)] by auto
    moreover have "\<exists>name. ssl_cipher_name lib s = Some name \<and> name \<noteq> []"
      using both(1) by (auto simp: ktls_negotiated_cipher_def split: option.splits if_splits)
    ultimately show ?thesis by blast
  qed simp_all
  then show "x_secret_len x' w \<noteq> 0" "\<exists>name. ssl_cipher_name lib s = Some name \<and> name \<noteq> []" by blast+
qed

lemma live_complete:
  assumes "live lib abi x T F" "quiet_reads lib"
  shows "x_cipher_name x \<noteq> [] \<and> (\<forall>w. x_secret_len x w \<noteq> 0)"
  using assms(1)
proof (induction rule: live.induct)
  case (finished x T F t a x' t')
  from finished(3) show ?case
  proof (cases rule: ktls_exchange_step_cases)
    case (finished s x2)
    let ?s = "io_ssl (handshake lib s x t)"
    from derived_complete [OF finished(4)] obtain name where
      n: "ssl_cipher_name lib ?s = Some name" "name \<noteq> []" "\<And>w. x_secret_len x2 w \<noteq> 0" by blast
    then have "snprintf_s 40 name \<noteq> []" by (simp add: snprintf_s_def)
    with n finished(5) show ?thesis by (auto simp: note_done_def Let_def split: option.splits)
  qed (use finished in simp_all)
next
  case (fed x T F bs t x' t')
  from fed(2) show ?case by (cases rule: ktls_exchange_feed_cases) (use fed in simp_all)
next
  case (taken x T F cap t out x' t')
  from taken(2) show ?case by (cases rule: ktls_exchange_take_cases) (use taken in simp_all)
next
  case (stepped x T F t r x' t')
  then show ?case using live_session ktls_exchange_step_sel(6) by blast
next
  case (backlogged x T F cap t p x' t')
  from backlogged(2) show ?case
  proof (cases rule: ktls_exchange_backlog_cases)
    case (read s io)
    then have "\<forall>l \<in> set (io_lines io). keylog_secret l = None"
      using assms(2) by (simp add: quiet_reads_def)
    with backlogged read(4) show ?thesis by (simp add: after_io_def fold_keylog_quiet)
  qed (use backlogged in simp_all)
next
  case (informed x T F dir t i x' t')
  from informed(2) show ?case by (cases rule: ktls_crypto_info_cases) (use informed in simp_all)
next
  case (rekeyed x T F dir t u x' t')
  from rekeyed(2) show ?case
    by (cases rule: ktls_next_key_cases) (use rekeyed in \<open>simp_all add: ktls_fill_sel\<close>)
next
  case (released x T F x')
  then show ?case using ktls_exchange_release_Some [OF released(2)] by simp
qed

section \<open>The checks pass\<close>

text \<open>
  The checks whose outcome is OpenSSL's and the peers' to decide: what was negotiated, whether
  tickets were written, and that freshly derived keys differ.
\<close>

definition openssl_decides :: "string set" where
  "openssl_decides =
     {''the server has no backlog - this client pipelined nothing'',
      ''ALPN settles on h2 - the server's order decides'',
      ''and the suite that was asked for'', ''the two directions differ'', ''the key is not zeroes'',
      ''the tickets DID move the sequence - zero would be nonce reuse'',
      ''the server read no application record - the client sent none'',
      ''the new key is not the old one'', ''and it hands out a key the old one is not''}"

definition kept_checks :: "checks \<Rightarrow> bool" where
  "kept_checks cs \<longleftrightarrow> (\<forall>(what, passed) \<in> set cs. what \<notin> openssl_decides \<longrightarrow> passed)"

lemma kept_checks_simps [simp]:
  "kept_checks []" "kept_checks (c # cs) \<longleftrightarrow> (fst c \<notin> openssl_decides \<longrightarrow> snd c) \<and> kept_checks cs"
  "kept_checks (cs @ ds) \<longleftrightarrow> kept_checks cs \<and> kept_checks ds"
  by (auto simp: kept_checks_def)

text \<open>Two exchanges that differ in their blobs at most.\<close>

definition but_info :: "'s ktls_exchange \<Rightarrow> 's ktls_exchange \<Rightarrow> bool" where
  "but_info x y \<longleftrightarrow> y = x\<lparr> x_info := x_info y \<rparr>"

lemma but_info_sel:
  assumes "but_info x y"
  shows "x_ssl y = x_ssl x" "x_in y = x_in x" "x_out y = x_out x" "x_done y = x_done x"
    "x_tx y = x_tx x" "x_rx y = x_rx x" "x_tx_at_done y = x_tx_at_done x" "x_rx_at_done y = x_rx_at_done x"
    "x_rx_fed y = x_rx_fed x" "x_server y = x_server x" "x_cipher y = x_cipher x" "x_rekeyed y = x_rekeyed x"
    "slot_secret y w = slot_secret x w" "answers_ready lib y = answers_ready lib x"
    "ktls_record_sequence lib y dir = ktls_record_sequence lib x dir"
proof -
  obtain i where y: "y = x\<lparr> x_info := i \<rparr>" using assms unfolding but_info_def by blast
  show "x_ssl y = x_ssl x" "x_in y = x_in x" "x_out y = x_out x" "x_done y = x_done x"
    "x_tx y = x_tx x" "x_rx y = x_rx x" "x_tx_at_done y = x_tx_at_done x" "x_rx_at_done y = x_rx_at_done x"
    "x_rx_fed y = x_rx_fed x" "x_server y = x_server x" "x_cipher y = x_cipher x" "x_rekeyed y = x_rekeyed x"
    "slot_secret y w = slot_secret x w" "answers_ready lib y = answers_ready lib x"
    "ktls_record_sequence lib y dir = ktls_record_sequence lib x dir"
    by (simp_all add: y slot_secret_def answers_ready_def ktls_record_sequence_def spent_records_def
        split: ktls_direction.split)
qed

lemma but_info_trans: "but_info x y \<Longrightarrow> but_info y z \<Longrightarrow> but_info x z"
  by (cases x; cases y; cases z) (simp add: but_info_def)

lemma crypto_info_but_info: "ktls_crypto_info lib x dir t = (r, x', t') \<Longrightarrow> but_info x x'"
  by (erule ktls_crypto_info_cases) (simp_all add: but_info_def)

lemma reads_blob:
  assumes "answers_ready lib x" "live lib abi x T F"
  shows "\<exists>ci y. ktls_crypto_info lib x dir t = (Inr (ci, info_size (x_cipher x)), y, t) \<and>
    but_info x y \<and> live lib abi y T F \<and>
    i_rec_seq ci = map (\<lambda>i. ucast (drop_bit (8 * (7 - i)) (ktls_record_sequence lib x dir))) [0..<8]"
proof -
  obtain ci where c: "ktls_crypto_info lib x dir t = (Inr (ci, info_size (x_cipher x)),
      x\<lparr> x_info := (x_info x)(slot_of dir (x_server x) := ci) \<rparr>, t)"
    using crypto_info_answers [OF assms(1)] by blast
  have "exchange_wf x" using live_facts [OF assms(2)] by simp
  with c answered_sequence(7) [OF c] live.informed [OF assms(2) c] show ?thesis
    by (auto simp: but_info_def)
qed

text \<open>What is known of the two ends when the checks begin.\<close>

definition ends_agree :: "'s tls_lib \<Rightarrow> kernel_abi \<Rightarrow> 's ktls_exchange \<Rightarrow> 's ktls_exchange \<Rightarrow> bytes \<Rightarrow> bytes \<Rightarrow> bool" where
  "ends_agree lib abi s c S C \<longleftrightarrow> live lib abi s S C \<and> live lib abi c C S \<and>
     answers_ready lib s \<and> answers_ready lib c \<and> x_in s = Some [] \<and> x_in c = Some [] \<and>
     x_server s \<and> \<not> x_server c \<and> x_cipher s = x_cipher c \<and>
     (\<forall>w. slot_secret s w = slot_secret c w) \<and>
     x_tx_at_done s = x_rx_at_done c \<and> x_tx_at_done c = x_rx_at_done s \<and>
     x_rekeyed s = (\<lambda>_. False) \<and> x_rekeyed c = (\<lambda>_. False)"

lemma ends_agree_but_info:
  assumes "ends_agree lib abi s c S C" "but_info s s'" "but_info c c'" "live lib abi s' S C" "live lib abi c' C S"
  shows "ends_agree lib abi s' c' S C"
  using assms but_info_sel [OF assms(2)] but_info_sel [OF assms(3)] by (simp add: ends_agree_def)

lemma ends_agree_sequences:
  assumes "ends_agree lib abi s c S C"
  shows "ktls_record_sequence lib s KTLS_TX = ktls_record_sequence lib c KTLS_RX"
  by (rule live_sequences_agree) (use assms in \<open>auto simp: ends_agree_def\<close>)

text \<open>The blobs of two agreeing ends, either way.\<close>

lemma ends_agree_blobs:
  assumes ends: "ends_agree lib abi s c S C" and quiet: "quiet_reads lib"
  shows "ktls_crypto_info lib s KTLS_TX t = (Inr (a, n), s', t') \<Longrightarrow>
      ktls_crypto_info lib c KTLS_RX u = (Inr (b, m), c', u') \<Longrightarrow> a = b"
    "ktls_crypto_info lib c KTLS_TX t = (Inr (a, n), c', t') \<Longrightarrow>
      ktls_crypto_info lib s KTLS_RX u = (Inr (b, m), s', u') \<Longrightarrow> a = b"
proof -
  note e = ends [unfolded ends_agree_def]
  show "a = b" if "ktls_crypto_info lib s KTLS_TX t = (Inr (a, n), s', t')"
    "ktls_crypto_info lib c KTLS_RX u = (Inr (b, m), c', u')"
    using live_blobs_agree [OF _ _ quiet _ _ _ _ _ _ that, of abi S C C] e by simp
  show "a = b" if "ktls_crypto_info lib c KTLS_TX t = (Inr (a, n), c', t')"
    "ktls_crypto_info lib s KTLS_RX u = (Inr (b, m), s', u')"
    using live_blobs_agree [OF _ _ quiet _ _ _ _ _ _ that, of abi C S S] e by simp
qed

lemma keys_current_shape:
  assumes "ktls_crypto_info lib x dir t = (Inr (ci, n), x', t')" "exchange_wf x"
    and "keys_current lib abi x (slot_of dir (x_server x))"
  shows "i_version ci = TLS_1_3_VERSION abi \<and> i_cipher_type ci = (if x_cipher x = KTLS_AES_GCM_128
      then TLS_CIPHER_AES_GCM_128 abi else TLS_CIPHER_CHACHA20_POLY1305 abi)"
proof -
  let ?w = "slot_of dir (x_server x)"
  have cur: "expected_info lib abi (x_cipher x) (slot_secret x ?w) = Inr (ci\<lparr> i_rec_seq := replicate 8 0 \<rparr>)"
    using assms(3) answered_sequence(8) [OF assms(1,2)] by (simp only: keys_current_def)
  then obtain k v where info: "fill_info abi (x_cipher x) k v = ci\<lparr> i_rec_seq := replicate 8 0 \<rparr>"
    by (auto simp: expected_info_def split: sum.splits)
  have "i_version ci = i_version (fill_info abi (x_cipher x) k v)"
    "i_cipher_type ci = i_cipher_type (fill_info abi (x_cipher x) k v)" by (simp_all add: info)
  then show ?thesis by (simp add: fill_info_def)
qed

lemma small_top_byte: "unat (w :: u64) \<le> 64 \<Longrightarrow> (ucast (drop_bit 56 w) :: u8) = 0"
proof -
  assume "unat w \<le> 64"
  then have "unat (ucast (drop_bit 56 w) :: u8) = 0" by (simp add: unat_byte_of)
  then show ?thesis by (simp only: unat_eq_0)
qed

lemma labels_kept [simp]:
  "''every direction yields a crypto_info'' \<notin> openssl_decides"
  "''and the suite that was asked for'' \<in> openssl_decides"
  "''the two directions differ'' \<in> openssl_decides" "''the key is not zeroes'' \<in> openssl_decides"
  "''the tickets DID move the sequence - zero would be nonce reuse'' \<in> openssl_decides"
  "''the server read no application record - the client sent none'' \<in> openssl_decides"
  "''the new key is not the old one'' \<in> openssl_decides"
  "''and it hands out a key the old one is not'' \<in> openssl_decides"
  "''the server has no backlog - this client pipelined nothing'' \<in> openssl_decides"
  "''ALPN settles on h2 - the server's order decides'' \<in> openssl_decides"
  unfolding openssl_decides_def by simp_all

lemma blob_checks_pass:
  assumes ends: "ends_agree lib abi s c S C" and quiet: "quiet_reads lib"
    and types: "TLS_CIPHER_AES_GCM_128 abi \<noteq> TLS_CIPHER_CHACHA20_POLY1305 abi"
  shows "\<exists>cs sti s' c'. blob_checks lib abi aes_fast suites s c t = Some (cs, sti, s', c', t) \<and>
    kept_checks cs \<and> ends_agree lib abi s' c' S C \<and> kept_checks (sequence_checks lib sti s' c')"
proof -
  have live: "live lib abi s S C" "live lib abi c C S" and ready: "answers_ready lib s" "answers_ready lib c"
    using ends by (simp_all add: ends_agree_def)
  obtain a s1 where a: "ktls_crypto_info lib s KTLS_TX t = (Inr (a, info_size (x_cipher s)), s1, t)"
      "but_info s s1" "live lib abi s1 S C"
    and seq: "i_rec_seq a = map (\<lambda>i. ucast (drop_bit (8 * (7 - i)) (ktls_record_sequence lib s KTLS_TX))) [0..<8]"
    using reads_blob [OF ready(1) live(1), of KTLS_TX t] by blast
  note k1 = but_info_sel [OF a(2)]
  obtain b s2 where b: "ktls_crypto_info lib s1 KTLS_RX t = (Inr (b, info_size (x_cipher s1)), s2, t)"
      "but_info s1 s2" "live lib abi s2 S C"
    using reads_blob [OF _ a(3), of KTLS_RX t] ready(1) k1(14) by blast
  obtain d c1 where d: "ktls_crypto_info lib c KTLS_TX t = (Inr (d, info_size (x_cipher c)), c1, t)"
      "but_info c c1" "live lib abi c1 C S"
    using reads_blob [OF ready(2) live(2), of KTLS_TX t] by blast
  note k2 = but_info_sel [OF d(2)]
  obtain e c2 where e: "ktls_crypto_info lib c1 KTLS_RX t = (Inr (e, info_size (x_cipher c1)), c2, t)"
      "but_info c1 c2" "live lib abi c2 C S"
    using reads_blob [OF _ d(3), of KTLS_RX t] ready(2) k2(14) by blast
  have refl: "but_info x x" for x :: "'a ktls_exchange" by (simp add: but_info_def)
  have ae: "a = e"
    by (rule ends_agree_blobs(1) [OF ends_agree_but_info [OF ends refl d(2) live(1) d(3)] quiet a(1) e(1)])
  have db: "d = b"
    by (rule ends_agree_blobs(2) [OF ends_agree_but_info [OF ends a(2) refl a(3) live(2)] quiet d(1) b(1)])
  have ends2: "ends_agree lib abi s2 c2 S C"
    by (rule ends_agree_but_info [OF ends but_info_trans [OF a(2) b(2)] but_info_trans [OF d(2) e(2)] b(3) e(3)])
  have wf: "exchange_wf s" using live_facts [OF live(1)] by simp
  have "keys_current lib abi s (slot_of KTLS_TX (x_server s))" by (rule live_keys_current [OF live(1) quiet])
  then have shape: "i_version a = TLS_1_3_VERSION abi \<and> i_cipher_type a = (if x_cipher s = KTLS_AES_GCM_128
      then TLS_CIPHER_AES_GCM_128 abi else TLS_CIPHER_CHACHA20_POLY1305 abi)"
    by (rule keys_current_shape [OF a(1) wf])
  have "unat (ktls_record_sequence lib s KTLS_TX) \<le> 64" by (rule record_sequence_small [OF wf])
  then have top: "i_rec_seq a ! 7 = ucast (ktls_record_sequence lib s KTLS_TX) \<and> i_rec_seq a ! 0 = 0"
    unfolding seq by (simp add: small_top_byte)
  have same: "ktls_record_sequence lib s2 KTLS_TX = ktls_record_sequence lib s KTLS_TX"
    using but_info_sel(15) [OF but_info_trans [OF a(2) b(2)]] .
  let ?cs = "[(''every direction yields a crypto_info'', True),
             (''the kernel is told TLS 1.3'', i_version a = TLS_1_3_VERSION abi),
             (''and the suite that was asked for'', i_cipher_type a = wanted_cipher abi aes_fast suites),
             (''the blob is the size that cipher's struct has'',
                info_size (x_cipher s) = (if i_cipher_type a = TLS_CIPHER_AES_GCM_128 abi then 40 else 56)),
             (''the server's SEND blob IS the client's RECEIVE blob'', a = e),
             (''and the other way round'', d = b),
             (''the two directions differ'', a \<noteq> d),
             (''the key is not zeroes'', behind_head a \<noteq> replicate 16 0)]"
  have "blob_checks lib abi aes_fast suites s c t = Some (?cs, a, s2, c2, t)"
    by (simp only: blob_checks_def a(1) b(1) d(1) e(1) prod.case sum.case)
  moreover have "kept_checks ?cs"
    using shape types ae db by (simp add: info_size_def)
  moreover have "kept_checks (sequence_checks lib a s2 c2)"
    using ends_agree_sequences [OF ends2] top same by (simp add: sequence_checks_def Let_def)
  ultimately show ?thesis using ends2 by blast
qed

text \<open>A key update: the server turns its sending key, the client its receiving key.\<close>

lemma rekey_checks_pass:
  assumes ends: "ends_agree lib abi s c S C" and quiet: "quiet_reads lib" and kdf: "kdf_works lib"
  shows "\<exists>cs s' c'. rekey_checks lib abi before s c t = Some (cs, s', c', t) \<and> kept_checks cs \<and>
    live lib abi s' S C \<and> answers_ready lib s' \<and> x_rekeyed s' (slot_of KTLS_TX (x_server s')) \<and>
    x_ssl s' = x_ssl s"
proof -
  note e = ends [unfolded ends_agree_def]
  have live: "live lib abi s S C" "live lib abi c C S" using e by blast+
  have don: "x_done s" "x_done c" using e by (simp_all add: answers_ready_def)
  obtain s1 where s1: "ktls_next_key lib abi s KTLS_TX t = (Inr (), s1, t)" "x_out s1 = x_out s"
      "x_ssl s1 = x_ssl s" "x_rekeyed s1 = (x_rekeyed s)(slot_of KTLS_TX (x_server s) := True)"
    using next_key_answers [OF kdf don(1), of KTLS_TX abi t] live_complete [OF live(1) quiet] by blast
  obtain c1 where c1: "ktls_next_key lib abi c KTLS_RX t = (Inr (), c1, t)" "x_out c1 = x_out c"
    using next_key_answers [OF kdf don(2), of KTLS_RX abi t] live_complete [OF live(2) quiet] by blast
  have kept: "x_done s1" "x_server s1 = x_server s" "x_tx s1 = x_tx s" "x_rx s1 = x_rx s"
    "x_done c1" "x_tx c1 = x_tx c" "x_rx c1 = x_rx c"
    using next_key_op.oper_done [OF s1(1) don(1)] next_key_op.oper_done [OF c1(1) don(2)]
      next_key_op.oper_tx [OF s1(1)] next_key_op.oper_rx [OF s1(1)]
      next_key_op.oper_tx [OF c1(1)] next_key_op.oper_rx [OF c1(1)] by simp_all
  have ready: "answers_ready lib s1" "answers_ready lib c1"
    using e kept s1(2) c1(2) by (simp_all add: answers_ready_def)
  have live1: "live lib abi s1 S C" "live lib abi c1 C S"
    using live.rekeyed [OF live(1) s1(1)] live.rekeyed [OF live(2) c1(1)] .
  obtain a s2 where a: "ktls_crypto_info lib s1 KTLS_TX t = (Inr (a, info_size (x_cipher s1)), s2, t)"
      "but_info s1 s2" "live lib abi s2 S C"
    and seq: "i_rec_seq a = map (\<lambda>i. ucast (drop_bit (8 * (7 - i)) (ktls_record_sequence lib s1 KTLS_TX))) [0..<8]"
    using reads_blob [OF ready(1) live1(1), of KTLS_TX t] by blast
  obtain b c2 where b: "ktls_crypto_info lib c1 KTLS_RX t = (Inr (b, info_size (x_cipher c1)), c2, t)"
    using reads_blob [OF ready(2) live1(2), of KTLS_RX t] by blast
  have sides: "x_server c = (\<not> x_server s)" "x_cipher s = x_cipher c"
    "slot_secret s (slot_of KTLS_TX (x_server s)) = slot_secret c (slot_of KTLS_TX (x_server s))"
    using e by simp_all
  note agree = live_rekey_agrees [OF live quiet sides s1(1) c1(1) a(1) b]
  have zero: "ktls_record_sequence lib s2 KTLS_TX = 0" using but_info_sel(15) [OF a(2)] agree(2) by simp
  have last: "last (i_rec_seq a) = 0" unfolding seq agree(2) by (simp add: upt_rec)
  let ?cs = "[(''ktls_next_key turns the server's send secret'', \<not> isl (Inr () :: failure + unit)),
             (''and the client's receive secret'', \<not> isl (Inr () :: failure + unit)),
             (''both hand out a fresh blob'', info_size (x_cipher s1) = info_size (x_cipher c1)),
             (''and after the update the two STILL match'', a = b),
             (''the new key is not the old one'', a \<noteq> before),
             (''and the sequence restarts at zero, as a key change leaves it'', last (i_rec_seq a) = 0),
             (''which record_sequence says too - the blob and the getter agree'',
                ktls_record_sequence lib s2 KTLS_TX = 0)]"
  have "rekey_checks lib abi before s c t = Some (?cs, s2, c2, t)"
    by (simp only: rekey_checks_def s1(1) c1(1) a(1) b prod.case sum.case)
  moreover have "kept_checks ?cs" using agree(1) last zero by simp
  moreover have "answers_ready lib s2" "x_rekeyed s2 (slot_of KTLS_TX (x_server s2))" "x_ssl s2 = x_ssl s"
    using but_info_sel [OF a(2)] ready(1) s1(3,4) kept(2) by simp_all
  ultimately show ?thesis using a(3) by blast
qed

text \<open>The release: the exchange without its SSL object answers on.\<close>

lemma refuses_released:
  assumes "x_ssl x = None"
  shows "\<exists>f t'. ktls_exchange_step lib abi x t = (Inl f, x, t')"
    "\<exists>t'. pulled (ktls_exchange_take lib cap x t) = ([], x, t')"
  using assms by (simp_all add: ktls_exchange_step_def ktls_exchange_take_def failing_def pulled_def)

lemma release_checks_pass:
  assumes live: "live lib abi s S C" and quiet: "quiet_reads lib" and kdf: "kdf_works lib"
    and ready: "answers_ready lib s" and turned: "x_rekeyed s (slot_of KTLS_TX (x_server s))"
    and null: "bio_pending_null lib \<le> 0"
  shows "\<exists>cs s' t'. release_checks lib abi s t = Some (cs, s', t') \<and> kept_checks cs"
proof -
  obtain x where rel: "ktls_exchange_release (Some s) = Some x"
    by (cases "x_ssl s") (simp_all add: ktls_exchange_release_def)
  have x: "x_ssl x = None" "x_done x = x_done s" "x_tx x = x_tx s" "x_rx x = x_rx s"
    "x_server x = x_server s" "x_rekeyed x = x_rekeyed s" "x_cipher_name x = x_cipher_name s"
    "x_alpn x = x_alpn s" "x_alpn_len x = x_alpn_len s" "x_out x = None \<or> x_out x = x_out s"
    using ktls_exchange_release_Some [OF rel] by simp_all
  have live1: "live lib abi x S C" by (rule live.released [OF live rel])
  have ready1: "answers_ready lib x"
    using ready x null by (auto simp: answers_ready_def bio_pending_def)
  obtain f t1 where st: "ktls_exchange_step lib abi x t = (Inl f, x, t1)"
    using refuses_released(1) [OF x(1)] by blast
  obtain t2 where tk: "pulled (ktls_exchange_take lib 0 x t1) = ([], x, t2)"
    using refuses_released(2) [OF x(1)] by blast
  obtain kept y where k: "ktls_crypto_info lib x KTLS_TX t2 = (Inr (kept, info_size (x_cipher x)), y, t2)"
      "but_info x y" "live lib abi y S C"
    using reads_blob [OF ready1 live1, of KTLS_TX t2] by blast
  note ky = but_info_sel [OF k(2)]
  have "x_done y" using ready1 ky by (simp add: answers_ready_def)
  then obtain z where z: "ktls_next_key lib abi y KTLS_TX t2 = (Inr (), z, t2)" "x_out z = x_out y"
      "x_rekeyed z = (x_rekeyed y)(slot_of KTLS_TX (x_server y) := True)"
    using next_key_answers [OF kdf, of y KTLS_TX abi t2] live_complete [OF k(3) quiet] by blast
  note kz = next_key_op.oper_done [OF z(1) \<open>x_done y\<close>]
  obtain r v t3 where v: "ktls_crypto_info lib z KTLS_TX t2 = (r, v, t3)"
    by (cases "ktls_crypto_info lib z KTLS_TX t2") auto
  have "ktls_record_sequence lib z KTLS_TX = 0"
    using kz z(3) by (simp add: ktls_record_sequence_def)
  then have zero: "ktls_record_sequence lib v KTLS_TX = 0"
    using but_info_sel(15) [OF crypto_info_but_info [OF v]] by simp
  have "x_cipher_name s \<noteq> []" "length (x_cipher_name s) \<le> 39"
    using live_complete [OF live quiet] live_facts [OF live] by (simp_all add: exchange_wf_def)
  then have suite: "ktls_exchange_cipher lib x = Some (snprintf_s 64 (case ktls_exchange_cipher lib s of
      None \<Rightarrow> [] | Some n \<Rightarrow> n))"
    using x by (simp add: ktls_exchange_cipher_def snprintf_s_def)
  have alpn: "ktls_exchange_alpn x = ktls_exchange_alpn s" using x by (simp add: ktls_exchange_alpn_def)
  let ?cs = "[(''after release the suite is still known'', ktls_exchange_cipher lib x =
             Some (snprintf_s 64 (case ktls_exchange_cipher lib s of None \<Rightarrow> [] | Some n \<Rightarrow> n))),
           (''and so is what ALPN settled on'',
              (ktls_exchange_alpn s = None) = (ktls_exchange_alpn x = None) \<and>
              alpn_len (ktls_exchange_alpn s) = alpn_len (ktls_exchange_alpn x)),
           (''but the handshake calls refuse by name'', True),
           (''a KeyUpdate is still answerable without the SSL'', True),
           (''and it hands out a key the old one is not'', (case r of
                Inl f \<Rightarrow> False
              | Inr (after, after_len) \<Rightarrow> after_len = info_size (x_cipher x) \<and> after \<noteq> kept)),
           (''with the sequence back at zero'', ktls_record_sequence lib v KTLS_TX = 0)]"
  have "release_checks lib abi s t = Some (?cs, v, t3)"
    by (simp add: release_checks_def Let_def rel st tk k(1) z(1) v)
  moreover have "kept_checks ?cs" using suite alpn zero by simp
  ultimately show ?thesis by blast
qed

section \<open>The program\<close>

lemma type_checks_pass: "0 < TLS_GET_RECORD_TYPE abi \<Longrightarrow> 0 < TLS_SET_RECORD_TYPE abi \<Longrightarrow> kept_checks (type_checks abi)"
  by (simp add: type_checks_def ktls_record_type_def ktls_record_of_def ktls_record_type_encode_def
      Let_def memcpy_at_def)

lemma refusal_checks_pass: "kept_checks (refusal_checks lib abi initialized kern s t)"
  by (auto simp: refusal_checks_def ktls_offload_def Let_def split: prod.splits sum.splits)

text \<open>
  What OpenSSL's handshake leaves on the two ends once both have read all that arrived: the
  same suite and secrets, and each end's mark of where the application records begin.
\<close>

definition handshake_agreed :: "'s ktls_exchange \<Rightarrow> 's ktls_exchange \<Rightarrow> bool" where
  "handshake_agreed s c \<longleftrightarrow> x_in s = Some [] \<and> x_in c = Some [] \<and> x_server s \<and> \<not> x_server c \<and>
     x_cipher s = x_cipher c \<and> (\<forall>w. slot_secret s w = slot_secret c w) \<and>
     x_tx_at_done s = x_rx_at_done c \<and> x_tx_at_done c = x_rx_at_done s"

text \<open>The two ends after the loop and both backlogs.\<close>

lemma loop_ends_agree:
  assumes laws: "bio_reads lib" "bio_writes lib"
    and s0: "fst (ktls_exchange_open lib (ssl_new :: nat \<Rightarrow> 's option) a1 a2 a3 sk KTLS_SERVER t1) = Inr s0"
    and c0: "fst (ktls_exchange_open lib (ssl_new' :: nat \<Rightarrow> 's option) b1 b2 b3 ck KTLS_CLIENT t2) = Inr c0"
    and loop: "exchange_loop lib abi s0 c0 t = Some (Drove n KTLS_DONE KTLS_DONE, s1, c1, t3)"
    and backlogs: "pulled (ktls_exchange_backlog lib 4096 s1 t3) = (p, s, t4)"
      "pulled (ktls_exchange_backlog lib 4096 c1 t4) = (q, c, t5)"
    and agreed: "handshake_agreed s c" "answers_ready lib s" "answers_ready lib c"
  shows "\<exists>S C. ends_agree lib abi s c S C"
proof -
  obtain rs rc where b: "ktls_exchange_backlog lib 4096 s1 t3 = (rs, s, t4)"
    "ktls_exchange_backlog lib 4096 c1 t4 = (rc, c, t5)"
    using backlogs by (auto simp: pulled_def split: prod.splits)
  obtain S C where ends: "end_ok lib abi s1 S C" "end_ok lib abi c1 C S" "x_done s1" "x_done c1"
    using loop_done [OF laws s0 c0 loop] by blast
  from backlog_end_ok [OF b(1) ends(1,3)] backlog_end_ok [OF b(2) ends(2,4)]
  have "ends_agree lib abi s c S C"
    using agreed by (simp add: ends_agree_def handshake_agreed_def)
  then show ?thesis by blast
qed

text \<open>All of \<open>main\<close> after its loop.\<close>

theorem example_checks_pass:
  assumes laws: "bio_reads lib" "bio_writes lib" "quiet_reads lib" "kdf_works lib"
      "bio_pending_null lib \<le> 0"
    and constants: "TLS_CIPHER_AES_GCM_128 abi \<noteq> TLS_CIPHER_CHACHA20_POLY1305 abi"
      "0 < TLS_GET_RECORD_TYPE abi" "0 < TLS_SET_RECORD_TYPE abi"
    and s0: "fst (ktls_exchange_open lib (ssl_new :: nat \<Rightarrow> 's option) a1 a2 a3 sk KTLS_SERVER t1) = Inr s0"
    and c0: "fst (ktls_exchange_open lib (ssl_new' :: nat \<Rightarrow> 's option) b1 b2 b3 ck KTLS_CLIENT t2) = Inr c0"
    and loop: "exchange_loop lib abi s0 c0 t = Some (Drove n KTLS_DONE KTLS_DONE, s1, c1, t3)"
    and backlogs: "pulled (ktls_exchange_backlog lib 4096 s1 t3) = (p, s, t4)"
      "pulled (ktls_exchange_backlog lib 4096 c1 t4) = (q, c, t5)"
    and agreed: "handshake_agreed s c" "answers_ready lib s" "answers_ready lib c"
  shows "\<exists>cs. main_checks lib abi aes_fast suites initialized kern s1 c1 t3 = Some cs \<and>
    (\<forall>(what, passed) \<in> set cs. what \<notin> openssl_decides \<longrightarrow> passed)"
proof -
  obtain S C where ea: "ends_agree lib abi s c S C"
    using loop_ends_agree [OF laws(1,2) s0 c0 loop backlogs agreed] by blast
  obtain blobs sti s2 c2 where bl: "blob_checks lib abi aes_fast suites s c t5 = Some (blobs, sti, s2, c2, t5)"
    "kept_checks blobs" "ends_agree lib abi s2 c2 S C" "kept_checks (sequence_checks lib sti s2 c2)"
    using blob_checks_pass [OF ea laws(3) constants(1), of aes_fast suites t5] by blast
  obtain rekeys s3 c3 where rk: "rekey_checks lib abi sti s2 c2 t5 = Some (rekeys, s3, c3, t5)"
    "kept_checks rekeys" "live lib abi s3 S C" "answers_ready lib s3"
    "x_rekeyed s3 (slot_of KTLS_TX (x_server s3))"
    using rekey_checks_pass [OF bl(3) laws(3,4), of sti t5] by blast
  obtain rels s4 t6 where rl: "release_checks lib abi s3 t5 = Some (rels, s4, t6)" "kept_checks rels"
    using release_checks_pass [OF rk(3) laws(3,4) rk(4,5) laws(5), of t5] by blast
  let ?cs = "[(''the server has no backlog - this client pipelined nothing'', p = []),
           (''ALPN settles on h2 - the server's order decides'',
              ktls_exchange_alpn s = Some (map of_char ''h2''))] @
         blobs @ sequence_checks lib sti s2 c2 @ rekeys @ rels @
         type_checks abi @ refusal_checks lib abi initialized kern s4 t6"
  have "main_checks lib abi aes_fast suites initialized kern s1 c1 t3 = Some ?cs"
    by (simp only: main_checks_def backlogs bl(1) rk(1) rl(1) prod.case option.case)
  moreover have "kept_checks ?cs"
    using bl(2,4) rk(2) rl(2) type_checks_pass [OF constants(2,3)] refusal_checks_pass by simp
  ultimately show ?thesis unfolding kept_checks_def by blast
qed

end
