(* ===== verification/Ktls_Program_Evidence.thy ===== *)
theory Ktls_Program_Evidence
  imports Ktls_Handles Ktls_Checks Ktls_Instance
begin

text \<open>
  The properties of the example's loop at concrete inputs: the two ends of Ktls_Instance,
  opened and driven by \<open>exchange_loop\<close> against the stand-in for OpenSSL.
\<close>

lemma demo_bio: "bio_reads demo_lib" "bio_writes demo_lib"
  by (simp_all add: bio_reads_def bio_writes_def demo_lib_def)

type_synonym demo_pair = "nat ktls_exchange \<times> nat ktls_exchange \<times> thread_err"

definition demo_loop :: "(drive_end \<times> demo_pair) option" where
  "demo_loop = exchange_loop demo_lib demo_abi (demo_open KTLS_SERVER) (demo_open KTLS_CLIENT) thread_err_zero"

text \<open>The loop, then both backlogs.\<close>

definition demo_after :: demo_pair where
  "demo_after = (case snd (the demo_loop) of (s, c, t) \<Rightarrow>
     (case ktls_exchange_backlog demo_lib chunk s t of (p, s1, t1) \<Rightarrow>
       (case ktls_exchange_backlog demo_lib chunk c t1 of (q, c1, t2) \<Rightarrow> (s1, c1, t2))))"

lemma demo_loop_end:
  "case demo_loop of None \<Rightarrow> False | Some (e, s, c, t) \<Rightarrow> e = Drove 3 KTLS_DONE KTLS_DONE"
  by code_simp

lemma demo_after_end:
  "case demo_after of (s, c, t) \<Rightarrow>
     x_in s = Some [] \<and> x_in c = Some [] \<and> x_server s \<and> \<not> x_server c \<and> x_cipher s = x_cipher c \<and>
     slot_secret s ClientSlot = slot_secret c ClientSlot \<and>
     slot_secret s ServerSlot = slot_secret c ServerSlot \<and>
     x_tx_at_done s = x_rx_at_done c \<and> x_tx_at_done c = x_rx_at_done s \<and>
     \<not> isl (fst (ktls_crypto_info demo_lib s KTLS_TX thread_err_zero)) \<and>
     \<not> isl (fst (ktls_crypto_info demo_lib s KTLS_RX thread_err_zero)) \<and>
     \<not> isl (fst (ktls_crypto_info demo_lib c KTLS_TX thread_err_zero)) \<and>
     \<not> isl (fst (ktls_crypto_info demo_lib c KTLS_RX thread_err_zero)) \<and>
     ktls_record_sequence demo_lib s KTLS_TX = 1 \<and> r_offset (x_tx s) = 15 \<and> r_offset (x_tx c) = 12 \<and>
     ktls_exchange_alpn s = Some [104, 50] \<and> take 2 (x_alpn s) = [104, 50]"
  by code_simp

lemma demo_loop_result:
  obtains s c t where "exchange_loop demo_lib demo_abi (demo_open KTLS_SERVER) (demo_open KTLS_CLIENT)
      thread_err_zero = Some (Drove 3 KTLS_DONE KTLS_DONE, s, c, t)"
    "demo_loop = Some (Drove 3 KTLS_DONE KTLS_DONE, s, c, t)"
proof (cases demo_loop)
  case (Some r)
  obtain e s c t where r: "r = (e, s, c, t)" by (cases r)
  have "e = Drove 3 KTLS_DONE KTLS_DONE"
    using demo_loop_end unfolding Some r option.case prod.case .
  with Some r have "demo_loop = Some (Drove 3 KTLS_DONE KTLS_DONE, s, c, t)" by simp
  with that show ?thesis unfolding demo_loop_def by blast
qed (use demo_loop_end in simp)

theorem exchange_loop_ends_witness:
  "\<exists>s c t S C. demo_loop = Some (Drove 3 KTLS_DONE KTLS_DONE, s, c, t) \<and>
     live demo_lib demo_abi s S C \<and> live demo_lib demo_abi c C S \<and> bio_bytes (x_out s) = []"
proof -
  obtain s c t where r: "demo_loop = Some (Drove 3 KTLS_DONE KTLS_DONE, s, c, t)"
    by (rule demo_loop_result)
  from exchange_loop_ends [OF demo_bio demo_opened demo_opened, of demo_abi thread_err_zero]
  show ?thesis unfolding demo_loop_def [symmetric] r by auto
qed

theorem exchange_loop_agrees_witness:
  "\<exists>s c t sti s2 t2 c3 t3. demo_after = (s, c, t) \<and>
     ktls_crypto_info demo_lib s KTLS_TX thread_err_zero = (Inr sti, s2, t2) \<and>
     ktls_crypto_info demo_lib c KTLS_RX thread_err_zero = (Inr sti, c3, t3)"
proof -
  obtain s1 c1 t1 where
    r: "exchange_loop demo_lib demo_abi (demo_open KTLS_SERVER) (demo_open KTLS_CLIENT)
      thread_err_zero = Some (Drove 3 KTLS_DONE KTLS_DONE, s1, c1, t1)"
      "demo_loop = Some (Drove 3 KTLS_DONE KTLS_DONE, s1, c1, t1)"
    by (rule demo_loop_result)
  obtain p s t2 where b: "ktls_exchange_backlog demo_lib chunk s1 t1 = (p, s, t2)"
    by (cases "ktls_exchange_backlog demo_lib chunk s1 t1") auto
  obtain q c t3 where d: "ktls_exchange_backlog demo_lib chunk c1 t2 = (q, c, t3)"
    by (cases "ktls_exchange_backlog demo_lib chunk c1 t2") auto
  have after: "demo_after = (s, c, t3)" by (simp add: demo_after_def r b d)
  note facts = demo_after_end [unfolded after prod.case]
  have ex: "\<exists>i x' t'. f = (Inr i, x', t')" if "\<not> isl (fst f)"
    for f :: "(failure + ktls_info \<times> nat) \<times> nat ktls_exchange \<times> thread_err"
    using that by (cases f; cases "fst f") auto
  obtain sti s2 u2 where stx: "ktls_crypto_info demo_lib s KTLS_TX thread_err_zero = (Inr sti, s2, u2)"
    using ex facts by blast
  obtain sri s3 u3 where srx: "ktls_crypto_info demo_lib s KTLS_RX thread_err_zero = (Inr sri, s3, u3)"
    using ex facts by blast
  obtain cti c2 v2 where ctx: "ktls_crypto_info demo_lib c KTLS_TX thread_err_zero = (Inr cti, c2, v2)"
    using ex facts by blast
  obtain cri c3 v3 where crx: "ktls_crypto_info demo_lib c KTLS_RX thread_err_zero = (Inr cri, c3, v3)"
    using ex facts by blast
  have secrets: "slot_secret s w = slot_secret c w" for w using facts by (cases w) simp_all
  have "sti = cri \<and> cti = sri"
    by (rule exchange_loop_agrees [OF demo_bio demo_quiet demo_opened demo_opened r(1) b d
          _ _ _ _ _ secrets _ _ stx srx ctx crx]) (use facts in simp_all)
  with after stx crx show ?thesis by blast
qed

section \<open>The handles\<close>

text \<open>
  Some keys are made, moved into a second object and the two leave their scope: the states
  between are written out.
\<close>

abbreviation after_ops :: "(nat \<Rightarrow> (handle_class \<times> nat option) option) \<Rightarrow> bool \<Rightarrow> cpp_state" where
  "after_ops vars alive \<equiv> \<lparr> c_vars = vars,
     c_raw = \<lparr> h_live = (\<lambda>a. False)(0 := alive), h_next = 1, h_bad = False \<rparr> \<rparr>"

lemma demo_handles:
  "handle_reach (after_ops [0 \<mapsto> (Keys, None), 1 \<mapsto> (Keys, Some 0)] True)"
  "handle_reach (after_ops (\<lambda>u. None) False)"
proof -
  have made: "handle_reach (after_ops [0 \<mapsto> (Keys, Some 0)] True)"
    using handle_reach.step [OF handle_reach.start
        handle_step.make [of cpp_start 0 True "Some 0" _ Keys, OF _ surjective_pairing [THEN trans]]]
    by (simp add: cpp_start_def raw_make_def)
  show moved: "handle_reach (after_ops [0 \<mapsto> (Keys, None), 1 \<mapsto> (Keys, Some 0)] True)"
    using handle_reach.step [OF made handle_step.move_new [of _ 1 0 Keys "Some 0" "Some 0" None]]
    by (simp add: keys_move_def)
  have gone: "handle_reach (after_ops [0 \<mapsto> (Keys, None)] False)"
    using handle_reach.step [OF moved handle_step.destroy [of _ 1 Keys "Some 0"]]
    by (simp add: keys_destroy_def raw_free_def fun_upd_twist)
  show "handle_reach (after_ops (\<lambda>u. None) False)"
    using handle_reach.step [OF gone handle_step.destroy [of _ 0 Keys None]]
    by (simp add: keys_destroy_def raw_free_def)
qed

theorem handles_own_witness:
  "h_live (c_raw (after_ops [0 \<mapsto> (Keys, None), 1 \<mapsto> (Keys, Some 0)] True)) 0 \<and>
   \<not> h_live (c_raw (after_ops (\<lambda>u. None) False)) 0"
  using handles_own [OF demo_handles(1), of 0 1] handles_own [OF demo_handles(2), of 0 0]
  by (simp add: owns_ptr_def)

section \<open>The two ends when the checks begin\<close>

lemma demo_backlog_cap: "ktls_exchange_backlog demo_lib cap x t = ktls_exchange_backlog demo_lib chunk x t"
proof -
  have "ssl_read demo_lib s i u (c_int cap) = ssl_read demo_lib s i u (c_int chunk)" for s i u
    by (simp add: demo_lib_def)
  then show ?thesis by (simp only: ktls_exchange_backlog_def)
qed

lemma demo_answers_ready:
  "\<not> isl (fst (ktls_crypto_info demo_lib x dir t)) \<Longrightarrow> answers_ready demo_lib x"
  by (auto simp: answers_ready_def ktls_crypto_info_def failing_def split: if_splits)

lemma demo_ends:
  obtains s1 c1 t1 p q s c t2 t3 where
    "exchange_loop demo_lib demo_abi (demo_open KTLS_SERVER) (demo_open KTLS_CLIENT)
      thread_err_zero = Some (Drove 3 KTLS_DONE KTLS_DONE, s1, c1, t1)"
    "pulled (ktls_exchange_backlog demo_lib 4096 s1 t1) = (p, s, t2)"
    "pulled (ktls_exchange_backlog demo_lib 4096 c1 t2) = (q, c, t3)"
    "handshake_agreed s c" "answers_ready demo_lib s" "answers_ready demo_lib c"
    "ktls_exchange_alpn s = Some [104, 50]" "take 2 (x_alpn s) = [104, 50]"
proof -
  obtain s1 c1 t1 where
    r: "exchange_loop demo_lib demo_abi (demo_open KTLS_SERVER) (demo_open KTLS_CLIENT)
      thread_err_zero = Some (Drove 3 KTLS_DONE KTLS_DONE, s1, c1, t1)"
      "demo_loop = Some (Drove 3 KTLS_DONE KTLS_DONE, s1, c1, t1)"
    by (rule demo_loop_result)
  obtain p s t2 where b: "ktls_exchange_backlog demo_lib chunk s1 t1 = (p, s, t2)"
    by (cases "ktls_exchange_backlog demo_lib chunk s1 t1") auto
  obtain q c t3 where d: "ktls_exchange_backlog demo_lib chunk c1 t2 = (q, c, t3)"
    by (cases "ktls_exchange_backlog demo_lib chunk c1 t2") auto
  have after: "demo_after = (s, c, t3)" by (simp add: demo_after_def r b d)
  note facts = demo_after_end [unfolded after prod.case]
  have secrets: "slot_secret s w = slot_secret c w" for w using facts by (cases w) simp_all
  have agreed: "handshake_agreed s c" using facts secrets by (simp add: handshake_agreed_def)
  have ready: "answers_ready demo_lib s" "answers_ready demo_lib c"
    using facts demo_answers_ready by blast+
  obtain p' q' where pq: "pulled (ktls_exchange_backlog demo_lib 4096 s1 t1) = (p', s, t2)"
      "pulled (ktls_exchange_backlog demo_lib 4096 c1 t2) = (q', c, t3)"
    using b d demo_backlog_cap [of 4096] by (simp add: pulled_def)
  show ?thesis by (rule that [OF r(1) pq agreed ready]) (use facts in simp_all)
qed

end
