(* ===== verification/Ktls_Socket.thy ===== *)
theory Ktls_Socket
  imports Ktls_Pump Ktls_Record_Types
begin

text \<open>
  The program src/examples/ktls_handover.c as far as it drives exchanges over sockets:
  \<open>carry\<close>, \<open>collect\<close>, \<open>drain\<close>, the loop of \<open>main\<close> and \<open>read_a_record\<close>. The kernel's side of
  the descriptors is a parameter: a state and what \<open>read\<close>, \<open>write\<close>, \<open>poll\<close>, \<open>fcntl\<close> and
  \<open>recvmsg\<close> answer in it.
\<close>

section \<open>Descriptors\<close>

text \<open>
  \<open>read\<close> answers with the bytes it copied, or \<open>None\<close> where it returns -1; no bytes is the end.
  Both calls read into a buffer of 16384 bytes, \<open>chunk\<close>.
\<close>

record 'k sockets =
  sk_write :: "int \<Rightarrow> bytes \<Rightarrow> 'k \<Rightarrow> int \<times> 'k"
  sk_read :: "int \<Rightarrow> 'k \<Rightarrow> bytes option \<times> 'k"
  sk_poll :: "int \<Rightarrow> int \<Rightarrow> 'k \<Rightarrow> int \<times> 'k"
  sk_getfl :: "int \<Rightarrow> 'k \<Rightarrow> int"
  sk_setfl :: "int \<Rightarrow> int \<Rightarrow> 'k \<Rightarrow> 'k"
  O_NONBLOCK :: int

section \<open>Carrying and collecting\<close>

text \<open>The first part of a result is whether the program goes on; \<open>exit (1)\<close> otherwise.\<close>

partial_function (option) carry ::
    "'s tls_lib \<Rightarrow> 'k sockets \<Rightarrow> int \<Rightarrow> 's ktls_exchange \<Rightarrow> thread_err \<Rightarrow> 'k \<Rightarrow>
      (bool \<times> 's ktls_exchange \<times> thread_err \<times> 'k) option" where
  "carry lib sk fd x t k =
     (case pulled (ktls_exchange_take lib chunk x t) of (buf, x1, t1) \<Rightarrow>
        if length buf = 0 then Some (True, x1, t1, k)
        else (case sk_write sk fd buf k of (written, k1) \<Rightarrow>
          if written \<noteq> int (length buf) then Some (False, x1, t1, k1)
          else carry lib sk fd x1 t1 k1))"

declare carry.simps [code]

definition collect ::
    "'s tls_lib \<Rightarrow> 'k sockets \<Rightarrow> int \<Rightarrow> 's ktls_exchange \<Rightarrow> thread_err \<Rightarrow> 'k \<Rightarrow>
      bool \<times> 's ktls_exchange \<times> thread_err \<times> 'k" where
  "collect lib sk fd x t k =
     (case sk_read sk fd k of
        (Some (b # bs), k1) \<Rightarrow> (case ktls_exchange_feed lib (b # bs) x t of
            (Inl f, x1, t1) \<Rightarrow> (False, x1, t1, k1)
          | (Inr u, x1, t1) \<Rightarrow> (True, x1, t1, k1))
      | (_, k1) \<Rightarrow> (True, x, t, k1))"

text \<open>
  The loop of \<open>drain\<close>: read what there is; two polls of 50 ms with no answer in a row end it.
  The result of \<open>feed\<close> is not looked at.
\<close>

partial_function (option) drain_reads ::
    "'s tls_lib \<Rightarrow> 'k sockets \<Rightarrow> int \<Rightarrow> nat \<Rightarrow> 's ktls_exchange \<times> thread_err \<Rightarrow> 'k \<Rightarrow>
      (('s ktls_exchange \<times> thread_err) \<times> 'k) option" where
  "drain_reads lib sk fd quiet xt k =
     (if \<not> quiet < 2 then Some (xt, k)
      else (case sk_read sk fd k of (got, k1) \<Rightarrow>
        if got \<noteq> None \<and> got \<noteq> Some [] then
          drain_reads lib sk fd 0 (snd (ktls_exchange_feed lib (the got) (fst xt) (snd xt))) k1
        else (case sk_poll sk fd 50 k1 of (n, k2) \<Rightarrow>
          drain_reads lib sk fd (if n \<le> 0 then quiet + 1 else quiet) xt k2)))"

declare drain_reads.simps [code]

text \<open>\<open>drain\<close>: the descriptor does not block meanwhile; then the backlog is read to its end.\<close>

definition drain_socket ::
    "'s tls_lib \<Rightarrow> 'k sockets \<Rightarrow> int \<Rightarrow> 's ktls_exchange \<Rightarrow> thread_err \<Rightarrow> 'k \<Rightarrow>
      ('s ktls_exchange \<times> thread_err \<times> 'k) option" where
  "drain_socket lib sk fd x t k =
     (let fl = sk_getfl sk fd k
      in case drain_reads lib sk fd 0 (x, t) (sk_setfl sk fd (fl OR O_NONBLOCK sk) k) of
           None \<Rightarrow> None
         | Some (xt, k1) \<Rightarrow> (let k2 = sk_setfl sk fd fl k1
             in case drain (backlog_pull lib chunk) [] xt of
                  None \<Rightarrow> None
                | Some (plain, x', t') \<Rightarrow> Some (x', t', k2)))"

section \<open>Reading a record\<close>

text \<open>A control message: its level, its type and its payload.\<close>

type_synonym cmsg = "int \<times> int \<times> bytes"

text \<open>
  \<open>read_a_record\<close>: what \<open>recvmsg\<close> returned (-1 where it failed) and the control messages that
  came with it; the last one of ours decides. \<open>None\<close> is a type left as the caller had it.
\<close>

definition read_a_record ::
    "kernel_abi \<Rightarrow> int \<Rightarrow> cmsg list \<Rightarrow> int \<times> ktls_record option" where
  "read_a_record abi n control =
     (if n < 0 then (n, None)
      else (n, Some (foldl (\<lambda>type (level, ctype, payload).
         if level = ktls_sol_tls abi \<and> ctype = ktls_record_type_cmsg abi
         then ktls_record_type (Some payload) (length payload) else type)
       KTLS_RECORD_UNKNOWN control)))"

section \<open>The loop of main\<close>

text \<open>
  The process: both exchanges, the thread's error state and the kernel. A part of \<open>main\<close>
  does not return (\<open>None\<close>), ends the program (\<open>Some (Inl p)\<close>), or goes on (\<open>Some (Inr p)\<close>).
\<close>

record ('s, 'k) process =
  p_s :: "'s ktls_exchange"
  p_c :: "'s ktls_exchange"
  p_err :: thread_err
  p_kernel :: 'k
  p_ss :: ktls_step
  p_cs :: ktls_step

type_synonym ('s, 'k) part = "('s, 'k) process \<Rightarrow> (('s, 'k) process + ('s, 'k) process) option"

definition and_then :: "('s, 'k) part \<Rightarrow> ('s, 'k) part \<Rightarrow> ('s, 'k) part" where
  "and_then f g p = (case f p of
     None \<Rightarrow> None
   | Some (Inl q) \<Rightarrow> Some (Inl q)
   | Some (Inr q) \<Rightarrow> g q)"

definition only_if :: "(('s, 'k) process \<Rightarrow> bool) \<Rightarrow> ('s, 'k) part \<Rightarrow> ('s, 'k) part" where
  "only_if b f p = (if b p then f p else Some (Inr p))"

text \<open>Whose turn it is: the client on \<open>cfd\<close> or the server on \<open>sfd\<close>.\<close>

definition side :: "ktls_role \<Rightarrow> ('s, 'k) process \<Rightarrow> 's ktls_exchange" where
  "side r p = (case r of KTLS_SERVER \<Rightarrow> p_s p | KTLS_CLIENT \<Rightarrow> p_c p)"

definition set_side ::
    "ktls_role \<Rightarrow> 's ktls_exchange \<Rightarrow> thread_err \<Rightarrow> ('s, 'k) process \<Rightarrow> ('s, 'k) process" where
  "set_side r x t p = (case r of
     KTLS_SERVER \<Rightarrow> p\<lparr> p_s := x, p_err := t \<rparr>
   | KTLS_CLIENT \<Rightarrow> p\<lparr> p_c := x, p_err := t \<rparr>)"

definition step_part :: "'s tls_lib \<Rightarrow> kernel_abi \<Rightarrow> ktls_role \<Rightarrow> ('s, 'k) part" where
  "step_part lib abi r p = (case ktls_exchange_step lib abi (side r p) (p_err p) of
     (Inl f, x, t) \<Rightarrow> Some (Inl (set_side r x t p))
   | (Inr a, x, t) \<Rightarrow> Some (Inr (case r of
         KTLS_SERVER \<Rightarrow> (set_side r x t p)\<lparr> p_ss := a \<rparr>
       | KTLS_CLIENT \<Rightarrow> (set_side r x t p)\<lparr> p_cs := a \<rparr>)))"

definition carry_part :: "'s tls_lib \<Rightarrow> 'k sockets \<Rightarrow> int \<Rightarrow> ktls_role \<Rightarrow> ('s, 'k) part" where
  "carry_part lib sk fd r p = (case carry lib sk fd (side r p) (p_err p) (p_kernel p) of
     None \<Rightarrow> None
   | Some (goes_on, x, t, k) \<Rightarrow>
       (let q = (set_side r x t p)\<lparr> p_kernel := k \<rparr> in Some (if goes_on then Inr q else Inl q)))"

definition collect_part :: "'s tls_lib \<Rightarrow> 'k sockets \<Rightarrow> int \<Rightarrow> ktls_role \<Rightarrow> ('s, 'k) part" where
  "collect_part lib sk fd r p = (case collect lib sk fd (side r p) (p_err p) (p_kernel p) of
     (goes_on, x, t, k) \<Rightarrow>
       (let q = (set_side r x t p)\<lparr> p_kernel := k \<rparr> in Some (if goes_on then Inr q else Inl q)))"

definition handover_round ::
    "'s tls_lib \<Rightarrow> kernel_abi \<Rightarrow> 'k sockets \<Rightarrow> int \<Rightarrow> int \<Rightarrow> ('s, 'k) part" where
  "handover_round lib abi sk cfd sfd =
     and_then (step_part lib abi KTLS_CLIENT)
    (and_then (carry_part lib sk cfd KTLS_CLIENT)
    (and_then (only_if (\<lambda>p. p_cs p = KTLS_READING \<and> p_ss p = KTLS_DONE) (collect_part lib sk cfd KTLS_CLIENT))
    (and_then (step_part lib abi KTLS_SERVER)
    (and_then (carry_part lib sk sfd KTLS_SERVER)
    (and_then (only_if (\<lambda>p. p_ss p = KTLS_READING) (collect_part lib sk sfd KTLS_SERVER))
              (only_if (\<lambda>p. p_cs p = KTLS_READING) (collect_part lib sk cfd KTLS_CLIENT)))))))"

fun handover_loop ::
    "'s tls_lib \<Rightarrow> kernel_abi \<Rightarrow> 'k sockets \<Rightarrow> int \<Rightarrow> int \<Rightarrow> nat \<Rightarrow> ('s, 'k) part" where
  "handover_loop lib abi sk cfd sfd 0 p = Some (Inr p)"
| "handover_loop lib abi sk cfd sfd (Suc left) p =
     (if p_ss p \<noteq> KTLS_DONE \<or> p_cs p \<noteq> KTLS_DONE
      then and_then (handover_round lib abi sk cfd sfd) (handover_loop lib abi sk cfd sfd left) p
      else Some (Inr p))"

section \<open>What goes over the socket\<close>

text \<open>\<open>sent\<close>: the bytes a descriptor has taken, when its writes are never short.\<close>

definition writes_all :: "'k sockets \<Rightarrow> int \<Rightarrow> ('k \<Rightarrow> bytes) \<Rightarrow> bool" where
  "writes_all sk fd sent \<longleftrightarrow>
     (\<forall>b k. fst (sk_write sk fd b k) = int (length b) \<and> sent (snd (sk_write sk fd b k)) = sent k @ b)"

lemma carry_sends:
  assumes laws: "bio_reads lib" "writes_all sk fd sent"
  shows "x_ssl x = None \<longrightarrow> x_out x = None \<Longrightarrow>
    \<exists>x' t' k'. carry lib sk fd x t k = Some (True, x', t', k') \<and>
      bio_bytes (x_out x') = [] \<and> sent k' = sent k @ bio_bytes (x_out x)"
proof (induction "length (bio_bytes (x_out x))" arbitrary: x t k rule: less_induct)
  case less
  obtain b x1 t1 where b: "pulled (ktls_exchange_take lib chunk x t) = (b, x1, t1)"
    by (cases "pulled (ktls_exchange_take lib chunk x t)") auto
  note front = take_pull_cases [of lib x t b x1 t1, unfolded take_pull_def prod.case, OF b laws(1) less.prems]
  show ?case
  proof (cases "b = []")
    case True
    with front have "bio_bytes (x_out x) = []" "bio_bytes (x_out x1) = []" by auto
    with True b show ?thesis by (subst carry.simps) simp
  next
    case False
    obtain w k1 where w: "sk_write sk fd b k = (w, k1)" by (cases "sk_write sk fd b k")
    with laws(2) have wr: "w = int (length b)" "sent k1 = sent k @ b"
      unfolding writes_all_def by (metis fst_conv, metis snd_conv)
    have "length (bio_bytes (x_out x1)) < length (bio_bytes (x_out x))" using front(1) False by simp
    from less.hyps [OF this front(3), of t1 k1] False b w wr front(1) show ?thesis
      by (subst carry.simps) simp
  qed
qed

section \<open>Draining\<close>

text \<open>
  The example's \<open>drain\<close> does not end on a connection the peer has closed: there \<open>read\<close>
  answers 0 and \<open>poll\<close> answers at once that the descriptor is readable, so that the loop
  never counts a quiet round.
\<close>

theorem drain_spins_at_eof:
  assumes "\<And>k. fst (sk_read sk fd k) = Some []" "\<And>k. 0 < fst (sk_poll sk fd 50 k)"
  shows "drain_socket lib sk fd x t k = None"
proof -
  have "\<not> (drain_reads lib sk fd 0 xt k = Some r)" for xt k r
  proof
    let ?P = "\<lambda>l s d q xt k r. s = sk \<longrightarrow> d = fd \<longrightarrow> (q :: nat) \<noteq> 0"
    assume ret: "drain_reads lib sk fd 0 xt k = Some r"
    have "?P lib sk fd 0 xt k r"
    proof (rule drain_reads.raw_induct [where P = ?P, OF _ ret])
      fix f l s d q xt k r
      assume IH: "\<And>l s d q xt k r. f l s d q xt k = Some r \<Longrightarrow> ?P l s d q xt k r"
        and eq: "(if \<not> q < 2 then Some (xt, k)
          else (case sk_read s d k of (got, k1) \<Rightarrow>
            if got \<noteq> None \<and> got \<noteq> Some [] then
              f l s d 0 (snd (ktls_exchange_feed l (the got) (fst xt) (snd xt))) k1
            else (case sk_poll s d 50 k1 of (n, k2) \<Rightarrow>
              f l s d (if n \<le> 0 then q + 1 else q) xt k2))) = Some r"
      show "?P l s d q xt k r"
      proof (intro impI notI)
        assume s: "s = sk" "d = fd" and q: "q = 0"
        obtain k1 where k1: "sk_read sk fd k = (Some [], k1)"
          using assms(1) [of k] by (cases "sk_read sk fd k") auto
        obtain n k2 where n: "sk_poll sk fd 50 k1 = (n, k2)" "0 < n"
          using assms(2) [of k1] by (cases "sk_poll sk fd 50 k1") auto
        from eq s q k1 n have "f l sk fd 0 xt k2 = Some r" by simp
        from IH [OF this] show False by simp
      qed
    qed
    then show False by simp
  qed
  then have "drain_reads lib sk fd 0 xt k = None" for xt k
    by (cases "drain_reads lib sk fd 0 xt k") auto
  then show ?thesis by (simp add: drain_socket_def Let_def)
qed

text \<open>The type of a record is decided by the last control message of ours, unknown without one.\<close>

lemma read_a_record_type:
  assumes "0 \<le> n" "\<forall>(level, ctype, payload) \<in> set later. \<not> (level = ktls_sol_tls abi \<and> ctype = ktls_record_type_cmsg abi)"
  shows "snd (read_a_record abi n (before @ (ktls_sol_tls abi, ktls_record_type_cmsg abi, payload) # later)) =
      Some (ktls_record_type (Some payload) (length payload))"
    "snd (read_a_record abi n later) = Some KTLS_RECORD_UNKNOWN"
proof -
  have skip: "foldl (\<lambda>type (level, ctype, payload). if level = ktls_sol_tls abi \<and> ctype = ktls_record_type_cmsg abi
      then ktls_record_type (Some payload) (length payload) else type) z later = z" for z
    using assms(2) by (induction later) auto
  then show "snd (read_a_record abi n (before @ (ktls_sol_tls abi, ktls_record_type_cmsg abi, payload) # later)) =
      Some (ktls_record_type (Some payload) (length payload))"
    "snd (read_a_record abi n later) = Some KTLS_RECORD_UNKNOWN"
    using assms(1) by (simp_all add: read_a_record_def)
qed

text \<open>Where what arrives is finite and the descriptor goes quiet, \<open>drain\<close> ends.\<close>

lemma drain_reads_returns:
  assumes more: "\<And>k b k'. sk_read sk fd k = (Some b, k') \<Longrightarrow> b \<noteq> [] \<Longrightarrow> (left k' :: nat) < left k"
    and none: "\<And>k got k'. sk_read sk fd k = (got, k') \<Longrightarrow> got = None \<or> got = Some [] \<Longrightarrow>
      left k' \<le> left k \<and> fst (sk_poll sk fd 50 k') \<le> 0 \<and> left (snd (sk_poll sk fd 50 k')) \<le> left k"
  shows "\<exists>r. drain_reads lib sk fd quiet xt k = Some r"
proof (induction "(left k, 2 - quiet)" arbitrary: k quiet xt rule: wf_induct_rule [OF wf_lex_prod [OF wf_less_than wf_less_than]])
  case 1
  show ?case
  proof (cases "quiet < 2")
    case False
    then show ?thesis by (subst drain_reads.simps) simp
  next
    case True
    obtain got k1 where got: "sk_read sk fd k = (got, k1)" by (cases "sk_read sk fd k")
    show ?thesis
    proof (cases "got \<noteq> None \<and> got \<noteq> Some []")
      case fed: True
      then have "left k1 < left k" using more got by (cases got) auto
      then have "\<exists>r. drain_reads lib sk fd 0 ys k1 = Some r" for ys by (intro 1) simp
      then show ?thesis using True got fed by (subst drain_reads.simps) simp
    next
      case idle: False
      obtain n k2 where n: "sk_poll sk fd 50 k1 = (n, k2)" by (cases "sk_poll sk fd 50 k1")
      have "n \<le> 0" "left k2 \<le> left k" using none [OF got] idle n by auto
      moreover from this have "\<exists>r. drain_reads lib sk fd (quiet + 1) xt k2 = Some r"
        using True by (intro 1) auto
      ultimately show ?thesis using True got idle n by (subst drain_reads.simps) auto
    qed
  qed
qed

end
