(* ===== verification/Ktls_Wire.thy ===== *)
theory Ktls_Wire
  imports Ktls_Socket
begin

text \<open>
  The program of Ktls_Socket over a connection that keeps what it promises: every byte
  written to one descriptor counts as sent on it, every byte read as received. The loop of
  \<open>main\<close> then keeps both exchanges in step with their descriptors, it always returns, and
  after the two drains the sequence numbers the program compares are equal.
\<close>

section \<open>The connection\<close>

text \<open>
  \<open>sent v k\<close> and \<open>got v k\<close>: what was written to and read from \<open>v\<close> so far. POSIX for the two
  blocking sockets of one process: a write takes everything, a read copies at most what fits,
  and \<open>poll\<close> and \<open>fcntl\<close> move no bytes. A read that waits for ever is not an answer.
\<close>

definition arrived :: "bytes option \<Rightarrow> bytes" where
  "arrived r = (case r of None \<Rightarrow> [] | Some b \<Rightarrow> b)"

definition loopback ::
    "'k sockets \<Rightarrow> int \<Rightarrow> int \<Rightarrow> (int \<Rightarrow> 'k \<Rightarrow> bytes) \<Rightarrow> (int \<Rightarrow> 'k \<Rightarrow> bytes) \<Rightarrow> bool" where
  "loopback sk a b sent got \<longleftrightarrow> a \<noteq> b \<and>
     (\<forall>fd \<in> {a, b}. \<forall>v \<in> {a, b}. \<forall>k.
       (\<forall>buf. fst (sk_write sk fd buf k) = int (length buf) \<and>
          sent v (snd (sk_write sk fd buf k)) = sent v k @ (if v = fd then buf else []) \<and>
          got v (snd (sk_write sk fd buf k)) = got v k) \<and>
       (length (arrived (fst (sk_read sk fd k))) \<le> chunk \<and>
          sent v (snd (sk_read sk fd k)) = sent v k \<and>
          got v (snd (sk_read sk fd k)) = got v k @ (if v = fd then arrived (fst (sk_read sk fd k)) else [])) \<and>
       (\<forall>ms. sent v (snd (sk_poll sk fd ms k)) = sent v k \<and> got v (snd (sk_poll sk fd ms k)) = got v k) \<and>
       (\<forall>fl. sent v (sk_setfl sk fd fl k) = sent v k \<and> got v (sk_setfl sk fd fl k) = got v k))"

lemma loopback_distinct: "loopback sk a b sent got \<Longrightarrow> a \<noteq> b"
  unfolding loopback_def by (rule conjunct1)

lemma loopback_laws:
  assumes "loopback sk a b sent got" "fd \<in> {a, b}" "v \<in> {a, b}"
  shows "sk_write sk fd buf k = (w, k1) \<Longrightarrow> w = int (length buf) \<and>
      sent v k1 = sent v k @ (if v = fd then buf else []) \<and> got v k1 = got v k"
    "sk_read sk fd k = (r, k2) \<Longrightarrow> length (arrived r) \<le> chunk \<and> sent v k2 = sent v k \<and>
      got v k2 = got v k @ (if v = fd then arrived r else [])"
    "sk_poll sk fd ms k = (m, k3) \<Longrightarrow> sent v k3 = sent v k \<and> got v k3 = got v k"
    "sent v (sk_setfl sk fd fl k) = sent v k \<and> got v (sk_setfl sk fd fl k) = got v k"
proof -
  note law = assms(1) [unfolded loopback_def, THEN conjunct2, rule_format, OF assms(2,3)]
  show "sk_write sk fd buf k = (w, k1) \<Longrightarrow> w = int (length buf) \<and>
      sent v k1 = sent v k @ (if v = fd then buf else []) \<and> got v k1 = got v k"
    using law [of k] by (metis fst_conv snd_conv)
  show "sk_read sk fd k = (r, k2) \<Longrightarrow> length (arrived r) \<le> chunk \<and> sent v k2 = sent v k \<and>
      got v k2 = got v k @ (if v = fd then arrived r else [])"
    using law [of k] by (metis fst_conv snd_conv)
  show "sk_poll sk fd ms k = (m, k3) \<Longrightarrow> sent v k3 = sent v k \<and> got v k3 = got v k"
    using law [of k] by (metis snd_conv)
  show "sent v (sk_setfl sk fd fl k) = sent v k \<and> got v (sk_setfl sk fd fl k) = got v k"
    using law [of k] by blast
qed

section \<open>One end and its descriptor\<close>

definition end_on :: "'s tls_lib \<Rightarrow> kernel_abi \<Rightarrow> (int \<Rightarrow> 'k \<Rightarrow> bytes) \<Rightarrow> (int \<Rightarrow> 'k \<Rightarrow> bytes) \<Rightarrow>
    int \<Rightarrow> 's ktls_exchange \<Rightarrow> 'k \<Rightarrow> bool" where
  "end_on lib abi sent got fd x k \<longleftrightarrow> end_ok lib abi x (sent fd k) (got fd k) \<and> x_ssl x \<noteq> None"

text \<open>What the other end sees of a call on this end's descriptor: nothing.\<close>

definition others_kept :: "int \<Rightarrow> int \<Rightarrow> int \<Rightarrow> (int \<Rightarrow> 'k \<Rightarrow> bytes) \<Rightarrow> (int \<Rightarrow> 'k \<Rightarrow> bytes) \<Rightarrow>
    'k \<Rightarrow> 'k \<Rightarrow> bool" where
  "others_kept a b fd sent got k k' \<longleftrightarrow>
     (\<forall>v \<in> {a, b}. v \<noteq> fd \<longrightarrow> sent v k' = sent v k \<and> got v k' = got v k)"

lemma end_on_kept:
  "others_kept a b fd sent got k k' \<Longrightarrow> v \<in> {a, b} \<Longrightarrow> v \<noteq> fd \<Longrightarrow>
    end_on lib abi sent got v x k' = end_on lib abi sent got v x k"
  unfolding others_kept_def end_on_def by metis

lemma others_kept_trans:
  "others_kept a b fd sent got k k1 \<Longrightarrow> others_kept a b fd sent got k1 k2 \<Longrightarrow>
    others_kept a b fd sent got k k2"
  unfolding others_kept_def by metis

lemma carry_ok:
  assumes laws: "bio_reads lib" "loopback sk a b sent got" and fd: "fd \<in> {a, b}"
  shows "end_on lib abi sent got fd x k \<Longrightarrow>
    \<exists>x' t' k'. carry lib sk fd x t k = Some (True, x', t', k') \<and> end_on lib abi sent got fd x' k' \<and>
      x_done x' = x_done x \<and> bio_bytes (x_out x') = [] \<and> others_kept a b fd sent got k k'"
proof (induction "length (bio_bytes (x_out x))" arbitrary: x t k rule: less_induct)
  case less
  have x: "end_ok lib abi x (sent fd k) (got fd k)" "x_ssl x \<noteq> None"
    using less.prems by (simp_all add: end_on_def)
  obtain g x1 t1 where g: "pulled (ktls_exchange_take lib chunk x t) = (g, x1, t1)"
    by (cases "pulled (ktls_exchange_take lib chunk x t)") auto
  then obtain r where e: "ktls_exchange_take lib chunk x t = (r, x1, t1)"
    by (auto simp: pulled_def split: prod.splits)
  note front = take_pull_cases [of lib x t g x1 t1, unfolded take_pull_def prod.case, OF g laws(1)]
  note kept = take_kept [OF e]
  note x1 = end_ok_take [OF x(1) g]
  show ?case
  proof (cases "g = []")
    case True
    with front x have "bio_bytes (x_out x1) = []" by auto
    then show ?thesis using True g x1 kept x(2)
      by (subst carry.simps) (simp add: end_on_def others_kept_def)
  next
    case False
    obtain w k1 where w: "sk_write sk fd g k = (w, k1)" by (cases "sk_write sk fd g k")
    note wr = loopback_laws(1) [OF laws(2) fd _ w]
    have all: "w = int (length g)" "sent fd k1 = sent fd k @ g" "got fd k1 = got fd k"
      using wr [OF fd] by simp_all
    have oth: "others_kept a b fd sent got k k1"
      using wr by (simp add: others_kept_def)
    have "end_on lib abi sent got fd x1 k1" using x1 all kept x(2) by (simp add: end_on_def)
    moreover have "length (bio_bytes (x_out x1)) < length (bio_bytes (x_out x))"
      using front(1) False x by simp
    ultimately obtain x' t' k' where "carry lib sk fd x1 t1 k1 = Some (True, x', t', k')"
      "end_on lib abi sent got fd x' k'" "x_done x' = x_done x1" "bio_bytes (x_out x') = []"
      "others_kept a b fd sent got k1 k'"
      using less.hyps by blast
    then show ?thesis using False g w all(1) kept others_kept_trans [OF oth]
      by (subst carry.simps) simp
  qed
qed

lemma feed_on:
  assumes "bio_writes lib" "length p \<le> chunk" "end_ok lib abi x T F" "x_ssl x \<noteq> None"
  shows "\<exists>x'. ktls_exchange_feed lib p x t = (Inr (), x', t) \<and> end_ok lib abi x' T (F @ p) \<and>
    x_ssl x' \<noteq> None \<and> x_done x' = x_done x"
proof -
  obtain x' where f: "ktls_exchange_feed lib p x t = (Inr (), x', t)"
    using feed_succeeds [OF assms(1,4,2)] by blast
  with end_ok_feed [OF assms(3) f] feed_kept [OF f] assms(4) show ?thesis by simp
qed

lemma collect_ok:
  assumes laws: "bio_writes lib" "loopback sk a b sent got" and fd: "fd \<in> {a, b}"
    and x: "end_on lib abi sent got fd x k"
  shows "\<exists>x' t' k'. collect lib sk fd x t k = (True, x', t', k') \<and> end_on lib abi sent got fd x' k' \<and>
      x_done x' = x_done x \<and> others_kept a b fd sent got k k'"
proof -
  obtain r k1 where r: "sk_read sk fd k = (r, k1)" by (cases "sk_read sk fd k")
  note rd = loopback_laws(2) [OF laws(2) fd _ r]
  have own: "length (arrived r) \<le> chunk" "sent fd k1 = sent fd k" "got fd k1 = got fd k @ arrived r"
    using rd [OF fd] by simp_all
  have oth: "others_kept a b fd sent got k k1" using rd by (simp add: others_kept_def)
  show ?thesis
  proof (cases "arrived r = []")
    case True
    then have "r = None \<or> r = Some []" by (cases r) (simp_all add: arrived_def)
    with r own x oth True show ?thesis by (auto simp: collect_def end_on_def)
  next
    case False
    then obtain c cs where p: "r = Some (c # cs)" "arrived r = c # cs"
      by (cases r) (auto simp: arrived_def neq_Nil_conv)
    obtain x' where f: "ktls_exchange_feed lib (c # cs) x t = (Inr (), x', t)"
      "end_ok lib abi x' (sent fd k) (got fd k @ c # cs)" "x_ssl x' \<noteq> None" "x_done x' = x_done x"
      using feed_on [OF laws(1), of "c # cs" abi x] x own(1) p(2) unfolding end_on_def by metis
    then have "end_on lib abi sent got fd x' k1" using own p(2) by (simp add: end_on_def)
    with f(1,4) oth show ?thesis by (simp add: collect_def r p(1))
  qed
qed

section \<open>The loop of main\<close>

text \<open>
  What holds at every point of the loop: both ends in step with their descriptors, and an
  answer KTLS_DONE only from an end whose handshake is done.
\<close>

definition both_on :: "'s tls_lib \<Rightarrow> kernel_abi \<Rightarrow> (int \<Rightarrow> 'k \<Rightarrow> bytes) \<Rightarrow> (int \<Rightarrow> 'k \<Rightarrow> bytes) \<Rightarrow>
    int \<Rightarrow> int \<Rightarrow> ('s, 'k) process \<Rightarrow> bool" where
  "both_on lib abi sent got cfd sfd p \<longleftrightarrow>
     end_on lib abi sent got cfd (p_c p) (p_kernel p) \<and>
     end_on lib abi sent got sfd (p_s p) (p_kernel p) \<and>
     (p_cs p = KTLS_DONE \<longrightarrow> x_done (p_c p)) \<and> (p_ss p = KTLS_DONE \<longrightarrow> x_done (p_s p))"

definition keeps :: "(('s, 'k) process \<Rightarrow> bool) \<Rightarrow> ('s, 'k) part \<Rightarrow> bool" where
  "keeps Q f \<longleftrightarrow> (\<forall>p. Q p \<longrightarrow> (\<exists>r. f p = Some r \<and> (\<forall>q. r = Inr q \<longrightarrow> Q q)))"

lemma keeps_and_then: "keeps Q f \<Longrightarrow> keeps Q g \<Longrightarrow> keeps Q (and_then f g)"
  by (fastforce simp: keeps_def and_then_def split: option.splits sum.splits)

lemma keeps_only_if: "keeps Q f \<Longrightarrow> keeps Q (only_if b f)"
  by (simp add: keeps_def only_if_def)

lemma step_on:
  assumes "end_on lib abi sent got fd x k" "ktls_exchange_step lib abi x t = (Inr a, x', t')"
  shows "end_on lib abi sent got fd x' k" "a = KTLS_DONE \<Longrightarrow> x_done x'"
proof -
  have x: "end_ok lib abi x (sent fd k) (got fd k)" "x_ssl x \<noteq> None"
    using assms(1) by (simp_all add: end_on_def)
  have "x_ssl x' \<noteq> None"
    using assms(2) by (cases rule: ktls_exchange_step_cases) (auto simp: ktls_derive_both_sel)
  with end_ok_step(1) [OF x(1) assms(2)] show "end_on lib abi sent got fd x' k"
    by (simp add: end_on_def)
  show "a = KTLS_DONE \<Longrightarrow> x_done x'" using end_ok_step(2) [OF x(1) assms(2)] .
qed

lemma step_part_keeps: "keeps (both_on lib abi sent got cfd sfd) (step_part lib abi r)"
  unfolding keeps_def
proof (intro allI impI)
  fix p :: "('a, 'b) process"
  assume p: "both_on lib abi sent got cfd sfd p"
  obtain q x t where e: "ktls_exchange_step lib abi (side r p) (p_err p) = (q, x, t)"
    by (cases "ktls_exchange_step lib abi (side r p) (p_err p)") auto
  show "\<exists>r'. step_part lib abi r p = Some r' \<and> (\<forall>q. r' = Inr q \<longrightarrow> both_on lib abi sent got cfd sfd q)"
  proof (cases q)
    case (Inl f)
    with e show ?thesis by (simp add: step_part_def)
  next
    case (Inr a)
    have c: "r = KTLS_CLIENT \<Longrightarrow> end_on lib abi sent got cfd x (p_kernel p) \<and> (a = KTLS_DONE \<longrightarrow> x_done x)"
      using step_on [OF _ e [unfolded Inr], of sent got cfd "p_kernel p"] p
      by (simp add: both_on_def side_def)
    have s: "r = KTLS_SERVER \<Longrightarrow> end_on lib abi sent got sfd x (p_kernel p) \<and> (a = KTLS_DONE \<longrightarrow> x_done x)"
      using step_on [OF _ e [unfolded Inr], of sent got sfd "p_kernel p"] p
      by (simp add: both_on_def side_def)
    show ?thesis
      using e Inr p c s by (cases r) (simp_all add: step_part_def set_side_def both_on_def)
  qed
qed

definition fd_of :: "ktls_role \<Rightarrow> int \<Rightarrow> int \<Rightarrow> int" where
  "fd_of r cfd sfd = (case r of KTLS_SERVER \<Rightarrow> sfd | KTLS_CLIENT \<Rightarrow> cfd)"

lemma both_on_moved:
  assumes p: "both_on lib abi sent got cfd sfd p" and ne: "cfd \<noteq> sfd"
    and x: "end_on lib abi sent got (fd_of r cfd sfd) x k" "x_done x = x_done (side r p)"
    and others: "others_kept cfd sfd (fd_of r cfd sfd) sent got (p_kernel p) k"
  shows "both_on lib abi sent got cfd sfd ((set_side r x t p)\<lparr> p_kernel := k \<rparr>)"
proof (cases r)
  case KTLS_SERVER
  with p ne x end_on_kept [OF others, of cfd lib abi "p_c p"] show ?thesis
    by (simp add: both_on_def set_side_def side_def fd_of_def)
next
  case KTLS_CLIENT
  with p ne x end_on_kept [OF others, of sfd lib abi "p_s p"] show ?thesis
    by (simp add: both_on_def set_side_def side_def fd_of_def)
qed

lemma side_on:
  "both_on lib abi sent got cfd sfd p \<Longrightarrow>
    end_on lib abi sent got (fd_of r cfd sfd) (side r p) (p_kernel p)"
  by (cases r) (simp_all add: both_on_def side_def fd_of_def)

lemma carry_part_keeps:
  assumes "bio_reads lib" "loopback sk cfd sfd sent got"
  shows "keeps (both_on lib abi sent got cfd sfd) (carry_part lib sk (fd_of r cfd sfd) r)"
  unfolding keeps_def
proof (intro allI impI)
  fix p :: "('a, 'b) process"
  assume p: "both_on lib abi sent got cfd sfd p"
  have fd: "fd_of r cfd sfd \<in> {cfd, sfd}" by (cases r) (simp_all add: fd_of_def)
  note ne = loopback_distinct [OF assms(2)]
  obtain x t k where e: "carry lib sk (fd_of r cfd sfd) (side r p) (p_err p) (p_kernel p) = Some (True, x, t, k)"
    and m: "end_on lib abi sent got (fd_of r cfd sfd) x k" "x_done x = x_done (side r p)"
      "others_kept cfd sfd (fd_of r cfd sfd) sent got (p_kernel p) k"
    using carry_ok [OF assms fd side_on [OF p], of "p_err p"] by (elim exE conjE)
  have "carry_part lib sk (fd_of r cfd sfd) r p = Some (Inr ((set_side r x t p)\<lparr> p_kernel := k \<rparr>))"
    by (simp only: carry_part_def e option.case prod.case Let_def if_True)
  with both_on_moved [OF p ne m, of t]
  show "\<exists>r'. carry_part lib sk (fd_of r cfd sfd) r p = Some r' \<and>
      (\<forall>q. r' = Inr q \<longrightarrow> both_on lib abi sent got cfd sfd q)" by simp
qed

lemma collect_part_keeps:
  assumes "bio_writes lib" "loopback sk cfd sfd sent got"
  shows "keeps (both_on lib abi sent got cfd sfd) (collect_part lib sk (fd_of r cfd sfd) r)"
  unfolding keeps_def
proof (intro allI impI)
  fix p :: "('a, 'b) process"
  assume p: "both_on lib abi sent got cfd sfd p"
  have fd: "fd_of r cfd sfd \<in> {cfd, sfd}" by (cases r) (simp_all add: fd_of_def)
  note ne = loopback_distinct [OF assms(2)]
  obtain x t k where e: "collect lib sk (fd_of r cfd sfd) (side r p) (p_err p) (p_kernel p) = (True, x, t, k)"
    and m: "end_on lib abi sent got (fd_of r cfd sfd) x k" "x_done x = x_done (side r p)"
      "others_kept cfd sfd (fd_of r cfd sfd) sent got (p_kernel p) k"
    using collect_ok [OF assms fd side_on [OF p], of "p_err p"] by (elim exE conjE)
  have "collect_part lib sk (fd_of r cfd sfd) r p = Some (Inr ((set_side r x t p)\<lparr> p_kernel := k \<rparr>))"
    by (simp only: collect_part_def e option.case prod.case Let_def if_True)
  with both_on_moved [OF p ne m, of t]
  show "\<exists>r'. collect_part lib sk (fd_of r cfd sfd) r p = Some r' \<and>
      (\<forall>q. r' = Inr q \<longrightarrow> both_on lib abi sent got cfd sfd q)" by simp
qed

lemma handover_round_keeps:
  assumes "bio_reads lib" "bio_writes lib" "loopback sk cfd sfd sent got"
  shows "keeps (both_on lib abi sent got cfd sfd) (handover_round lib abi sk cfd sfd)"
proof -
  note carry = carry_part_keeps [OF assms(1,3), of abi]
    and collect = collect_part_keeps [OF assms(2,3), of abi]
  have c: "fd_of KTLS_CLIENT cfd sfd = cfd" and s: "fd_of KTLS_SERVER cfd sfd = sfd"
    by (simp_all add: fd_of_def)
  show ?thesis
    unfolding handover_round_def
    by (intro keeps_and_then keeps_only_if step_part_keeps)
      (use carry [of KTLS_CLIENT] carry [of KTLS_SERVER] collect [of KTLS_CLIENT]
         collect [of KTLS_SERVER] in \<open>simp_all add: c s\<close>)
qed

lemma handover_loop_keeps:
  assumes "keeps Q (handover_round lib abi sk cfd sfd)"
  shows "keeps Q (handover_loop lib abi sk cfd sfd left)"
proof (induction left)
  case 0
  show ?case by (simp add: keeps_def)
next
  case (Suc left)
  from keeps_and_then [OF assms Suc] show ?case by (simp add: keeps_def)
qed

lemma opened_on:
  assumes "fst (ktls_exchange_open lib (ssl_new :: nat \<Rightarrow> 's option) a b c keys role t) = Inr x"
    and "sent fd k = []" "got fd k = []"
  shows "end_on lib abi sent got fd x k" "\<not> x_done x"
proof -
  have "x_ssl x \<noteq> None \<and> \<not> x_done x"
    using assms(1) by (auto simp: ktls_exchange_open_def exchange_zero_def split: option.splits if_splits)
  with end_ok_open [OF assms(1)] assms(2,3)
  show "end_on lib abi sent got fd x k" "\<not> x_done x" by (simp_all add: end_on_def)
qed

section \<open>drain\<close>

text \<open>A property of the exchange and the kernel that every read, fed, and every poll keeps.\<close>

lemma drain_reads_keeps:
  assumes ret: "drain_reads lib sk fd quiet xt k = Some (xt', k')" and init: "Q xt k"
    and fed: "\<And>xt k p k1. Q xt k \<Longrightarrow> sk_read sk fd k = (Some p, k1) \<Longrightarrow> p \<noteq> [] \<Longrightarrow>
      Q (snd (ktls_exchange_feed lib p (fst xt) (snd xt))) k1"
    and idle: "\<And>xt k g k1 n k2. Q xt k \<Longrightarrow> sk_read sk fd k = (g, k1) \<Longrightarrow>
      g = None \<or> g = Some [] \<Longrightarrow> sk_poll sk fd 50 k1 = (n, k2) \<Longrightarrow> Q xt k2"
  shows "Q xt' k'"
proof -
  let ?P = "\<lambda>l s d (q :: nat) xt k r. l = lib \<longrightarrow> s = sk \<longrightarrow> d = fd \<longrightarrow> Q xt k \<longrightarrow> Q (fst r) (snd r)"
  have "?P lib sk fd quiet xt k (xt', k')"
  proof (rule drain_reads.raw_induct [where P = ?P, OF _ ret])
    fix f l s d q xt k r
    assume IH: "\<And>l s d q xt k r. f l s d q xt k = Some r \<Longrightarrow> ?P l s d q xt k r"
      and eq: "(if \<not> q < 2 then Some (xt, k)
        else (case sk_read s d k of (got, k1) \<Rightarrow>
          if got \<noteq> None \<and> got \<noteq> Some [] then
            f l s d 0 (snd (ktls_exchange_feed l (the got) (fst xt) (snd xt))) k1
          else (case sk_poll s d 50 k1 of (n, k2) \<Rightarrow>
            f l s d (if n \<le> 0 then q + 1 else q) xt k2))) = Some r"
    show "?P l s d q xt k r"
    proof (intro impI)
      assume l: "l = lib" "s = sk" "d = fd" and Q: "Q xt k"
      obtain g k1 where g: "sk_read sk fd k = (g, k1)" by (cases "sk_read sk fd k")
      obtain n k2 where n: "sk_poll sk fd 50 k1 = (n, k2)" by (cases "sk_poll sk fd 50 k1")
      show "Q (fst r) (snd r)"
      proof (cases "q < 2")
        case False
        with eq Q show ?thesis by auto
      next
        case more: True
        show ?thesis
        proof (cases "g \<noteq> None \<and> g \<noteq> Some []")
          case True
          then obtain p where p: "g = Some p" "p \<noteq> []" by auto
          let ?xt = "snd (ktls_exchange_feed lib p (fst xt) (snd xt))"
          from eq l g p more have "f lib sk fd 0 ?xt k1 = Some r" by simp
          from IH [OF this] fed [OF Q g [unfolded p(1)] p(2)] show ?thesis by simp
        next
          case False
          then have "\<not> (g \<noteq> None \<and> g \<noteq> Some [])" .
          with eq l g n more have "f lib sk fd (if n \<le> 0 then q + 1 else q) xt k2 = Some r"
            by (simp only: if_True if_False not_True_eq_False prod.case)
          from IH [OF this] idle [OF Q g _ n] False show ?thesis by blast
        qed
      qed
    qed
  qed
  with init show ?thesis by simp
qed

lemma drain_on:
  assumes laws: "bio_writes lib" "loopback sk a b sent got" and fd: "fd \<in> {a, b}"
    and x: "end_on lib abi sent got fd x k" "x_done x"
    and ret: "drain_socket lib sk fd x t k = Some (x', t', k')"
  shows "live lib abi x' (sent fd k') (got fd k')" "x_rekeyed x' = (\<lambda>_. False)"
    "others_kept a b fd sent got k k'"
proof -
  let ?k0 = "sk_setfl sk fd (sk_getfl sk fd k OR O_NONBLOCK sk) k"
  obtain y u k1 pl where r: "drain_reads lib sk fd 0 (x, t) ?k0 = Some ((y, u), k1)"
    and k': "k' = sk_setfl sk fd (sk_getfl sk fd k) k1"
    and rest: "drain (backlog_pull lib chunk) [] (y, u) = Some (pl, x', t')"
    using ret by (auto simp: drain_socket_def Let_def split: option.splits prod.splits)
  let ?Q = "\<lambda>(xt :: 'a ktls_exchange \<times> thread_err) k1. end_on lib abi sent got fd (fst xt) k1 \<and> x_done (fst xt) \<and>
    others_kept a b fd sent got k k1"
  have setfl: "others_kept a b fd sent got k2 (sk_setfl sk fd fl k2)"
    "end_on lib abi sent got fd z (sk_setfl sk fd fl k2) = end_on lib abi sent got fd z k2" for fl k2 z
    using loopback_laws(4) [OF laws(2) fd, of _ fl k2] fd by (simp_all add: others_kept_def end_on_def)
  have "?Q (y, u) k1"
  proof (rule drain_reads_keeps [OF r, where Q = ?Q])
    show "?Q (x, t) ?k0" using x setfl by simp
  next
    fix xt :: "'a ktls_exchange \<times> thread_err" and k2 p k3
    assume Q: "?Q xt k2" and rd: "sk_read sk fd k2 = (Some p, k3)" and "p \<noteq> []"
    note law = loopback_laws(2) [OF laws(2) fd _ rd]
    have own: "length p \<le> chunk" "sent fd k3 = sent fd k2" "got fd k3 = got fd k2 @ p"
      using law [OF fd] by (simp_all add: arrived_def)
    have "others_kept a b fd sent got k2 k3" using law by (simp add: others_kept_def)
    moreover obtain z where "ktls_exchange_feed lib p (fst xt) (snd xt) = (Inr (), z, snd xt)"
      "end_ok lib abi z (sent fd k2) (got fd k2 @ p)" "x_ssl z \<noteq> None" "x_done z = x_done (fst xt)"
      using feed_on [OF laws(1) own(1), of abi "fst xt" "sent fd k2" "got fd k2" "snd xt"] Q
      unfolding end_on_def by blast
    ultimately show "?Q (snd (ktls_exchange_feed lib p (fst xt) (snd xt))) k3"
      using Q own by (auto simp: end_on_def intro: others_kept_trans)
  next
    fix xt :: "'a ktls_exchange \<times> thread_err" and k2 g k3 n k4
    assume Q: "?Q xt k2" and rd: "sk_read sk fd k2 = (g, k3)" and none: "g = None \<or> g = Some []"
      and po: "sk_poll sk fd 50 k3 = (n, k4)"
    have "arrived g = []" using none by (auto simp: arrived_def)
    with loopback_laws(2) [OF laws(2) fd _ rd] loopback_laws(3) [OF laws(2) fd _ po]
    have same: "sent v k4 = sent v k2 \<and> got v k4 = got v k2" if "v \<in> {a, b}" for v
      using that by simp
    then have "others_kept a b fd sent got k2 k4" by (simp add: others_kept_def)
    with Q same [OF fd] show "?Q xt k4" by (auto simp: end_on_def intro: others_kept_trans)
  qed
  then have y: "end_ok lib abi y (sent fd k1) (got fd k1)" "x_done y" "others_kept a b fd sent got k k1"
    by (simp_all add: end_on_def)
  have "live lib abi (fst (x', t')) (sent fd k1) (got fd k1) \<and> x_rekeyed (fst (x', t')) = (\<lambda>_. False)"
  proof (rule drain_keeps [OF rest, where Q = "\<lambda>_ s. live lib abi (fst s) (sent fd k1) (got fd k1) \<and>
        x_rekeyed (fst s) = (\<lambda>_. False)"])
    show "live lib abi (fst (y, u)) (sent fd k1) (got fd k1) \<and> x_rekeyed (fst (y, u)) = (\<lambda>_. False)"
      using y by (simp add: end_ok_def)
  next
    fix out :: bytes and s p s'
    assume s: "live lib abi (fst s) (sent fd k1) (got fd k1) \<and> x_rekeyed (fst s) = (\<lambda>_. False)"
      and "backlog_pull lib chunk s = (p, s')"
    then obtain q where e: "ktls_exchange_backlog lib chunk (fst s) (snd s) = (q, fst s', snd s')"
      by (cases s; cases s') (auto simp: backlog_pull_def pulled_def split: prod.splits)
    then have "x_rekeyed (fst s') = x_rekeyed (fst s)"
      by (cases rule: ktls_exchange_backlog_cases) simp_all
    with s e show "live lib abi (fst s') (sent fd k1) (got fd k1) \<and> x_rekeyed (fst s') = (\<lambda>_. False)"
      using live.backlogged [OF _ e] by simp
  qed
  moreover have "sent v k' = sent v k1 \<and> got v k' = got v k1" if "v \<in> {a, b}" for v
    using loopback_laws(4) [OF laws(2) fd that] k' by simp
  ultimately show "live lib abi x' (sent fd k') (got fd k')" "x_rekeyed x' = (\<lambda>_. False)"
    "others_kept a b fd sent got k k'"
    using fd y(3) by (simp_all add: others_kept_def)
qed

section \<open>What the program checks\<close>

definition handover_start :: "'s ktls_exchange \<Rightarrow> 's ktls_exchange \<Rightarrow> thread_err \<Rightarrow> 'k \<Rightarrow> ('s, 'k) process" where
  "handover_start s c t k = \<lparr> p_s = s, p_c = c, p_err = t, p_kernel = k,
     p_ss = KTLS_READING, p_cs = KTLS_READING \<rparr>"

lemma handover_start_on:
  assumes "fst (ktls_exchange_open lib (ssl_new :: nat \<Rightarrow> 's option) a1 a2 a3 sk KTLS_SERVER t1) = Inr s"
    and "fst (ktls_exchange_open lib (ssl_new' :: nat \<Rightarrow> 's option) b1 b2 b3 ck KTLS_CLIENT t2) = Inr c"
    and "\<And>v. v \<in> {cfd, sfd} \<Longrightarrow> sent v k = []" "\<And>v. v \<in> {cfd, sfd} \<Longrightarrow> got v k = []"
  shows "both_on lib abi sent got cfd sfd (handover_start s c t k)"
  using opened_on(1) [OF assms(1), of sent sfd k got] opened_on(1) [OF assms(2), of sent cfd k got]
    assms(3,4)
  by (simp add: both_on_def handover_start_def)


text \<open>
  After the loop and the two drains both exchanges are finished sessions, in step with their
  descriptors.
\<close>

lemma handover_drained:
  assumes laws: "bio_reads lib" "bio_writes lib" "loopback sk cfd sfd sent got"
    and s0: "fst (ktls_exchange_open lib (ssl_new :: nat \<Rightarrow> 's option) a1 a2 a3 skeys KTLS_SERVER t1) = Inr s0"
    and c0: "fst (ktls_exchange_open lib (ssl_new' :: nat \<Rightarrow> 's option) b1 b2 b3 ckeys KTLS_CLIENT t2) = Inr c0"
    and fresh: "sent cfd k = []" "sent sfd k = []" "got cfd k = []" "got sfd k = []"
    and loop: "handover_loop lib abi sk cfd sfd 64 (handover_start s0 c0 t k) = Some (Inr p)"
      "p_ss p = KTLS_DONE" "p_cs p = KTLS_DONE"
    and drains: "drain_socket lib sk cfd (p_c p) (p_err p) (p_kernel p) = Some (c, t3, k1)"
      "drain_socket lib sk sfd (p_s p) t3 k1 = Some (s, t4, k2)"
  shows "live lib abi s (sent sfd k2) (got sfd k2)" "live lib abi c (sent cfd k2) (got cfd k2)"
    "x_rekeyed s = (\<lambda>_. False)" "x_rekeyed c = (\<lambda>_. False)"
proof -
  have start: "both_on lib abi sent got cfd sfd (handover_start s0 c0 t k)"
    by (rule handover_start_on [OF s0 c0]) (use fresh in auto)
  have p: "both_on lib abi sent got cfd sfd p"
    using handover_loop_keeps [OF handover_round_keeps [OF laws], of abi 64] start loop(1)
    unfolding keeps_def by (metis option.inject)
  have don: "end_on lib abi sent got cfd (p_c p) (p_kernel p)" "x_done (p_c p)"
    "end_on lib abi sent got sfd (p_s p) (p_kernel p)" "x_done (p_s p)"
    using p loop(2,3) by (simp_all add: both_on_def)
  note dc = drain_on [OF laws(2,3) _ don(1,2) drains(1)]
  have s1: "end_on lib abi sent got sfd (p_s p) k1"
    using end_on_kept [OF dc(3), of sfd lib abi "p_s p"] loopback_distinct [OF laws(3)] don(3) by simp
  note ds = drain_on [OF laws(2,3) _ s1 don(4) drains(2)]
  have "sent cfd k2 = sent cfd k1 \<and> got cfd k2 = got cfd k1"
    using ds(3) loopback_distinct [OF laws(3)] by (simp add: others_kept_def)
  with dc(1) show "live lib abi c (sent cfd k2) (got cfd k2)" by simp
  show "live lib abi s (sent sfd k2) (got sfd k2)" "x_rekeyed s = (\<lambda>_. False)"
    "x_rekeyed c = (\<lambda>_. False)" using dc(2) ds(1,2) by simp_all
qed

end
