(* ===== verification/Ktls_Plain.thy ===== *)
theory Ktls_Plain
  imports Ktls_Wire Ktls_Checks
begin

text \<open>
  The end of src/examples/ktls_handover.c and with it the whole of \<open>main\<close>: the drains, the
  comparison of the sequences, \<open>ktls_offload\<close> on both descriptors, and then plain writes that
  the kernel carries as TLS records. The kernel's record layer is a parameter; what is proved
  is that the keys the library hands over are the ones with which it works in both directions.
\<close>

section \<open>A kernel with the tls ULP\<close>

text \<open>
  What \<open>setsockopt\<close> answers in a state, the state after the calls that were accepted, and
  \<open>recvmsg\<close> with room for so many bytes: its result, the bytes in the buffer and the control
  messages.
\<close>

record 'k record_layer =
  rl_setsockopt :: "'k \<Rightarrow> kernel"
  rl_accepted :: "syscall list \<Rightarrow> 'k \<Rightarrow> 'k"
  rl_recvmsg :: "int \<Rightarrow> nat \<Rightarrow> 'k \<Rightarrow> (int \<times> bytes \<times> cmsg list) \<times> 'k"

text \<open>
  Whether \<open>ktls_initialized ()\<close>, and the two ends of \<open>tcp_pair\<close>.
\<close>

record handover_fds =
  ulp :: bool
  cfd :: int
  sfd :: int

section \<open>The end of main\<close>

definition crlf :: string where
  "crlf = [CHR 0x0D, CHR 0x0A]"

definition kHello :: bytes where
  "kHello = map of_char (''GET / HTTP/1.1'' @ crlf @ ''Host: proof'' @ crlf @ crlf)"

definition kBack :: bytes where
  "kBack = map of_char (''HTTP/1.1 200 OK'' @ crlf @ ''Content-Length: 0'' @ crlf @ crlf)"

text \<open>
  A plain write on one descriptor, the record read on the other into 512 bytes, and the three
  checks made of them. \<open>type\<close> is the variable \<open>read_a_record\<close> may leave as it was.
\<close>

definition write_then_read ::
    "kernel_abi \<Rightarrow> 'k sockets \<Rightarrow> 'k record_layer \<Rightarrow> int \<Rightarrow> int \<Rightarrow> bytes \<Rightarrow>
      string \<times> string \<times> string \<Rightarrow> ktls_record \<Rightarrow> 'k \<Rightarrow> checks \<times> ktls_record \<times> 'k" where
  "write_then_read abi sk rl wfd rfd text says type k =
     (case says of (written, arrives, kind) \<Rightarrow>
     (case sk_write sk wfd text k of (w, k1) \<Rightarrow>
     (case rl_recvmsg rl rfd 512 k1 of ((r, got, control), k2) \<Rightarrow>
     (case read_a_record abi r control of (n, t) \<Rightarrow>
        (let type' = (case t of None \<Rightarrow> type | Some found \<Rightarrow> found)
         in ([(written, w = int (length text)),
              (arrives, n = int (length text) \<and> take (nat n) got = text),
              (kind, type' = KTLS_RECORD_DATA)], type', k2))))))"

definition plain_checks ::
    "kernel_abi \<Rightarrow> handover_fds \<Rightarrow> 'k sockets \<Rightarrow> 'k record_layer \<Rightarrow> 'k \<Rightarrow> checks" where
  "plain_checks abi h sk rl k =
     (case write_then_read abi sk rl (cfd h) (sfd h) kHello
        (''a PLAIN write on the client socket'',
         ''arrives as itself on the server socket - encrypted by the kernel'',
         ''and recvmsg says which kind of record it was'') KTLS_RECORD_UNKNOWN k of (hello, type, k1) \<Rightarrow>
     (case write_then_read abi sk rl (sfd h) (cfd h) kBack
        (''and a plain write back'',
         ''arrives on the client - both directions are the kernel's now'',
         ''that one too'') type k1 of (back, type', k2) \<Rightarrow> hello @ back))"

definition offload_checks ::
    "'s tls_lib \<Rightarrow> kernel_abi \<Rightarrow> handover_fds \<Rightarrow> 'k record_layer \<Rightarrow> 's ktls_exchange \<Rightarrow>
      's ktls_exchange \<Rightarrow> thread_err \<Rightarrow> 'k \<Rightarrow> checks \<times> 'k" where
  "offload_checks lib abi h rl s c t k =
     (case ktls_offload lib abi (ulp h) (rl_setsockopt rl k) s (sfd h) t of (p, s1, t1, calls) \<Rightarrow>
     (let k1 = rl_accepted rl calls k
      in case ktls_offload lib abi (ulp h) (rl_setsockopt rl k1) c (cfd h) t1 of (q, c1, t2, calls') \<Rightarrow>
        ([(''the server's socket takes both keys'', \<not> isl p),
          (''the client's socket takes both keys'', \<not> isl q)], rl_accepted rl calls' k1)))"

definition any_fails :: "checks \<Rightarrow> bool" where
  "any_fails cs \<longleftrightarrow> (\<exists>c \<in> set cs. \<not> snd c)"

text \<open>
  \<open>main\<close> from the opened exchanges on: what was checked and the exit status. The four frees
  touch neither the descriptors nor the checks. \<open>None\<close> is a loop that does not end.
\<close>

definition handover_main ::
    "'s tls_lib \<Rightarrow> kernel_abi \<Rightarrow> handover_fds \<Rightarrow> 'k sockets \<Rightarrow> 'k record_layer \<Rightarrow>
      's ktls_exchange \<Rightarrow> 's ktls_exchange \<Rightarrow> thread_err \<Rightarrow> 'k \<Rightarrow> (checks \<times> int) option" where
  "handover_main lib abi h sk rl s0 c0 t k =
     (case handover_loop lib abi sk (cfd h) (sfd h) 64 (handover_start s0 c0 t k) of
        None \<Rightarrow> None
      | Some (Inl p) \<Rightarrow> Some ([], 1)
      | Some (Inr p) \<Rightarrow>
     (case drain_socket lib sk (cfd h) (p_c p) (p_err p) (p_kernel p) of
        None \<Rightarrow> None
      | Some (c, t1, k1) \<Rightarrow>
     (case drain_socket lib sk (sfd h) (p_s p) t1 k1 of
        None \<Rightarrow> None
      | Some (s, t2, k2) \<Rightarrow>
        (let first = [(''the exchange finishes over a real socket'', p_ss p = KTLS_DONE \<and> p_cs p = KTLS_DONE),
               (''both sides agree where the record sequence stands'',
                  ktls_record_sequence lib s KTLS_TX = ktls_record_sequence lib c KTLS_RX \<and>
                  ktls_record_sequence lib c KTLS_TX = ktls_record_sequence lib s KTLS_RX)]
         in if \<not> ulp h then Some (first, if any_fails first then 1 else 77)
            else (case offload_checks lib abi h rl s c t2 k2 of (offloads, k3) \<Rightarrow>
              (let cs = first @ offloads @ plain_checks abi h sk rl k3
               in Some (cs, if any_fails cs then 1 else 0)))))))"

section \<open>What the kernel promises\<close>

text \<open>
  The documented behaviour of kernel TLS between the two descriptors, over what a descriptor
  is keyed with in each direction. Setting a direction is accepted and keys that descriptor
  only. Where nothing is under way to \<open>q\<close> and \<open>q\<close> receives under the very blob (keys and
  record number) \<open>p\<close> sends under, a write is sealed in one record, and \<open>recvmsg\<close> on
  \<open>q\<close> opens it, with its type in a control message. The way back is not touched.
\<close>

type_synonym 'k keyed = "int \<Rightarrow> ktls_direction \<Rightarrow> 'k \<Rightarrow> ktls_info option"

definition both_ways :: "kernel_abi \<Rightarrow> int \<Rightarrow> ktls_info \<Rightarrow> nat \<Rightarrow> ktls_info \<Rightarrow> nat \<Rightarrow> syscall list" where
  "both_ways abi fd tx n rx m = [AttachUlp fd, SetTls fd (SOL_TLS abi) (TLS_TX abi) tx n,
     SetTls fd (SOL_TLS abi) (TLS_RX abi) rx m]"

definition takes_keys ::
    "kernel_abi \<Rightarrow> 'k record_layer \<Rightarrow> int \<Rightarrow> int \<Rightarrow> (int \<Rightarrow> 'k \<Rightarrow> bytes) \<Rightarrow> (int \<Rightarrow> 'k \<Rightarrow> bytes) \<Rightarrow>
      'k keyed \<Rightarrow> bool" where
  "takes_keys abi rl a b sent got keyed \<longleftrightarrow>
     (\<forall>fd \<in> {a, b}. \<forall>tx n rx m k. let calls = both_ways abi fd tx n rx m in
       (\<forall>c \<in> set calls. rl_setsockopt rl k c = 0) \<and>
       (\<forall>v \<in> {a, b}. sent v (rl_accepted rl calls k) = sent v k \<and> got v (rl_accepted rl calls k) = got v k \<and>
          keyed v KTLS_TX (rl_accepted rl calls k) = (if v = fd then Some tx else keyed v KTLS_TX k) \<and>
          keyed v KTLS_RX (rl_accepted rl calls k) = (if v = fd then Some rx else keyed v KTLS_RX k)))"

definition carries_records ::
    "kernel_abi \<Rightarrow> 'k sockets \<Rightarrow> 'k record_layer \<Rightarrow> int \<Rightarrow> int \<Rightarrow> (int \<Rightarrow> 'k \<Rightarrow> bytes) \<Rightarrow>
      (int \<Rightarrow> 'k \<Rightarrow> bytes) \<Rightarrow> 'k keyed \<Rightarrow> bool" where
  "carries_records abi sk rl a b sent got keyed \<longleftrightarrow>
     (\<forall>p \<in> {a, b}. \<forall>q \<in> {a, b}. \<forall>text cap i k.
        p \<noteq> q \<and> keyed p KTLS_TX k = Some i \<and> keyed q KTLS_RX k = Some i \<and> got q k = sent p k \<and>
        0 < length text \<and> length text \<le> cap \<and> cap \<le> chunk \<longrightarrow>
        (let (w, k1) = sk_write sk p text k; (r, k2) = rl_recvmsg rl q cap k1 in
           w = int (length text) \<and> r = (int (length text), text, [(SOL_TLS abi, TLS_GET_RECORD_TYPE abi, [23])]) \<and>
           keyed q KTLS_TX k2 = keyed q KTLS_TX k \<and> keyed p KTLS_RX k2 = keyed p KTLS_RX k \<and>
           sent q k2 = sent q k \<and> got p k2 = got p k))"

lemma carries_recordsD:
  assumes "carries_records abi sk rl a b sent got keyed" "p \<in> {a, b}" "q \<in> {a, b}" "p \<noteq> q"
    and "keyed p KTLS_TX k = Some i" "keyed q KTLS_RX k = Some i" "got q k = sent p k"
    and "0 < length text" "length text \<le> 512"
  obtains k1 k2 where "sk_write sk p text k = (int (length text), k1)"
    "rl_recvmsg rl q 512 k1 = ((int (length text), text, [(SOL_TLS abi, TLS_GET_RECORD_TYPE abi, [23])]), k2)"
    "keyed q KTLS_TX k2 = keyed q KTLS_TX k" "keyed p KTLS_RX k2 = keyed p KTLS_RX k"
    "sent q k2 = sent q k" "got p k2 = got p k"
proof -
  obtain w k1 where w: "sk_write sk p text k = (w, k1)" by (cases "sk_write sk p text k")
  obtain r k2 where r: "rl_recvmsg rl q 512 k1 = (r, k2)" by (cases "rl_recvmsg rl q 512 k1")
  have "(512 :: nat) \<le> chunk" by (simp add: chunk_def)
  with assms(1) [unfolded carries_records_def, rule_format, OF assms(2,3), of k i "text" 512] assms(4-9) w r that
  show ?thesis by simp
qed

section \<open>The checks pass\<close>

lemma write_then_read_passes:
  assumes "carries_records abi sk rl a b sent got keyed" "p \<in> {a, b}" "q \<in> {a, b}" "p \<noteq> q"
    and "keyed p KTLS_TX k = Some i" "keyed q KTLS_RX k = Some i" "got q k = sent p k"
    and "0 < length text" "length text \<le> 512"
  shows "\<exists>k'. write_then_read abi sk rl p q text (x, y, z) type k =
      ([(x, True), (y, True), (z, True)], KTLS_RECORD_DATA, k') \<and>
    keyed q KTLS_TX k' = keyed q KTLS_TX k \<and> keyed p KTLS_RX k' = keyed p KTLS_RX k \<and>
    sent q k' = sent q k \<and> got p k' = got p k"
proof -
  obtain k1 k2 where k: "sk_write sk p text k = (int (length text), k1)"
    "rl_recvmsg rl q 512 k1 = ((int (length text), text, [(SOL_TLS abi, TLS_GET_RECORD_TYPE abi, [23])]), k2)"
    and kept: "keyed q KTLS_TX k2 = keyed q KTLS_TX k" "keyed p KTLS_RX k2 = keyed p KTLS_RX k"
    "sent q k2 = sent q k" "got p k2 = got p k"
    by (rule carries_recordsD [OF assms])
  have "write_then_read abi sk rl p q text (x, y, z) type k =
      ([(x, True), (y, True), (z, True)], KTLS_RECORD_DATA, k2)"
    by (simp add: write_then_read_def k read_a_record_def ktls_record_type_def ktls_record_of_def)
  with kept show ?thesis by blast
qed

lemma texts_fit: "0 < length kHello" "length kHello \<le> 512" "0 < length kBack" "length kBack \<le> 512"
  by (simp_all add: kHello_def kBack_def crlf_def)

text \<open>
  An exchange that is ready hands both blobs to a kernel that takes them.
\<close>

lemma offload_hands_over:
  assumes x: "answers_ready lib x" "live lib abi x T F" and rx: "0 \<le> TLS_RX abi"
    and kern: "\<And>tx n rx m c. c \<in> set (both_ways abi fd tx n rx m) \<Longrightarrow> kern c = 0"
  shows "\<exists>tx rx n y x'. ktls_crypto_info lib x KTLS_TX t = (Inr (tx, n), y, t) \<and> but_info x y \<and>
    live lib abi y T F \<and> ktls_crypto_info lib y KTLS_RX t = (Inr (rx, n), x', t) \<and>
    ktls_offload lib abi True kern x fd t = (Inr (), x', t, both_ways abi fd tx n rx n)"
proof -
  let ?n = "info_size (x_cipher x)"
  obtain tx y where y: "ktls_crypto_info lib x KTLS_TX t = (Inr (tx, ?n), y, t)" "but_info x y"
    "live lib abi y T F"
    using reads_blob [OF x, of KTLS_TX t] by blast
  note sel = but_info_sel [OF y(2)]
  obtain rx x' where x': "ktls_crypto_info lib y KTLS_RX t = (Inr (rx, ?n), x', t)"
    using reads_blob [OF _ y(3), of KTLS_RX t] x(1) sel by auto
  have "kern c = 0" if "c \<in> set (both_ways abi fd tx ?n rx ?n)" for c using kern [OF that] .
  then have "ktls_offload lib abi True kern x fd t = (Inr (), x', t, both_ways abi fd tx ?n rx ?n)"
    using rx by (simp add: ktls_offload_def y(1) x' ktls_attach_ulp_def ktls_optname_def both_ways_def Let_def)
  with y x' show ?thesis by blast
qed

text \<open>The two offloads leave each end receiving under the blob the other sends under.\<close>

lemma offloads_match:
  assumes ends: "ends_agree lib abi s c S C" and quiet: "quiet_reads lib" and rx: "0 \<le> TLS_RX abi"
    and h: "ulp h" "sfd h \<noteq> cfd h" and law: "takes_keys abi rl (cfd h) (sfd h) sent got keyed"
  shows "\<exists>k' i j. offload_checks lib abi h rl s c t k =
      ([(''the server's socket takes both keys'', True), (''the client's socket takes both keys'', True)], k') \<and>
    keyed (sfd h) KTLS_TX k' = Some i \<and> keyed (cfd h) KTLS_RX k' = Some i \<and>
    keyed (cfd h) KTLS_TX k' = Some j \<and> keyed (sfd h) KTLS_RX k' = Some j \<and>
    (\<forall>v \<in> {cfd h, sfd h}. sent v k' = sent v k \<and> got v k' = got v k)"
proof -
  note e = ends [unfolded ends_agree_def]
  have own: "but_info x x" for x :: "'s ktls_exchange" by (simp add: but_info_def)
  have kern: "rl_setsockopt rl k c = 0" if "fd \<in> {cfd h, sfd h}" "c \<in> set (both_ways abi fd tx n rx m)" for fd tx n rx m k c
    using law that unfolding takes_keys_def Let_def by blast
  have keys: "sent v (rl_accepted rl (both_ways abi fd tx n rx m) k) = sent v k \<and>
      got v (rl_accepted rl (both_ways abi fd tx n rx m) k) = got v k \<and>
      keyed v KTLS_TX (rl_accepted rl (both_ways abi fd tx n rx m) k) = (if v = fd then Some tx else keyed v KTLS_TX k) \<and>
      keyed v KTLS_RX (rl_accepted rl (both_ways abi fd tx n rx m) k) = (if v = fd then Some rx else keyed v KTLS_RX k)"
    if "fd \<in> {cfd h, sfd h}" "v \<in> {cfd h, sfd h}" for fd tx n rx m v k
    using law that unfolding takes_keys_def Let_def by blast
  obtain a b n s1 s2 where s: "ktls_crypto_info lib s KTLS_TX t = (Inr (a, n), s1, t)" "but_info s s1"
      "live lib abi s1 S C" "ktls_crypto_info lib s1 KTLS_RX t = (Inr (b, n), s2, t)"
      "ktls_offload lib abi True (rl_setsockopt rl k) s (sfd h) t = (Inr (), s2, t, both_ways abi (sfd h) a n b n)"
    using offload_hands_over [of lib s abi S C "sfd h" "rl_setsockopt rl k" t] e rx kern [of "sfd h"] by auto
  let ?k1 = "rl_accepted rl (both_ways abi (sfd h) a n b n) k"
  obtain d f m c1 c2 where c: "ktls_crypto_info lib c KTLS_TX t = (Inr (d, m), c1, t)" "but_info c c1"
      "live lib abi c1 C S" "ktls_crypto_info lib c1 KTLS_RX t = (Inr (f, m), c2, t)"
      "ktls_offload lib abi True (rl_setsockopt rl ?k1) c (cfd h) t = (Inr (), c2, t, both_ways abi (cfd h) d m f m)"
    using offload_hands_over [of lib c abi C S "cfd h" "rl_setsockopt rl ?k1" t] e rx kern [of "cfd h"] by auto
  have "ends_agree lib abi s c1 S C" "ends_agree lib abi s1 c S C"
    using ends_agree_but_info [OF ends own c(2) _ c(3)] ends_agree_but_info [OF ends s(2) own s(3)] e
    by simp_all
  then have blobs: "a = f" "d = b"
    using ends_agree_blobs(1) [OF _ quiet s(1) c(4)] ends_agree_blobs(2) [OF _ quiet c(1) s(4)] by blast+
  let ?k2 = "rl_accepted rl (both_ways abi (cfd h) d m f m) ?k1"
  have "offload_checks lib abi h rl s c t k =
      ([(''the server's socket takes both keys'', True), (''the client's socket takes both keys'', True)], ?k2)"
    using h(1) by (simp add: offload_checks_def s(5) c(5) Let_def)
  moreover have "keyed (sfd h) KTLS_TX ?k2 = Some a" "keyed (cfd h) KTLS_RX ?k2 = Some a"
    "keyed (cfd h) KTLS_TX ?k2 = Some d" "keyed (sfd h) KTLS_RX ?k2 = Some d"
    "\<forall>v \<in> {cfd h, sfd h}. sent v ?k2 = sent v k \<and> got v ?k2 = got v k"
    using keys [of "sfd h" "sfd h" a n b n k] keys [of "sfd h" "cfd h" a n b n k]
      keys [of "cfd h" "sfd h" d m f m ?k1] keys [of "cfd h" "cfd h" d m f m ?k1] h(2) blobs by simp_all
  ultimately show ?thesis by blast
qed

lemma plain_checks_pass:
  assumes law: "carries_records abi sk rl (cfd h) (sfd h) sent got keyed"
    and h: "sfd h \<noteq> cfd h"
    and keys: "keyed (sfd h) KTLS_TX k = Some i" "keyed (cfd h) KTLS_RX k = Some i"
      "keyed (cfd h) KTLS_TX k = Some j" "keyed (sfd h) KTLS_RX k = Some j"
    and idle: "got (sfd h) k = sent (cfd h) k" "got (cfd h) k = sent (sfd h) k"
  shows "\<not> any_fails (plain_checks abi h sk rl k)"
proof -
  obtain k1 where k1: "write_then_read abi sk rl (cfd h) (sfd h) kHello
        (''a PLAIN write on the client socket'',
         ''arrives as itself on the server socket - encrypted by the kernel'',
         ''and recvmsg says which kind of record it was'') KTLS_RECORD_UNKNOWN k =
      ([(''a PLAIN write on the client socket'', True),
        (''arrives as itself on the server socket - encrypted by the kernel'', True),
        (''and recvmsg says which kind of record it was'', True)], KTLS_RECORD_DATA, k1)"
    and kept: "keyed (sfd h) KTLS_TX k1 = keyed (sfd h) KTLS_TX k" "keyed (cfd h) KTLS_RX k1 = keyed (cfd h) KTLS_RX k"
      "sent (sfd h) k1 = sent (sfd h) k" "got (cfd h) k1 = got (cfd h) k"
    using write_then_read_passes [OF law, of "cfd h" "sfd h" k j kHello] keys idle h texts_fit by fastforce
  obtain k2 where k2: "write_then_read abi sk rl (sfd h) (cfd h) kBack
        (''and a plain write back'', ''arrives on the client - both directions are the kernel's now'',
         ''that one too'') KTLS_RECORD_DATA k1 =
      ([(''and a plain write back'', True),
        (''arrives on the client - both directions are the kernel's now'', True),
        (''that one too'', True)], KTLS_RECORD_DATA, k2)"
    using write_then_read_passes [OF law, of "sfd h" "cfd h" k1 i kBack] keys idle kept h texts_fit by fastforce
  show ?thesis by (simp add: plain_checks_def k1 k2 any_fails_def)
qed

text \<open>
  The whole of the handover example: \<open>main\<close> exits with 0 and prints no FAIL. After the loop
  and the two drains, with everything written on either side read and decrypted on the other, the
  sequence numbers of the two sides agree; each socket takes both keys; what either
  socket then sends under is exactly what the other receives under, so that a plain write on the
  client arrives as itself on the server, as application data, and one on the server on
  the client.
\<close>

theorem handover_main_succeeds:
  assumes laws: "bio_reads lib" "bio_writes lib" "quiet_reads lib"
    and sockets: "loopback sk (cfd h) (sfd h) sent got"
    and kernel: "ulp h" "0 \<le> TLS_RX abi" "takes_keys abi rl (cfd h) (sfd h) sent got keyed"
      "carries_records abi sk rl (cfd h) (sfd h) sent got keyed"
    and s0: "fst (ktls_exchange_open lib (ssl_new :: nat \<Rightarrow> 's option) a1 a2 a3 skeys KTLS_SERVER t1) = Inr s0"
    and c0: "fst (ktls_exchange_open lib (ssl_new' :: nat \<Rightarrow> 's option) b1 b2 b3 ckeys KTLS_CLIENT t2) = Inr c0"
    and fresh: "sent (cfd h) k = []" "sent (sfd h) k = []" "got (cfd h) k = []" "got (sfd h) k = []"
    and loop: "handover_loop lib abi sk (cfd h) (sfd h) 64 (handover_start s0 c0 t k) = Some (Inr p)"
      "p_ss p = KTLS_DONE" "p_cs p = KTLS_DONE"
    and drains: "drain_socket lib sk (cfd h) (p_c p) (p_err p) (p_kernel p) = Some (c, t3, k1)"
      "drain_socket lib sk (sfd h) (p_s p) t3 k1 = Some (s, t4, k2)"
    and delivered: "got (cfd h) k2 = sent (sfd h) k2" "got (sfd h) k2 = sent (cfd h) k2"
    and agreed: "handshake_agreed s c" "answers_ready lib s" "answers_ready lib c"
  shows "\<exists>cs. handover_main lib abi h sk rl s0 c0 t k = Some (cs, 0) \<and> length cs = 10 \<and>
    (\<forall>(what, passed) \<in> set cs. passed)"
proof -
  have ne: "sfd h \<noteq> cfd h" using loopback_distinct [OF sockets] by simp
  note live = handover_drained [OF laws(1,2) sockets s0 c0 fresh loop drains]
  have ends: "ends_agree lib abi s c (sent (sfd h) k2) (sent (cfd h) k2)"
    using live agreed delivered by (simp add: ends_agree_def handshake_agreed_def)
  have seqs: "ktls_record_sequence lib s KTLS_TX = ktls_record_sequence lib c KTLS_RX"
    "ktls_record_sequence lib c KTLS_TX = ktls_record_sequence lib s KTLS_RX"
    using ends_agree_sequences [OF ends]
      live_sequences_agree [of lib abi c "sent (cfd h) k2" "sent (sfd h) k2" s "sent (sfd h) k2"] ends
    by (auto simp: ends_agree_def)
  obtain k3 i j where off: "offload_checks lib abi h rl s c t4 k2 =
      ([(''the server's socket takes both keys'', True), (''the client's socket takes both keys'', True)], k3)"
    and keys: "keyed (sfd h) KTLS_TX k3 = Some i" "keyed (cfd h) KTLS_RX k3 = Some i"
      "keyed (cfd h) KTLS_TX k3 = Some j" "keyed (sfd h) KTLS_RX k3 = Some j"
    and same: "\<forall>v \<in> {cfd h, sfd h}. sent v k3 = sent v k2 \<and> got v k3 = got v k2"
    using offloads_match [OF ends laws(3) kernel(2,1) ne kernel(3), of t4 k2] by blast
  have idle: "got (sfd h) k3 = sent (cfd h) k3" "got (cfd h) k3 = sent (sfd h) k3"
    using same delivered by simp_all
  have "\<not> any_fails (plain_checks abi h sk rl k3)"
    by (rule plain_checks_pass [OF kernel(4) ne keys idle])
  moreover have "length (plain_checks abi h sk rl k3) = 6"
    by (simp add: plain_checks_def write_then_read_def Let_def split: prod.splits)
  ultimately show ?thesis
    using loop drains off kernel(1) seqs
    by (auto simp: handover_main_def Let_def any_fails_def)
qed

end
