(* ===== verification/Ktls_Socket_Evidence.thy ===== *)
theory Ktls_Socket_Evidence
  imports Ktls_Plain Ktls_Instance
begin

text \<open>
  The properties of the handover example at a concrete connection: the two ends of
  Ktls_Instance over a loopback of two lists of bytes, run by the example's own loop and
  drains, with a kernel that takes keys and carries plain writes.
\<close>

text \<open>
  A loopback connection that keeps its promises: the descriptors 0 and 1, and per descriptor
  the bytes sent on it and the bytes got from it; and the system calls the kernel accepted,
  the last one first. A read hands out at most 15 bytes; \<open>poll\<close> answers 0 where nothing is
  waiting.
\<close>

type_synonym pipes = "((bytes \<times> bytes) \<times> (bytes \<times> bytes)) \<times> syscall list"

definition sent_on :: "int \<Rightarrow> pipes \<Rightarrow> bytes" where
  "sent_on fd k = (if fd = 0 then fst (fst (fst k)) else fst (snd (fst k)))"

definition got_from :: "int \<Rightarrow> pipes \<Rightarrow> bytes" where
  "got_from fd k = (if fd = 0 then snd (fst (fst k)) else snd (snd (fst k)))"

definition waiting :: "int \<Rightarrow> pipes \<Rightarrow> bytes" where
  "waiting fd k = drop (length (got_from fd k)) (sent_on (1 - fd) k)"

definition demo_write :: "int \<Rightarrow> bytes \<Rightarrow> pipes \<Rightarrow> int \<times> pipes" where
  "demo_write fd b = (\<lambda>(((s0, g0), (s1, g1)), log).
     (int (length b), (if fd = 0 then ((s0 @ b, g0), (s1, g1)) else ((s0, g0), (s1 @ b, g1)), log)))"

definition take_in :: "int \<Rightarrow> bytes \<Rightarrow> pipes \<Rightarrow> pipes" where
  "take_in fd p = (\<lambda>(((s0, g0), (s1, g1)), log).
     (if fd = 0 then ((s0, g0 @ p), (s1, g1)) else ((s0, g0), (s1, g1 @ p)), log))"

definition demo_read :: "int \<Rightarrow> pipes \<Rightarrow> bytes option \<times> pipes" where
  "demo_read fd k = (let p = take 15 (waiting fd k) in
     if p = [] then (None, k) else (Some p, take_in fd p k))"

definition demo_sockets :: "pipes sockets" where
  "demo_sockets = \<lparr> sk_write = demo_write, sk_read = demo_read,
     sk_poll = (\<lambda>fd ms k. (if waiting fd k = [] then 0 else 1, k)),
     sk_getfl = (\<lambda>fd k. 2), sk_setfl = (\<lambda>fd fl k. k), O_NONBLOCK = 2048 \<rparr>"

lemma demo_loopback: "loopback demo_sockets 0 1 sent_on got_from"
  unfolding loopback_def
  by (auto simp: demo_sockets_def demo_write_def demo_read_def take_in_def sent_on_def got_from_def arrived_def
      chunk_def Let_def split: prod.splits)

definition no_bytes :: pipes where "no_bytes = ((([], []), ([], [])), [])"

definition demo_looped :: "((nat, pipes) process + (nat, pipes) process) option" where
  "demo_looped = handover_loop demo_lib demo_abi demo_sockets 0 1 64
     (handover_start (demo_open KTLS_SERVER) (demo_open KTLS_CLIENT) thread_err_zero no_bytes)"

definition chunk_back :: "'s tls_lib \<Rightarrow> 's ktls_exchange \<times> thread_err \<Rightarrow> bytes \<times> 's ktls_exchange \<times> thread_err" where
  "chunk_back lib = backlog_pull lib chunk"

lemma chunk_back_code [code]: "chunk_back lib = (\<lambda>(x, t). pulled (chunk_read lib x t))"
  by (simp add: chunk_back_def backlog_pull_def chunk_read_def)

lemmas chunk_back_unfold [code_unfold] = chunk_back_def [symmetric]

definition demo_drained :: "(nat ktls_exchange \<times> nat ktls_exchange \<times> pipes) option" where
  "demo_drained = (case demo_looped of
     Some (Inr p) \<Rightarrow> (case drain_socket demo_lib demo_sockets 0 (p_c p) (p_err p) (p_kernel p) of
         Some (c, t3, k1) \<Rightarrow> (case drain_socket demo_lib demo_sockets 1 (p_s p) t3 k1 of
             Some (s, t4, k2) \<Rightarrow> Some (s, c, k2) | None \<Rightarrow> None)
       | None \<Rightarrow> None)
   | _ \<Rightarrow> None)"

lemma demo_looped_end:
  "case demo_looped of Some (Inr p) \<Rightarrow> p_ss p = KTLS_DONE \<and> p_cs p = KTLS_DONE | _ \<Rightarrow> False"
  by code_simp

text \<open>The ticket is still in flight when the loop ends; the drains bring it over.\<close>

lemma demo_drained_end:
  "case demo_drained of None \<Rightarrow> False | Some (s, c, k) \<Rightarrow>
     got_from 0 k = sent_on 1 k \<and> got_from 1 k = sent_on 0 k \<and> x_in s = Some [] \<and> x_in c = Some [] \<and>
     x_server s \<and> \<not> x_server c \<and> x_tx_at_done s = x_rx_at_done c \<and> x_tx_at_done c = x_rx_at_done s \<and>
     x_cipher s = x_cipher c \<and> slot_secret s ClientSlot = slot_secret c ClientSlot \<and>
     slot_secret s ServerSlot = slot_secret c ServerSlot \<and>
     \<not> isl (fst (ktls_crypto_info demo_lib s KTLS_TX thread_err_zero)) \<and>
     \<not> isl (fst (ktls_crypto_info demo_lib c KTLS_TX thread_err_zero)) \<and>
     ktls_record_sequence demo_lib s KTLS_TX = 1"
  by code_simp

lemma demo_laws: "bio_reads demo_lib" "bio_writes demo_lib"
  by (simp_all add: bio_reads_def bio_writes_def demo_lib_def)

lemma demo_fresh: "sent_on v no_bytes = []" "got_from v no_bytes = []"
  by (simp_all add: sent_on_def got_from_def no_bytes_def)


text \<open>
  A kernel with kernel TLS between the two: it takes every call, and hands out a record only
  where the two ends hold the same blob.
\<close>

definition keyed_in :: "int \<Rightarrow> ktls_direction \<Rightarrow> pipes \<Rightarrow> ktls_info option" where
  "keyed_in fd dir k = (case find (\<lambda>c. case c of
       AttachUlp v \<Rightarrow> False
     | SetTls v level name ci n \<Rightarrow> v = fd \<and> name = ktls_optname demo_abi dir) (snd k) of
     Some (SetTls v level name ci n) \<Rightarrow> Some ci
   | _ \<Rightarrow> None)"

definition demo_recvmsg :: "int \<Rightarrow> nat \<Rightarrow> pipes \<Rightarrow> (int \<times> bytes \<times> cmsg list) \<times> pipes" where
  "demo_recvmsg fd cap k =
     (if keyed_in fd KTLS_RX k \<noteq> None \<and> keyed_in fd KTLS_RX k = keyed_in (1 - fd) KTLS_TX k
      then (let p = take cap (waiting fd k)
            in ((int (length p), p, [(282, 2, [23])]), take_in fd p k))
      else ((-1, [], []), k))"

definition demo_layer :: "pipes record_layer" where
  "demo_layer = \<lparr> rl_setsockopt = (\<lambda>k call. 0), rl_accepted = (\<lambda>calls k. (fst k, rev calls @ snd k)),
     rl_recvmsg = demo_recvmsg \<rparr>"

definition demo_setup :: handover_fds where
  "demo_setup = \<lparr> ulp = True, cfd = 0, sfd = 1 \<rparr>"

lemma demo_setup_sel [simp]:
  "ulp demo_setup" "cfd demo_setup = 0" "sfd demo_setup = 1"
  by (simp_all add: demo_setup_def)

lemma keyed_in_kept [simp]:
  "keyed_in v d (snd (demo_write fd b k)) = keyed_in v d k"
  "keyed_in v d (take_in fd p k) = keyed_in v d k"
  by (auto simp: keyed_in_def demo_write_def take_in_def split: prod.splits)

lemma demo_takes_keys: "takes_keys demo_abi demo_layer 0 1 sent_on got_from keyed_in"
  by (auto simp: takes_keys_def both_ways_def demo_layer_def keyed_in_def sent_on_def got_from_def
      ktls_optname_def demo_abi_def Let_def)

lemma demo_carries: "carries_records demo_abi demo_sockets demo_layer 0 1 sent_on got_from keyed_in"
proof -
  have one: "let (w, k1) = demo_write p msg k; (r, k2) = demo_recvmsg (1 - p) cap k1 in
      w = int (length msg) \<and> r = (int (length msg), msg, [(282, 2, [23])]) \<and>
      keyed_in (1 - p) KTLS_TX k2 = keyed_in (1 - p) KTLS_TX k \<and> keyed_in p KTLS_RX k2 = keyed_in p KTLS_RX k \<and>
      sent_on (1 - p) k2 = sent_on (1 - p) k \<and> got_from p k2 = got_from p k"
    if p: "p = 0 \<or> p = 1" and i: "keyed_in p KTLS_TX k = Some i" "keyed_in (1 - p) KTLS_RX k = Some i"
      "got_from (1 - p) k = sent_on p k" "length msg \<le> cap" for p k i msg cap
  proof -
    obtain w k1 where w: "demo_write p msg k = (w, k1)" by (cases "demo_write p msg k")
    have k1: "keyed_in v d k1 = keyed_in v d k" for v d
      using keyed_in_kept(1) [of v d p msg k] by (simp add: w)
    have wr: "w = int (length msg)" "waiting (1 - p) k1 = msg" "sent_on (1 - p) k1 = sent_on (1 - p) k"
      "got_from p k1 = got_from p k"
      using w p i(3) by (auto simp: demo_write_def waiting_def sent_on_def got_from_def split: prod.splits if_splits)
    have "sent_on (1 - p) (take_in (1 - p) msg k1) = sent_on (1 - p) k1"
      "got_from p (take_in (1 - p) msg k1) = got_from p k1"
      using p by (auto simp: take_in_def sent_on_def got_from_def split: prod.splits)
    with wr i k1 show ?thesis by (simp add: w demo_recvmsg_def Let_def)
  qed
  have sel: "sk_write demo_sockets = demo_write" "rl_recvmsg demo_layer = demo_recvmsg" "SOL_TLS demo_abi = 282" "TLS_GET_RECORD_TYPE demo_abi = 2"
    by (simp_all add: demo_sockets_def demo_layer_def demo_abi_def)
  show ?thesis
    unfolding carries_records_def sel
  proof (intro ballI allI impI)
    fix p q :: int and msg :: bytes and cap i k
    assume "p \<in> {0, 1}" "q \<in> {0, 1}" and given: "p \<noteq> q \<and> keyed_in p KTLS_TX k = Some i \<and>
      keyed_in q KTLS_RX k = Some i \<and> got_from q k = sent_on p k \<and> 0 < length msg \<and>
      length msg \<le> cap \<and> cap \<le> chunk"
    then have "p = 0 \<or> p = 1" "q = 1 - p" by auto
    with one [of p k i msg cap] given
    show "let (w, k1) = demo_write p msg k; (r, k2) = demo_recvmsg q cap k1 in
        w = int (length msg) \<and> r = (int (length msg), msg, [(282, 2, [23])]) \<and>
        keyed_in q KTLS_TX k2 = keyed_in q KTLS_TX k \<and> keyed_in p KTLS_RX k2 = keyed_in p KTLS_RX k \<and>
        sent_on q k2 = sent_on q k \<and> got_from p k2 = got_from p k" by blast
  qed
qed

text \<open>The two ends when the sockets take their keys.\<close>

lemma demo_handover:
  obtains p c t3 k1 s t4 k where "handover_loop demo_lib demo_abi demo_sockets 0 1 64
      (handover_start (demo_open KTLS_SERVER) (demo_open KTLS_CLIENT) thread_err_zero no_bytes) = Some (Inr p)"
    "p_ss p = KTLS_DONE" "p_cs p = KTLS_DONE"
    "drain_socket demo_lib demo_sockets 0 (p_c p) (p_err p) (p_kernel p) = Some (c, t3, k1)"
    "drain_socket demo_lib demo_sockets 1 (p_s p) t3 k1 = Some (s, t4, k)"
    "got_from 0 k = sent_on 1 k" "got_from 1 k = sent_on 0 k"
    "handshake_agreed s c" "answers_ready demo_lib s" "answers_ready demo_lib c"
proof -
  obtain p where p: "demo_looped = Some (Inr p)" "p_ss p = KTLS_DONE" "p_cs p = KTLS_DONE"
    using demo_looped_end by (auto split: option.splits sum.splits)
  obtain s c k where d: "demo_drained = Some (s, c, k)"
    using demo_drained_end by (cases demo_drained) auto
  then obtain t3 k1 t4 where
    r: "drain_socket demo_lib demo_sockets 0 (p_c p) (p_err p) (p_kernel p) = Some (c, t3, k1)"
      "drain_socket demo_lib demo_sockets 1 (p_s p) t3 k1 = Some (s, t4, k)"
    unfolding demo_drained_def p by (auto split: option.splits)
  note facts = demo_drained_end [unfolded d option.case prod.case]
  have "slot_secret s w = slot_secret c w" for w using facts by (cases w) simp_all
  then have agreed: "handshake_agreed s c" using facts by (simp add: handshake_agreed_def)
  have ready: "answers_ready demo_lib s" "answers_ready demo_lib c"
    using facts by (auto simp: answers_ready_def ktls_crypto_info_def failing_def split: if_splits)
  show ?thesis
    by (rule that [OF p(1) [unfolded demo_looped_def] p(2,3) r _ _ agreed ready]) (use facts in simp_all)
qed

text \<open>A connection whose other end is closed: no bytes, and readable.\<close>

definition closed_sockets :: "unit sockets" where
  "closed_sockets = \<lparr> sk_write = (\<lambda>fd b k. (int (length b), k)), sk_read = (\<lambda>fd k. (Some [], k)),
     sk_poll = (\<lambda>fd ms k. (1, k)), sk_getfl = (\<lambda>fd k. 2), sk_setfl = (\<lambda>fd fl k. k),
     O_NONBLOCK = 2048 \<rparr>"

theorem drain_spins_at_eof_witness:
  "drain_socket demo_lib closed_sockets 3 (demo_open KTLS_CLIENT) thread_err_zero () = None"
  by (rule drain_spins_at_eof) (simp_all add: closed_sockets_def)

end
