(* ===== verification/Ktls_FreeBSD.thy ===== *)
theory Ktls_FreeBSD
  imports Ktls_Agreement Ktls_Record_Types Ktls_Probe
begin

text \<open>
  The FreeBSD branches of src/ktls.c: the sysctl that is both the probe and the switch, the
  socket options, the struct that carries a record's type, and \<open>struct tls_enable\<close>, the
  blob, which does not hold the key and the iv but points at the exchange's own storage. The
  parts of the exchange that are the same on both systems are those of the other theories;
  an exchange here is one of them with the two structs beside it.
\<close>

section \<open>The constants\<close>

text \<open>\<open>None\<close> is a constant this version of FreeBSD does not define.\<close>

record freebsd =
  FB_IPPROTO_TCP :: int
  TCP_TXTLS_ENABLE :: int
  TCP_RXTLS_ENABLE :: "int option"
  FB_TLS_GET_RECORD :: "int option"
  FB_TLS_SET_RECORD_TYPE :: "int option"
  sizeof_get_record :: nat
  tls_type_of :: "bytes \<Rightarrow> nat"               \<comment> \<open>the field \<open>tls_type\<close> of the struct\<close>
  CRYPTO_AES_NIST_GCM_16 :: int
  CRYPTO_CHACHA20_POLY1305 :: int
  TLS_MAJOR_VER_ONE :: int
  TLS_MINOR_VER_THREE :: int
  sizeof_tls_enable :: nat
  sysctl_enable :: "int option"              \<comment> \<open>\<open>kern.ipc.tls.enable\<close>, where it exists\<close>
  sysctl_set :: "int \<times> int"                  \<comment> \<open>writing it: the result, \<open>errno\<close>\<close>

section \<open>What the kernel can do\<close>

text \<open>\<open>ktls_sysctl_int\<close>: the result and what \<open>*out\<close> holds afterwards.\<close>

definition ktls_sysctl_int :: "freebsd \<Rightarrow> int \<Rightarrow> int \<times> int" where
  "ktls_sysctl_int fb out = (case sysctl_enable fb of None \<Rightarrow> (-1, out) | Some v \<Rightarrow> (0, v))"

definition fb_initialized :: "freebsd \<Rightarrow> bool" where
  "fb_initialized fb = (let (rc, on) = ktls_sysctl_int fb 0 in rc = 0 \<and> on \<noteq> 0)"

definition fb_available :: "freebsd \<Rightarrow> bool" where
  "fb_available fb = (let (rc, on) = ktls_sysctl_int fb 0 in rc = 0)"

definition fb_load_module ::
    "'z err_lib_scheme \<Rightarrow> freebsd \<Rightarrow> thread_err \<Rightarrow> (failure + unit) \<times> thread_err" where
  "fb_load_module lib fb t =
     (let (rc, e) = sysctl_set fb
      in if rc \<noteq> 0 then (Inl (Fail ''sysctl kern.ipc.tls.enable=1''),
             syscall_failed lib e ''sysctl kern.ipc.tls.enable=1'' t)
         else (Inr (), t))"

text \<open>Nothing to attach.\<close>

definition fb_attach_ulp :: "int \<Rightarrow> thread_err \<Rightarrow> (failure + unit) \<times> thread_err" where
  "fb_attach_ulp fd t = (Inr (), t)"

definition fb_sol_tls :: "freebsd \<Rightarrow> int" where
  "fb_sol_tls fb = FB_IPPROTO_TCP fb"

definition fb_optname :: "freebsd \<Rightarrow> ktls_direction \<Rightarrow> int" where
  "fb_optname fb dir = (case TCP_RXTLS_ENABLE fb of
     Some rx \<Rightarrow> (if dir = KTLS_TX then TCP_TXTLS_ENABLE fb else rx)
   | None \<Rightarrow> (if dir = KTLS_TX then TCP_TXTLS_ENABLE fb else -1))"

definition fb_record_type_cmsg :: "freebsd \<Rightarrow> int" where
  "fb_record_type_cmsg fb = (case FB_TLS_GET_RECORD fb of Some c \<Rightarrow> c | None \<Rightarrow> -1)"

definition fb_record_type_set_cmsg :: "freebsd \<Rightarrow> int" where
  "fb_record_type_set_cmsg fb = (case FB_TLS_SET_RECORD_TYPE fb of Some c \<Rightarrow> c | None \<Rightarrow> -1)"

definition fb_record_type :: "freebsd \<Rightarrow> bytes option \<Rightarrow> nat \<Rightarrow> ktls_record" where
  "fb_record_type fb cmsg_data len =
     (case FB_TLS_GET_RECORD fb of
        None \<Rightarrow> KTLS_RECORD_UNKNOWN
      | Some c \<Rightarrow> (case cmsg_data of
          None \<Rightarrow> KTLS_RECORD_UNKNOWN
        | Some d \<Rightarrow> if len < sizeof_get_record fb then KTLS_RECORD_UNKNOWN
                    else ktls_record_of (tls_type_of fb (take (sizeof_get_record fb) d))))"

section \<open>struct tls_enable\<close>

text \<open>Where a pointer in the struct points: one of the two arrays of keys or of ivs.\<close>

datatype pointer = NullPtr | KeyArray slot | IvArray slot

record tls_enable =
  en_cipher_algorithm :: int
  en_cipher_key :: pointer
  en_cipher_key_len :: int
  en_iv :: pointer
  en_iv_len :: int
  en_vmajor :: int
  en_vminor :: int
  en_rec_seq :: bytes

definition enable_zero :: tls_enable where
  "enable_zero = \<lparr> en_cipher_algorithm = 0, en_cipher_key = NullPtr, en_cipher_key_len = 0,
     en_iv = NullPtr, en_iv_len = 0, en_vmajor = 0, en_vminor = 0, en_rec_seq = replicate 8 0 \<rparr>"

type_synonym 's fb_exchange = "'s ktls_exchange \<times> (slot \<Rightarrow> tls_enable)"

definition load :: "'s ktls_exchange \<Rightarrow> pointer \<Rightarrow> bytes" where
  "load x p = (case p of NullPtr \<Rightarrow> [] | KeyArray w \<Rightarrow> x_key x w | IvArray w \<Rightarrow> x_iv x w)"

text \<open>What \<open>setsockopt\<close> copies into the kernel at the moment it is called.\<close>

definition kernel_reads :: "'s ktls_exchange \<Rightarrow> tls_enable \<Rightarrow> bytes \<times> bytes \<times> bytes" where
  "kernel_reads x en = (take (nat (en_cipher_key_len en)) (load x (en_cipher_key en)),
     take (nat (en_iv_len en)) (load x (en_iv en)), en_rec_seq en)"

definition fill_enable :: "freebsd \<Rightarrow> ktls_cipher \<Rightarrow> slot \<Rightarrow> tls_enable" where
  "fill_enable fb c which = enable_zero\<lparr>
     en_cipher_algorithm := (if c = KTLS_AES_GCM_128 then CRYPTO_AES_NIST_GCM_16 fb
                             else CRYPTO_CHACHA20_POLY1305 fb),
     en_cipher_key := KeyArray which, en_cipher_key_len := int (key_length c),
     en_iv := IvArray which, en_iv_len := 12,
     en_vmajor := TLS_MAJOR_VER_ONE fb, en_vminor := TLS_MINOR_VER_THREE fb \<rparr>"

text \<open>\<open>ktls_fill\<close> as it is compiled there.\<close>

type_synonym ('r, 's) fb_outcome = "(failure + 'r) \<times> 's fb_exchange \<times> thread_err"

definition fb_fill ::
    "'s tls_lib \<Rightarrow> freebsd \<Rightarrow> 's fb_exchange \<Rightarrow> slot \<Rightarrow> thread_err \<Rightarrow> (unit, 's) fb_outcome" where
  "fb_fill lib fb xe which t =
     (case xe of (x, en) \<Rightarrow>
       if x_secret_len x which = 0 then
         (let f = Say ''the traffic secret never arrived - is this OpenSSL built with TLS 1.3?''
          in (Inl f, xe, report lib f t))
       else
         (case ktls_expand lib (slot_secret x which) ''key'' (key_length (x_cipher x)) of
            Inl f \<Rightarrow> (Inl f, xe, report lib f t)
          | Inr k \<Rightarrow>
              (let x1 = x\<lparr> x_key := (x_key x)(which := memcpy_at (x_key x which) 0 k) \<rparr>
               in case ktls_expand lib (slot_secret x1 which) ''iv'' 12 of
                    Inl f \<Rightarrow> (Inl f, (x1, en), report lib f t)
                  | Inr v \<Rightarrow>
                      (let x2 = x1\<lparr> x_iv := (x_iv x1)(which := memcpy_at (x_iv x1 which) 0 v) \<rparr>
                       in (Inr (), (x2, en(which := fill_enable fb (x_cipher x2) which)), t)))))"

definition fb_derive_both ::
    "'s tls_lib \<Rightarrow> freebsd \<Rightarrow> 's \<Rightarrow> 's fb_exchange \<Rightarrow> thread_err \<Rightarrow> (unit, 's) fb_outcome" where
  "fb_derive_both lib fb s xe t =
     (case xe of (x, en) \<Rightarrow>
       (let server = ssl_is_server lib s;
            x1 = x\<lparr> x_cipher := ktls_negotiated_cipher lib s \<rparr>
        in if x_cipher x1 = NoCipher then
             (let f = Say ''the negotiated cipher is not one the kernel is told about here''
              in (Inl f, (x1, en), report lib f t))
           else (case fb_fill lib fb (x1, en) (slot_of KTLS_TX server) t of
                   (Inl f, r) \<Rightarrow> (Inl f, r)
                 | (Inr _, xe2, t2) \<Rightarrow> fb_fill lib fb xe2 (slot_of KTLS_RX server) t2)))"

definition fb_crypto_info ::
    "'s tls_lib \<Rightarrow> freebsd \<Rightarrow> 's fb_exchange \<Rightarrow> ktls_direction \<Rightarrow> thread_err \<Rightarrow>
      (tls_enable \<times> nat, 's) fb_outcome" where
  "fb_crypto_info lib fb xe dir t =
     (case xe of (x, en) \<Rightarrow>
       if \<not> x_done x then
         (let f = Say ''the exchange has not finished'' in (Inl f, xe, report lib f t))
       else if 0 < bio_pending lib (x_out x) then
         (let f = Say ''bytes are still owed to the peer - drain ktls_exchange_take first''
          in (Inl f, xe, report lib f t))
       else if r_overflowed (x_tx x) \<or> r_overflowed (x_rx x) then
         (let f = Say ''too many records before the handover to count the sequence''
          in (Inl f, xe, report lib f t))
       else
         (let which = slot_of dir (x_server x);
              seq = (if \<not> x_rekeyed x which then spent_records lib dir x else 0);
              ci = (en which)\<lparr> en_rec_seq := write_seq seq (en_rec_seq (en which)) \<rparr>
          in (Inr (ci, sizeof_tls_enable fb), (x, en(which := ci)), t)))"

definition fb_next_key ::
    "'s tls_lib \<Rightarrow> freebsd \<Rightarrow> 's fb_exchange \<Rightarrow> ktls_direction \<Rightarrow> thread_err \<Rightarrow> (unit, 's) fb_outcome" where
  "fb_next_key lib fb xe dir t =
     (case xe of (x, en) \<Rightarrow>
       if \<not> x_done x then
         (let f = Say ''the exchange has not finished'' in (Inl f, xe, report lib f t))
       else
         (let which = slot_of dir (x_server x);
              n = x_secret_len x which
          in case ktls_expand lib (slot_secret x which) ''traffic upd'' n of
               Inl f \<Rightarrow> (Inl f, xe, report lib f t)
             | Inr nxt \<Rightarrow>
                 fb_fill lib fb
                   (x\<lparr> x_secret := (x_secret x)(which := memcpy_at (x_secret x which) 0 nxt),
                       x_rekeyed := (x_rekeyed x)(which := True) \<rparr>, en) which t))"

section \<open>ktls_offload there\<close>

text \<open>One \<open>setsockopt\<close>: descriptor, level, name, the struct with what it points at, length.\<close>

datatype fb_syscall = FbSet int int int tls_enable "bytes \<times> bytes \<times> bytes" nat

definition fb_offload ::
    "'s tls_lib \<Rightarrow> freebsd \<Rightarrow> (fb_syscall \<Rightarrow> int) \<Rightarrow> 's fb_exchange \<Rightarrow> int \<Rightarrow> thread_err \<Rightarrow>
      (failure + unit) \<times> 's fb_exchange \<times> thread_err \<times> fb_syscall list" where
  "fb_offload lib fb kern xe fd t =
     (case fb_crypto_info lib fb xe KTLS_TX t of
        (tx, xe1, t1) \<Rightarrow>
      (case fb_crypto_info lib fb xe1 KTLS_RX t1 of
        (rx, xe2, t2) \<Rightarrow>
      (case (tx, rx) of
         (Inl f, Inr _) \<Rightarrow> (Inl f, xe2, t2, [])
       | (_, Inl f) \<Rightarrow> (Inl f, xe2, t2, [])
       | (Inr (txi, tx_len), Inr (rxi, rx_len)) \<Rightarrow>
           if \<not> fb_initialized fb then
             (Inl (Say not_initialized_msg), xe2, ktls_say not_initialized_msg t2, [])
           else if fb_optname fb KTLS_RX < 0 then
             (Inl (Say half_socket_msg), xe2, ktls_say half_socket_msg t2, [])
           else
             (case fb_attach_ulp fd t2 of
                (Inl f, t3) \<Rightarrow> (Inl f, xe2, t3, [])
              | (Inr _, t3) \<Rightarrow>
                  (let set_tx = FbSet fd (fb_sol_tls fb) (fb_optname fb KTLS_TX) txi
                         (kernel_reads (fst xe2) txi) tx_len;
                       set_rx = FbSet fd (fb_sol_tls fb) (fb_optname fb KTLS_RX) rxi
                         (kernel_reads (fst xe2) rxi) rx_len
                   in if kern set_tx \<noteq> 0 then
                        (Inl (Fail ''setsockopt(TLS_TX)''), xe2,
                         syscall_failed lib (kern set_tx) ''setsockopt(TLS_TX)'' t3, [])
                      else if kern set_rx \<noteq> 0 then
                        (Inl (Fail ''setsockopt(TLS_RX)''), xe2,
                         syscall_failed lib (kern set_rx) ''setsockopt(TLS_RX)'' t3, [set_tx])
                      else (Inr (), xe2, t3, [set_tx, set_rx]))))))"

section \<open>The same keys as on Linux\<close>

text \<open>
  The two builds side by side: the same exchange but for the Linux blobs, and in each slot
  a FreeBSD blob that stands for the Linux one.
\<close>

definition same_blob :: "'s ktls_exchange \<Rightarrow> ktls_info \<Rightarrow> tls_enable \<Rightarrow> bool" where
  "same_blob x ci en \<longleftrightarrow> kernel_reads x en = (i_key ci, i_salt ci @ i_iv ci, i_rec_seq ci)"

definition side_by_side :: "'s ktls_exchange \<Rightarrow> 's fb_exchange \<Rightarrow> bool" where
  "side_by_side x ye \<longleftrightarrow> (\<exists>info. fst ye = x\<lparr> x_info := info \<rparr>)"

definition blobs_match :: "'s ktls_exchange \<Rightarrow> 's fb_exchange \<Rightarrow> slot \<Rightarrow> bool" where
  "blobs_match x ye w \<longleftrightarrow> same_blob x (x_info x w) (snd ye w) \<and>
     en_cipher_key (snd ye w) = KeyArray w \<and> en_iv (snd ye w) = IvArray w"

lemma x_info_upd_sel [simp]:
  "spent_records lib dir (x\<lparr> x_info := i \<rparr>) = spent_records lib dir x"
  "slot_secret (x\<lparr> x_info := i \<rparr>) w = slot_secret x w"
  "slot_secret (x\<lparr> x_key := z \<rparr>) w = slot_secret x w"
  "kernel_reads (x\<lparr> x_info := i \<rparr>) en = kernel_reads x en"
  by (simp_all add: spent_records_def slot_secret_def kernel_reads_def load_def
      split: ktls_direction.split pointer.split)

lemma take_whole: "length iv = 12 \<Longrightarrow> take 4 iv @ take 8 (drop 4 iv) = take 12 iv"
  using take_add [of 4 8 iv] by simp

lemma filled_blobs:
  assumes "length (x_key x w) = 32" "length (x_iv x w) = 12"
  shows "same_blob x (fill_info abi c (x_key x w) (x_iv x w)) (fill_enable fb c w)"
  using assms take_whole [of "x_iv x w"]
  by (simp add: same_blob_def kernel_reads_def load_def fill_info_def fill_enable_def
      info_zero_def enable_zero_def key_length_def)

lemma kernel_reads_rec_seq:
  "kernel_reads x (en\<lparr> en_rec_seq := q \<rparr>) = (case kernel_reads x en of (k, v, _) \<Rightarrow> (k, v, q))"
  by (simp add: kernel_reads_def)

lemma fill_matches:
  assumes "ktls_fill lib abi x w t = (Inr u, x', t')" "side_by_side x ye" "exchange_wf x"
  shows "\<exists>ye'. fb_fill lib fb ye w t = (Inr u, ye', t') \<and> side_by_side x' ye' \<and>
    blobs_match x' ye' w \<and> (\<forall>v. v \<noteq> w \<longrightarrow> blobs_match x ye v \<longrightarrow> blobs_match x' ye' v)"
proof -
  obtain info en where ye: "ye = (x\<lparr> x_info := info \<rparr>, en)"
    using assms(2) by (cases ye) (auto simp: side_by_side_def)
  from assms(1) show ?thesis
  proof (cases rule: ktls_fill_cases)
    case (filled k v)
    let ?K = "memcpy_at (x_key x w) 0 k" and ?V = "memcpy_at (x_iv x w) 0 v"
    let ?en = "en(w := fill_enable fb (x_cipher x) w)"
    have len: "length ?K = 32" "length ?V = 12"
      using ktls_expand_length [OF filled(4)] ktls_expand_length [OF filled(5)] assms(3)
      by (auto simp: exchange_wf_def key_length_def intro!: trans [OF length_memcpy_at])
    have y: "fb_fill lib fb ye w t = (Inr (), (x'\<lparr> x_info := info \<rparr>, ?en), t)"
      using filled(1,4,5) unfolding filled(6)
      by (cases x) (simp add: ye fb_fill_def slot_secret_def)
    have "same_blob x' (x_info x' w) (?en w)"
      using filled_blobs [of x' w abi "x_cipher x" fb] len by (simp add: filled(6))
    then have "blobs_match x' (x'\<lparr> x_info := info \<rparr>, ?en) w"
      by (simp add: blobs_match_def fill_enable_def)
    moreover have "blobs_match x' (x'\<lparr> x_info := info \<rparr>, ?en) u" if "u \<noteq> w" "blobs_match x ye u" for u
      using that filled(6) by (auto simp: blobs_match_def same_blob_def kernel_reads_def load_def ye)
    ultimately show ?thesis using y filled(3) by (auto simp: side_by_side_def)
  qed simp_all
qed

text \<open>Reading a blob and turning a key keep the match, and answer alike.\<close>

lemma crypto_info_matches:
  assumes "ktls_crypto_info lib x dir t = (Inr (ci, n), x', t')" "side_by_side x ye"
    "\<And>w. blobs_match x ye w" "\<And>w. length (en_rec_seq (snd ye w)) = 8" "exchange_wf x"
  shows "\<exists>en ye'. fb_crypto_info lib fb ye dir t = (Inr (en, sizeof_tls_enable fb), ye', t') \<and>
    kernel_reads (fst ye') en = (i_key ci, i_salt ci @ i_iv ci, i_rec_seq ci) \<and>
    side_by_side x' ye' \<and> (\<forall>w. blobs_match x' ye' w)"
proof -
  obtain info en where ye: "ye = (x\<lparr> x_info := info \<rparr>, en)"
    using assms(2) by (cases ye) (auto simp: side_by_side_def)
  from assms(1) show ?thesis
  proof (cases rule: ktls_crypto_info_cases)
    case (answered ci')
    let ?w = "slot_of dir (x_server x)"
    let ?seq = "ktls_record_sequence lib x dir"
    let ?en = "(en ?w)\<lparr> en_rec_seq := write_seq ?seq (en_rec_seq (en ?w)) \<rparr>"
    have seq: "?seq = (if \<not> x_rekeyed x ?w then spent_records lib dir x else 0)"
      using answered(1) by (simp add: ktls_record_sequence_def)
    have "fb_crypto_info lib fb ye dir t =
        (Inr (?en, sizeof_tls_enable fb), (x\<lparr> x_info := info \<rparr>, en(?w := ?en)), t)"
      using answered(1-4) by (simp add: ye fb_crypto_info_def seq Let_def)
    moreover have "length (i_rec_seq (x_info x ?w)) = 8" using assms(5) by (simp add: exchange_wf_def)
    then have "write_seq ?seq (i_rec_seq (x_info x ?w)) = write_seq ?seq (en_rec_seq (en ?w))"
      using assms(4) [of ?w] by (simp add: write_seq_bytes ye)
    then have m: "blobs_match x' (x\<lparr> x_info := info \<rparr>, en(?w := ?en)) w" for w
      using assms(3) [of w] answered(6,7)
      by (auto simp: blobs_match_def same_blob_def kernel_reads_rec_seq ye)
    moreover have "kernel_reads (x\<lparr> x_info := info \<rparr>) ?en = (i_key ci, i_salt ci @ i_iv ci, i_rec_seq ci)"
      using m [of ?w] answered(6-8) by (simp add: blobs_match_def same_blob_def)
    ultimately show ?thesis using answered(5,7) by (auto simp: side_by_side_def)
  qed simp_all
qed

lemma next_key_matches:
  assumes "ktls_next_key lib abi x dir t = (Inr u, x', t')" "side_by_side x ye"
    "\<And>w. blobs_match x ye w" "exchange_wf x"
  shows "\<exists>ye'. fb_next_key lib fb ye dir t = (Inr u, ye', t') \<and> side_by_side x' ye' \<and>
    (\<forall>w. blobs_match x' ye' w)"
proof -
  obtain info en where ye: "ye = (x\<lparr> x_info := info \<rparr>, en)"
    using assms(2) by (cases ye) (auto simp: side_by_side_def)
  let ?w = "slot_of dir (x_server x)"
  from assms(1) show ?thesis
  proof (cases rule: ktls_next_key_cases)
    case (turned nxt x1)
    let ?turn = "\<lambda>z. z\<lparr> x_secret := (x_secret x)(?w := memcpy_at (x_secret x ?w) 0 nxt),
      x_rekeyed := (x_rekeyed x)(?w := True) \<rparr>"
    let ?y1 = "(?turn (x\<lparr> x_info := info \<rparr>), en)"
    have side: "side_by_side x1 ?y1"
      unfolding side_by_side_def turned(3) by (rule exI [of _ info]) (cases x, simp)
    have wf: "exchange_wf x1"
      using assms(4) turned(3) ktls_expand_length [OF turned(2)]
      by (auto simp: exchange_wf_def length_memcpy_at)
    have m: "blobs_match x1 ?y1 w" for w
      using assms(3) [of w] turned(3)
      by (auto simp: blobs_match_def same_blob_def kernel_reads_def load_def ye)
    obtain ye' where f: "fb_fill lib fb ?y1 ?w t = (Inr u, ye', t')" "side_by_side x' ye'"
      "blobs_match x' ye' ?w" "\<And>v. v \<noteq> ?w \<Longrightarrow> blobs_match x' ye' v"
      using fill_matches [OF turned(4) side wf] m by blast
    have "fb_next_key lib fb ye dir t = fb_fill lib fb ?y1 ?w t"
      using turned(1,2) by (simp add: ye fb_next_key_def Let_def)
    with f show ?thesis by (metis (full_types))
  qed simp_all
qed

lemma derive_both_matches:
  assumes "ktls_derive_both lib abi s x t = (Inr u, x', t')" "side_by_side x ye" "exchange_wf x" "\<not> x_done x"
  shows "\<exists>ye'. fb_derive_both lib fb s ye t = (Inr u, ye', t') \<and> side_by_side x' ye' \<and>
    (\<forall>w. blobs_match x' ye' w)"
proof -
  obtain info en where ye: "ye = (x\<lparr> x_info := info \<rparr>, en)"
    using assms(2) by (cases ye) (auto simp: side_by_side_def)
  let ?c = "ktls_negotiated_cipher lib s" and ?srv = "ssl_is_server lib s"
  from assms(1) show ?thesis
  proof (cases rule: ktls_derive_both_cases)
    case (both x2 t2)
    let ?x1 = "x\<lparr> x_cipher := ?c \<rparr>" and ?y1 = "(x\<lparr> x_info := info, x_cipher := ?c \<rparr>, en)"
    have side: "side_by_side ?x1 ?y1"
      unfolding side_by_side_def by (rule exI [of _ info]) (cases x, simp)
    have wf: "exchange_wf ?x1" using assms(3,4) by (auto simp: exchange_wf_def)
    obtain y2 where tx: "fb_fill lib fb ?y1 (slot_of KTLS_TX ?srv) t = (Inr (), y2, t2)"
      "side_by_side x2 y2" "blobs_match x2 y2 (slot_of KTLS_TX ?srv)"
      using fill_matches [OF both(2) side wf, of fb] by blast
    obtain y3 where rx: "fb_fill lib fb y2 (slot_of KTLS_RX ?srv) t2 = (Inr u, y3, t')"
      "side_by_side x' y3" "blobs_match x' y3 (slot_of KTLS_RX ?srv)"
      "blobs_match x' y3 (slot_of KTLS_TX ?srv)"
      using fill_matches [OF both(3) tx(2) exchange_wf_fill [OF both(2) wf]] tx(3) slot_of_distinct
      by (metis (full_types))
    have "blobs_match x' y3 w" for w using slot_of_both [of w ?srv] rx(3,4) by auto
    moreover have "fb_derive_both lib fb s ye t = (Inr u, y3, t')"
      using both(1) tx(1) rx(1) by (simp add: ye fb_derive_both_def Let_def)
    ultimately show ?thesis using rx(2) by blast
  qed simp_all
qed

text \<open>
  The two builds of the library doing the same things: the keys are derived, bytes cross and
  marks are set in any way, blobs are read, keys are turned.
\<close>

inductive twins :: "'s tls_lib \<Rightarrow> kernel_abi \<Rightarrow> freebsd \<Rightarrow> 's ktls_exchange \<Rightarrow> 's fb_exchange \<Rightarrow> bool"
  for lib :: "'s tls_lib" and abi :: kernel_abi and fb :: freebsd where
  derived: "side_by_side x ye \<Longrightarrow> exchange_wf x \<Longrightarrow> \<not> x_done x \<Longrightarrow>
     ktls_derive_both lib abi s x t = (Inr u, x1, t1) \<Longrightarrow>
     fb_derive_both lib fb s ye t = (r, ye1, t2) \<Longrightarrow> twins lib abi fb x1 ye1"
| moved: "twins lib abi fb x (y, en) \<Longrightarrow> exchange_wf x' \<Longrightarrow> x_key x' = x_key x \<Longrightarrow> x_iv x' = x_iv x \<Longrightarrow>
     x_info x' = x_info x \<Longrightarrow> twins lib abi fb x' (x'\<lparr> x_info := x_info y \<rparr>, en)"
| informed: "twins lib abi fb x ye \<Longrightarrow> ktls_crypto_info lib x dir t = (Inr i, x1, t1) \<Longrightarrow>
     fb_crypto_info lib fb ye dir t = (r, ye1, t2) \<Longrightarrow> twins lib abi fb x1 ye1"
| rekeyed: "twins lib abi fb x ye \<Longrightarrow> ktls_next_key lib abi x dir t = (Inr u, x1, t1) \<Longrightarrow>
     fb_next_key lib fb ye dir t = (r, ye1, t2) \<Longrightarrow> twins lib abi fb x1 ye1"

lemma reads_after_move:
  assumes "blobs_match x (y, en) w" "x_key x' = x_key x" "x_iv x' = x_iv x" "x_info x' = x_info x"
  shows "blobs_match x' (x'\<lparr> x_info := i \<rparr>, en) w"
proof -
  have "kernel_reads x' (en w) = kernel_reads x (en w)"
    using assms(2,3) by (simp add: kernel_reads_def load_def split: pointer.split)
  with assms(1,4) show ?thesis by (simp add: blobs_match_def same_blob_def)
qed

lemma twins_match:
  "twins lib abi fb x ye \<Longrightarrow> side_by_side x ye \<and> exchange_wf x \<and> (\<forall>w. blobs_match x ye w)"
proof (induction rule: twins.induct)
  case (derived x ye s t u x1 t1 r ye1 t2)
  then show ?case
    using derive_both_matches [OF derived(4,1,2,3), of fb] exchange_wf_derive_both [OF derived(4,2,3)] by auto
next
  case (moved x y en x')
  then show ?case
    using reads_after_move [of x y en _ x'] by (auto simp: side_by_side_def)
next
  case (informed x ye dir t i x1 t1 r ye1 t2)
  have "length (en_rec_seq (snd ye w)) = 8" for w
    using informed(4) by (simp add: blobs_match_def same_blob_def kernel_reads_def exchange_wf_def)
  then show ?case
    using informed crypto_info_matches [of lib x dir t "fst i" "snd i" x1 t1 ye fb]
      crypto_info_op.oper_wf [OF _ informed(2)] by auto
next
  case (rekeyed x ye dir t u x1 t1 r ye1 t2)
  then show ?case
    using next_key_matches [OF rekeyed(2), of ye fb] next_key_op.oper_wf [OF _ rekeyed(2)] by auto
qed


section \<open>A struct kept across a key update\<close>

text \<open>
  Every struct of an exchange whose keys were derived is \<open>ktls_fill\<close>'s but for the number
  \<open>ktls_crypto_info\<close> writes into it.
\<close>

definition fb_filled :: "freebsd \<Rightarrow> 's fb_exchange \<Rightarrow> bool" where
  "fb_filled fb xe \<longleftrightarrow>
     (\<forall>w. \<exists>q. snd xe w = (fill_enable fb (x_cipher (fst xe)) w)\<lparr> en_rec_seq := q \<rparr>)"

lemma fb_fill_cases:
  assumes "fb_fill lib fb xe w t = (Inr u, xe', t')"
  shows "x_cipher (fst xe') = x_cipher (fst xe)"
    "snd xe' = (snd xe)(w := fill_enable fb (x_cipher (fst xe)) w)"
  using assms by (cases xe, auto simp: fb_fill_def Let_def split: if_splits sum.splits)+

lemma fb_fill_filled:
  assumes "fb_fill lib fb xe w t = (Inr u, xe', t')"
  shows "\<exists>q. snd xe' w = (fill_enable fb (x_cipher (fst xe')) w)\<lparr> en_rec_seq := q \<rparr>"
    "v \<noteq> w \<Longrightarrow> \<exists>q. snd xe v = (fill_enable fb (x_cipher (fst xe)) v)\<lparr> en_rec_seq := q \<rparr> \<Longrightarrow>
      \<exists>q. snd xe' v = (fill_enable fb (x_cipher (fst xe')) v)\<lparr> en_rec_seq := q \<rparr>"
proof -
  have own: "\<exists>q. fill_enable fb c w = (fill_enable fb c w)\<lparr> en_rec_seq := q \<rparr>" for c
    by (rule exI [of _ "en_rec_seq (fill_enable fb c w)"]) simp
  show "\<exists>q. snd xe' w = (fill_enable fb (x_cipher (fst xe')) w)\<lparr> en_rec_seq := q \<rparr>"
    using own by (simp add: fb_fill_cases [OF assms])
  assume "v \<noteq> w" "\<exists>q. snd xe v = (fill_enable fb (x_cipher (fst xe)) v)\<lparr> en_rec_seq := q \<rparr>"
  then show "\<exists>q. snd xe' v = (fill_enable fb (x_cipher (fst xe')) v)\<lparr> en_rec_seq := q \<rparr>"
    by (simp add: fb_fill_cases [OF assms])
qed

lemma fb_filled_derive_both:
  assumes "fb_derive_both lib fb s xe t = (Inr u, xe', t')"
  shows "fb_filled fb xe'"
proof -
  let ?srv = "ssl_is_server lib s"
  obtain y xe2 t2 where f: "fb_fill lib fb y (slot_of KTLS_TX ?srv) t = (Inr (), xe2, t2)"
    "fb_fill lib fb xe2 (slot_of KTLS_RX ?srv) t2 = (Inr u, xe', t')"
    using assms by (cases xe) (auto simp: fb_derive_both_def Let_def split: if_splits sum.splits prod.splits)
  note tx = fb_fill_filled(2) [OF f(2) _ fb_fill_filled(1) [OF f(1)]]
  have "\<exists>q. snd xe' w = (fill_enable fb (x_cipher (fst xe')) w)\<lparr> en_rec_seq := q \<rparr>" for w
    using slot_of_both [of w ?srv] fb_fill_filled(1) [OF f(2)] tx slot_of_distinct by metis
  then show ?thesis by (simp add: fb_filled_def)
qed

lemma fb_crypto_info_cases:
  assumes "fb_crypto_info lib fb (x, en) dir t = (Inr (ci, n), xe', t')"
  obtains q where "x_done x" "ci = (en (slot_of dir (x_server x)))\<lparr> en_rec_seq := q \<rparr>"
    "xe' = (x, en(slot_of dir (x_server x) := ci))"
  using assms by (auto simp: fb_crypto_info_def Let_def split: if_splits)

lemma fb_filled_crypto_info:
  assumes "fb_filled fb xe" "fb_crypto_info lib fb xe dir t = (Inr (ci, n), xe', t')"
  shows "fb_filled fb xe'"
proof (cases xe)
  case (Pair x en)
  let ?w = "slot_of dir (x_server x)" and ?fill = "fill_enable fb (x_cipher x)"
  obtain q where ci: "ci = (en ?w)\<lparr> en_rec_seq := q \<rparr>" "xe' = (x, en(?w := ci))"
    using assms(2) unfolding Pair by (rule fb_crypto_info_cases)
  have en: "\<exists>q. en w = (?fill w)\<lparr> en_rec_seq := q \<rparr>" for w
    using assms(1) by (simp add: fb_filled_def Pair)
  obtain r where "en ?w = (?fill ?w)\<lparr> en_rec_seq := r \<rparr>" using en by blast
  with ci(1) have "ci = (?fill ?w)\<lparr> en_rec_seq := q \<rparr>" by simp
  with en ci(2) show ?thesis by (auto simp: fb_filled_def)
qed

lemma fb_next_key_cases:
  assumes "fb_next_key lib fb (x, en) dir t = (Inr u, xe', t')"
  obtains y where "x_cipher y = x_cipher x"
    "fb_fill lib fb (y, en) (slot_of dir (x_server x)) t = (Inr u, xe', t')"
proof -
  let ?w = "slot_of dir (x_server x)"
  from assms obtain nxt where
    "fb_fill lib fb (x\<lparr> x_secret := (x_secret x)(?w := memcpy_at (x_secret x ?w) 0 nxt),
       x_rekeyed := (x_rekeyed x)(?w := True) \<rparr>, en) ?w t = (Inr u, xe', t')"
    by (auto simp: fb_next_key_def Let_def split: if_splits sum.splits)
  with that [rotated, OF this] show ?thesis by simp
qed

lemma fb_filled_next_key:
  assumes "fb_filled fb xe" "fb_next_key lib fb xe dir t = (Inr u, xe', t')"
  shows "fb_filled fb xe'"
proof (cases xe)
  case (Pair x en)
  with assms(2) obtain y where y: "x_cipher y = x_cipher x"
    "fb_fill lib fb (y, en) (slot_of dir (x_server x)) t = (Inr u, xe', t')"
    by (blast elim: fb_next_key_cases)
  have "\<exists>q. snd (y, en) v = (fill_enable fb (x_cipher (fst (y, en))) v)\<lparr> en_rec_seq := q \<rparr>" for v
    using assms(1) Pair y(1) by (simp add: fb_filled_def)
  then show ?thesis using fb_fill_filled [OF y(2)] by (metis fb_filled_def)
qed

text \<open>
  C39: A struct is good only until the next key update. It is taken out of the exchange - the
  way the Ruby method copies it into a String - and the direction's key is then turned.
  What the kernel would read through the copy is the new key and the new iv, for the copy points at
  the exchange's arrays, under the old record sequence number, where the new key's own struct
  has zero. On Linux the copy holds the old key with its own number.
\<close>

theorem freebsd_blob_follows_rekey:
  assumes "fb_filled fb xe"
    "fb_crypto_info lib fb xe dir t = (Inr (ci, n), xe1, t1)"
    "fb_next_key lib fb xe1 dir t1 = (Inr u, xe2, t2)"
  shows "\<exists>k v q k' v'. kernel_reads (fst xe1) ci = (k, v, q) \<and>
    kernel_reads (fst xe2) (snd xe2 (slot_of dir (x_server (fst xe)))) = (k', v', replicate 8 0) \<and>
    kernel_reads (fst xe2) ci = (k', v', q)"
proof (cases xe)
  case (Pair x en)
  let ?w = "slot_of dir (x_server x)"
  from assms(2) obtain q where ci: "ci = (en ?w)\<lparr> en_rec_seq := q \<rparr>" and xe1: "xe1 = (x, en(?w := ci))"
    unfolding Pair by (rule fb_crypto_info_cases)
  from assms(1) obtain r where "en ?w = (fill_enable fb (x_cipher x) ?w)\<lparr> en_rec_seq := r \<rparr>"
    unfolding Pair fb_filled_def by auto
  with ci have ci: "ci = (fill_enable fb (x_cipher x) ?w)\<lparr> en_rec_seq := q \<rparr>" by simp
  from assms(3) obtain y where "x_cipher y = x_cipher x"
    "fb_fill lib fb (y, en(?w := ci)) ?w t1 = (Inr u, xe2, t2)"
    unfolding xe1 by (rule fb_next_key_cases)
  then have "snd xe2 ?w = fill_enable fb (x_cipher x) ?w" by (simp add: fb_fill_cases)
  then show ?thesis
    unfolding ci Pair by (simp add: kernel_reads_def fill_enable_def enable_zero_def)
qed

text \<open>
  Where the kernel receives nothing, the socket is left alone: no option is set, and the answer
  is the one of Linux.
\<close>

lemma fb_half_socket:
  assumes "TCP_RXTLS_ENABLE fb = None" "fb_offload lib fb kern xe fd t = (r, xe', t', calls)"
  shows "calls = []" "\<exists>f. r = Inl f"
  using assms
  by (auto simp: fb_offload_def fb_optname_def fb_attach_ulp_def split: prod.splits sum.splits if_splits)

end
