(* ===== verification/Ktls_FreeBSD_Evidence.thy ===== *)
theory Ktls_FreeBSD_Evidence
  imports Ktls_FreeBSD Ktls_Instance
begin

text \<open>
  The properties of the FreeBSD branch at a concrete exchange: the server of Ktls_Instance,
  whose keys are derived once more by both builds.
\<close>

definition demo_fb :: freebsd where
  "demo_fb = \<lparr> FB_IPPROTO_TCP = 6, TCP_TXTLS_ENABLE = 39, TCP_RXTLS_ENABLE = Some 41,
     FB_TLS_GET_RECORD = Some 2, FB_TLS_SET_RECORD_TYPE = Some 1, sizeof_get_record = 5,
     tls_type_of = (\<lambda>d. unat (d ! 0)), CRYPTO_AES_NIST_GCM_16 = 25, CRYPTO_CHACHA20_POLY1305 = 41,
     TLS_MAJOR_VER_ONE = 3, TLS_MINOR_VER_THREE = 4, sizeof_tls_enable = 64,
     sysctl_enable = Some 1, sysctl_set = (0, 0) \<rparr>"

text \<open>The server before its keys are derived, the two results, and the server afterwards.\<close>

definition fx0 :: "nat ktls_exchange" where "fx0 = sx\<lparr> x_done := False \<rparr>"

definition linux_derived :: "(failure + unit) \<times> nat ktls_exchange \<times> thread_err" where
  "linux_derived = ktls_derive_both demo_lib demo_abi 6 fx0 thread_err_zero"

definition fb_derived :: "(failure + unit) \<times> nat fb_exchange \<times> thread_err" where
  "fb_derived = fb_derive_both demo_lib demo_fb 6 (fx0, \<lambda>w. enable_zero) thread_err_zero"

definition fx :: "nat ktls_exchange" where "fx = (fst (snd linux_derived))\<lparr> x_done := True \<rparr>"

definition fe :: "nat fb_exchange" where
  "fe = (fx\<lparr> x_info := x_info (fst (fst (snd fb_derived))) \<rparr>, snd (fst (snd fb_derived)))"

text \<open>Reading the struct and turning the key, by the FreeBSD build.\<close>

definition fb_read :: "(failure + (tls_enable \<times> nat)) \<times> nat fb_exchange \<times> thread_err" where
  "fb_read = fb_crypto_info demo_lib demo_fb fe KTLS_TX thread_err_zero"

definition fb_turned :: "(failure + unit) \<times> nat fb_exchange \<times> thread_err" where
  "fb_turned = (case fb_read of (r, y, t) \<Rightarrow> fb_next_key demo_lib demo_fb y KTLS_TX t)"

lemma demo_fb_end:
  "x_cipher fx = KTLS_AES_GCM_128 \<and> x_server fx \<and>
   x_cipher (fst (fst (snd fb_derived))) = KTLS_AES_GCM_128 \<and>
   \<not> isl (fst linux_derived) \<and> \<not> isl (fst fb_derived) \<and>
   \<not> isl (fst (ktls_crypto_info demo_lib fx KTLS_TX thread_err_zero)) \<and>
   \<not> isl (fst fb_read) \<and> \<not> isl (fst fb_turned)"
  by code_simp

lemma demo_fb_facts:
  "x_cipher fx = KTLS_AES_GCM_128" "x_server fx"
  "x_cipher (fst (fst (snd fb_derived))) = KTLS_AES_GCM_128"
  "\<not> isl (fst linux_derived)" "\<not> isl (fst fb_derived)"
  "\<not> isl (fst (ktls_crypto_info demo_lib fx KTLS_TX thread_err_zero))"
  "\<not> isl (fst fb_read)" "\<not> isl (fst fb_turned)"
  using demo_fb_end by blast+

lemma Inr_result: "\<not> isl (fst p) \<Longrightarrow> \<exists>a y t. p = (Inr a, y, t)" for p :: "('f + 'a) \<times> 'y \<times> 't"
  by (cases p; cases "fst p") auto

lemma fx_wf: "exchange_wf fx0" "\<not> x_done fx0"
  using live_facts [OF demo_server_live] by (auto simp: fx0_def exchange_wf_def)

lemma demo_derived:
  obtains u x t v y t' where "ktls_derive_both demo_lib demo_abi 6 fx0 thread_err_zero = (Inr u, x, t)"
    "fb_derive_both demo_lib demo_fb 6 (fx0, \<lambda>w. enable_zero) thread_err_zero = (Inr v, y, t')"
    "fx = x\<lparr> x_done := True \<rparr>" "fe = (fx\<lparr> x_info := x_info (fst y) \<rparr>, snd y)"
proof -
  obtain u x t where r: "linux_derived = (Inr u, x, t)" using demo_fb_facts Inr_result by blast
  obtain v y t' where q: "fb_derived = (Inr v, y, t')" using demo_fb_facts Inr_result by blast
  show ?thesis
    by (rule that [OF r [unfolded linux_derived_def] q [unfolded fb_derived_def]])
      (simp_all add: fx_def fe_def r q)
qed

lemma demo_twins: "twins demo_lib demo_abi demo_fb fx fe"
proof -
  obtain u x t v y t' where r: "ktls_derive_both demo_lib demo_abi 6 fx0 thread_err_zero = (Inr u, x, t)"
    "fb_derive_both demo_lib demo_fb 6 (fx0, \<lambda>w. enable_zero) thread_err_zero = (Inr v, y, t')"
    "fx = x\<lparr> x_done := True \<rparr>" "fe = (fx\<lparr> x_info := x_info (fst y) \<rparr>, snd y)"
    by (rule demo_derived)
  have side: "side_by_side fx0 (fx0, \<lambda>w. enable_zero)"
    unfolding side_by_side_def by (rule exI [of _ "x_info fx0"]) simp
  have tw: "twins demo_lib demo_abi demo_fb x y" by (rule twins.derived [OF side fx_wf r(1,2)])
  have "exchange_wf x" using exchange_wf_derive_both [OF r(1)] fx_wf by blast
  then have "exchange_wf fx" using demo_fb_facts(1) unfolding r(3) exchange_wf_def by auto
  moreover have "x_key fx = x_key x" "x_iv fx = x_iv x" "x_info fx = x_info x" unfolding r(3) by simp_all
  ultimately show ?thesis
    unfolding r(4) by (intro twins.moved [of _ _ _ x "fst y"]) (use tw in simp_all)
qed


lemma fe_filled: "fb_filled demo_fb fe"
proof -
  obtain v y t where q: "fb_derived = (Inr v, y, t)" using demo_fb_facts Inr_result by blast
  have "fb_filled demo_fb y" by (rule fb_filled_derive_both [OF q [unfolded fb_derived_def]])
  moreover have "x_cipher (fst y) = x_cipher fx" using demo_fb_facts(1,3) unfolding q by simp
  ultimately show ?thesis by (simp add: fb_filled_def fe_def q)
qed

theorem freebsd_blob_follows_rekey_witness:
  "\<exists>ci n y1 t1 u y2 t2 k v q k' v'. fb_read = (Inr (ci, n), y1, t1) \<and> fb_turned = (Inr u, y2, t2) \<and>
     kernel_reads (fst y1) ci = (k, v, q) \<and> kernel_reads (fst y2) (snd y2 ServerSlot) = (k', v', replicate 8 0) \<and>
     kernel_reads (fst y2) ci = (k', v', q)"
proof -
  obtain i y1 t1 where r: "fb_read = (Inr i, y1, t1)"
    using demo_fb_facts(7) Inr_result by blast
  obtain ci n where i: "i = (ci, n)" by (cases i)
  obtain u y2 t2 where q: "fb_next_key demo_lib demo_fb y1 KTLS_TX t1 = (Inr u, y2, t2)"
    using demo_fb_facts(8) r Inr_result unfolding fb_turned_def by (metis (no_types, lifting) case_prod_conv)
  have "slot_of KTLS_TX (x_server (fst fe)) = ServerSlot" using demo_fb_facts(2) by (simp add: fe_def)
  with freebsd_blob_follows_rekey [OF fe_filled r [unfolded fb_read_def i] q] obtain k v s k' v' where
    "kernel_reads (fst y1) ci = (k, v, s)"
    "kernel_reads (fst y2) (snd y2 ServerSlot) = (k', v', replicate 8 0)"
    "kernel_reads (fst y2) ci = (k', v', s)" by auto
  moreover have "fb_turned = (Inr u, y2, t2)" unfolding fb_turned_def r prod.case by (rule q)
  ultimately show ?thesis using r i by blast
qed

end
