(* ===== verification/Ktls_Elsewhere.thy ===== *)
theory Ktls_Elsewhere
  imports Ktls_Exchange
begin

text \<open>
  The last branch of src/ktls.c, for systems that are neither Linux nor FreeBSD: every call
  answers at once, keeps no state and reads none of its arguments. The calls are data here,
  with the arguments the prototypes have, so that what a caller sees can be stated once for
  all of them.
\<close>

type_synonym pointer_arg = "nat option"

datatype api_call =
    Last_error | Initialized | Available | Load_module | Attach_ulp int | Sol_tls
  | Optname ktls_direction
  | Keys_server string nat string nat | Keys_client
  | Keys_add_certificate pointer_arg string string nat string nat
  | Keys_set_alpn pointer_arg "string list" nat | Keys_set_ciphers pointer_arg string
  | Keys_free pointer_arg
  | Exchange_open pointer_arg ktls_role | Exchange_free pointer_arg | Exchange_release pointer_arg
  | Exchange_feed pointer_arg bytes nat | Exchange_take pointer_arg nat
  | Exchange_backlog pointer_arg nat | Exchange_step pointer_arg
  | Exchange_alpn pointer_arg | Exchange_cipher pointer_arg
  | Crypto_info pointer_arg ktls_direction | Offload pointer_arg int
  | Record_sequence pointer_arg ktls_direction | Next_key pointer_arg ktls_direction
  | Record_limit pointer_arg | Aes_is_fast

datatype api_answer =
    Text string | Truth bool | Status int | Null | Count nat | Number u64 | Done

definition kNotHere :: string where
  "kNotHere = ''kTLS exists on Linux and FreeBSD; this is neither''"

fun elsewhere :: "api_call \<Rightarrow> api_answer" where
  "elsewhere Last_error = Text kNotHere"
| "elsewhere Initialized = Truth False"
| "elsewhere Available = Truth False"
| "elsewhere Load_module = Status (-1)"
| "elsewhere (Attach_ulp fd) = Status (-1)"
| "elsewhere Sol_tls = Status (-1)"
| "elsewhere (Optname dir) = Status (-1)"
| "elsewhere (Keys_server c cl k kl) = Null"
| "elsewhere Keys_client = Null"
| "elsewhere (Keys_add_certificate k h c cl key kl) = Status (-1)"
| "elsewhere (Keys_set_alpn k p n) = Status (-1)"
| "elsewhere (Keys_free k) = Done"
| "elsewhere (Exchange_open k r) = Null"
| "elsewhere (Exchange_free x) = Done"
| "elsewhere (Exchange_feed x b l) = Status (-1)"
| "elsewhere (Exchange_take x c) = Count 0"
| "elsewhere (Exchange_backlog x c) = Count 0"
| "elsewhere (Exchange_step x) = Status (-1)"
| "elsewhere (Exchange_alpn x) = Null"
| "elsewhere (Crypto_info x d) = Null"
| "elsewhere (Offload x fd) = Status (-1)"
| "elsewhere (Record_sequence x d) = Number 0"
| "elsewhere Aes_is_fast = Truth False"
| "elsewhere (Keys_set_ciphers k s) = Status (-1)"
| "elsewhere (Exchange_release x) = Done"
| "elsewhere (Next_key x d) = Status (-1)"
| "elsewhere (Record_limit x) = Number 0"
| "elsewhere (Exchange_cipher x) = Null"

text \<open>What src/include/ktls.h documents as the answer of a call that could do nothing.\<close>

definition refusal :: "api_answer \<Rightarrow> bool" where
  "refusal a \<longleftrightarrow> (case a of Text s \<Rightarrow> s \<noteq> [] | Truth b \<Rightarrow> \<not> b | Status n \<Rightarrow> n < 0 | Null \<Rightarrow> True
     | Count n \<Rightarrow> n = 0 | Number n \<Rightarrow> n = 0 | Done \<Rightarrow> True)"

text \<open>
  A caller written against the header meets a refusal at each call, and the error text names
  the reason.
\<close>

lemma elsewhere_refuses: "refusal (elsewhere call)"
  by (cases call) (simp_all add: refusal_def kNotHere_def)

end
