(* ===== verification/Ktls_Setup.thy ===== *)
theory Ktls_Setup
  imports Ktls_Keys_Calls Ktls_Pump
begin

text \<open>
  From keys to exchanges: \<open>ktls_exchange_open\<close> on the context of some keys, in the world
  whose contexts those are, and what the programs under examples/ rely on when they set up
  their keys: where memory does not run out and OpenSSL takes the texts, every call
  succeeds and the keys are as the invariant of Ktls_Keys wants them.
\<close>

section \<open>Opening on keys\<close>

text \<open>
  \<open>ssl_new\<close> is \<open>SSL_new\<close> on a context. \<open>calloc\<close> and the two \<open>BIO_new\<close> may fail like every
  call that needs memory.
\<close>

definition open_on ::
    "'s tls_lib \<Rightarrow> (ssl_ctx \<Rightarrow> 's option) \<Rightarrow> ktls_keys option \<Rightarrow> ktls_role \<Rightarrow> world \<Rightarrow>
      (failure + 's ktls_exchange) \<times> world" where
  "open_on lib ssl_new keys role w =
     (let (no_mem, w1) = fault w; (no_in, w2) = fault w1; (no_out, w3) = fault w2
      in case ktls_exchange_open lib (\<lambda>c. Option.bind (w_ctx w c) ssl_new) (\<not> no_mem) (\<not> no_in) (\<not> no_out)
             (map_option k_ctx keys) role (w_err w3) of
           (r, t) \<Rightarrow> (r, w3\<lparr> w_err := t \<rparr>))"

lemma open_on_opened:
  assumes "open_on lib ssl_new keys role w = (Inr x, w')"
  obtains ssl_new' a b c k t where
    "fst (ktls_exchange_open lib (ssl_new' :: nat \<Rightarrow> 's option) a b c k role t) = Inr x"
    "w_ctx w' = w_ctx w"
proof -
  obtain b1 w1 b2 w2 b3 w3 where f: "fault w = (b1, w1)" "fault w1 = (b2, w2)" "fault w2 = (b3, w3)"
    by (metis prod.exhaust)
  obtain r t where o: "ktls_exchange_open lib (\<lambda>c. Option.bind (w_ctx w c) ssl_new) (\<not> b1) (\<not> b2) (\<not> b3)
      (map_option k_ctx keys) role (w_err w3) = (r, t)"
    by (metis prod.exhaust)
  with f assms have "r = Inr x" "w' = w3\<lparr> w_err := t \<rparr>" by (simp_all add: open_on_def)
  moreover have "w_ctx w3 = w_ctx w" using fault_sel(1) [OF f(1)] fault_sel(1) [OF f(2)] fault_sel(1) [OF f(3)] by simp
  ultimately show ?thesis using o by (intro that [OF arg_cong [OF o, of fst, unfolded fst_conv \<open>r = Inr x\<close>]]) simp
qed

section \<open>Calls that succeed\<close>

text \<open>
  Memory does not run out; and what a call leaves of a world then: no context is lost and no
  failure reported.
\<close>

definition roomy :: "world \<Rightarrow> bool" where
  "roomy w \<longleftrightarrow> w_faults w = [] \<and> world_wf w"

definition calm :: "world \<Rightarrow> world \<Rightarrow> bool" where
  "calm w w' \<longleftrightarrow> roomy w' \<and> w_err w' = w_err w \<and> (\<forall>c. w_ctx w c \<noteq> None \<longrightarrow> w_ctx w' c \<noteq> None)"

lemma roomy_fault [simp]: "roomy w \<Longrightarrow> fault w = (False, w)"
  by (simp add: roomy_def fault_def)

lemma roomy_upd [simp]: "roomy (upd_ctx c f w) = roomy w"
proof -
  have "w_faults (upd_ctx c f w) = w_faults w" by (simp add: upd_ctx_def)
  then show ?thesis by (auto simp: roomy_def world_wf_def)
qed

lemma calm_refl: "roomy w \<Longrightarrow> calm w w"
  by (simp add: calm_def)

lemma calm_trans: "calm w w1 \<Longrightarrow> calm w1 w2 \<Longrightarrow> calm w w2"
  by (simp add: calm_def)

lemma calm_upd: "roomy w \<Longrightarrow> calm w (upd_ctx c f w)"
proof -
  have "w_err (upd_ctx c f w) = w_err w" by (simp add: upd_ctx_def)
  then show "roomy w \<Longrightarrow> calm w (upd_ctx c f w)" by (auto simp: calm_def)
qed

lemma calm_roomy: "calm w w' \<Longrightarrow> roomy w'"
  by (simp add: calm_def)

lemma set_ciphersuites_works:
  "roomy w \<Longrightarrow> suites_valid lib s \<Longrightarrow>
    set_ciphersuites lib c s w = (True, upd_ctx c (\<lambda>x. x\<lparr> c_suites := s \<rparr>) w)"
  by (simp add: set_ciphersuites_def)

lemma set_alpn_protos_works:
  "roomy w \<Longrightarrow> set_alpn_protos c p w = (True, upd_ctx c (\<lambda>x. x\<lparr> c_alpn_protos := p \<rparr>) w)"
  by (simp add: set_alpn_protos_def)

lemma ctx_new_works:
  assumes "roomy w" "suites_valid lib (default_suites lib)"
  shows "\<exists>w'. ktls_ctx_new lib w = (Inr (w_next w), w') \<and> calm w w'"
proof -
  obtain c w2 where n: "SSL_CTX_new lib w = (c, w2)" by (cases "SSL_CTX_new lib w")
  then have c: "calm w w2" "c = w_next w"
    using assms(1) by (auto simp: SSL_CTX_new_def calm_def roomy_def world_wf_def)
  note r = calm_roomy [OF c(1)]
  define w3 where "w3 = upd_ctx c (\<lambda>x. x\<lparr> c_min_version := TLS1_3_VERSION lib,
     c_max_version := TLS1_3_VERSION lib, c_server_preference := True \<rparr>) w2"
  define w4 where "w4 = upd_ctx c (\<lambda>x. x\<lparr> c_suites := default_suites lib \<rparr>) w3"
  have "calm w2 w3" "roomy w3" using calm_upd [OF r] r by (simp_all add: w3_def)
  moreover have "calm w3 w4" using calm_upd \<open>roomy w3\<close> by (simp add: w4_def)
  moreover have "calm w4 (upd_ctx c (\<lambda>x. x\<lparr> c_keylog := True \<rparr>) w4)"
    by (rule calm_upd [OF calm_roomy]) fact
  ultimately have "calm w (upd_ctx c (\<lambda>x. x\<lparr> c_keylog := True \<rparr>) w4)"
    using c(1) calm_trans by blast
  moreover have "ktls_ctx_new lib w = (Inr c, upd_ctx c (\<lambda>x. x\<lparr> c_keylog := True \<rparr>) w4)"
    using n r assms \<open>roomy w3\<close> by (simp add: ktls_ctx_new_def set_ciphersuites_works w3_def [symmetric] w4_def)
  ultimately show ?thesis using c(2) by blast
qed

text \<open>A certificate and a key OpenSSL takes, which fit each other.\<close>

definition good_pair :: "'z ctx_lib_scheme \<Rightarrow> string \<Rightarrow> string \<Rightarrow> bool" where
  "good_pair lib cert key \<longleftrightarrow> (case (pem_cert lib cert (c_int (length cert)), pem_key lib key (c_int (length key))) of
     (Some d, Some k) \<Rightarrow> key_fits lib d k \<and> (\<forall>x. use_cert_ok lib x d \<and> use_key_ok lib x k)
   | _ \<Rightarrow> False)"

lemma pair_ctx_works:
  assumes "roomy w" "suites_valid lib (default_suites lib)" "good_pair lib cert key"
  shows "\<exists>c w'. pair_ctx lib cert key w = (Inr c, w') \<and> calm w w'"
proof -
  obtain d k where dk: "pem_cert lib cert (c_int (length cert)) = Some d"
    "pem_key lib key (c_int (length key)) = Some k" "key_fits lib d k"
    "\<And>x. use_cert_ok lib x d" "\<And>x. use_key_ok lib x k"
    using assms(3) by (auto simp: good_pair_def split: option.splits)
  obtain w1 where n: "ktls_ctx_new lib w = (Inr (w_next w), w1)" "calm w w1"
    using ctx_new_works [OF assms(1,2)] by blast
  have x: "w_ctx w1 (w_next w) = Some (fresh_ctx lib)"
    using ktls_ctx_new_store [OF n(1)] assms(1) by (simp add: roomy_def)
  let ?c = "w_next w"
  define w2 where "w2 = upd_ctx ?c (\<lambda>x. x\<lparr> c_cert := Some d \<rparr>) w1"
  define w3 where "w3 = upd_ctx ?c (\<lambda>x. x\<lparr> c_key := Some k \<rparr>) w2"
  have r: "roomy w1" "roomy w2" using calm_roomy [OF n(2)] by (simp_all add: w2_def)
  have "calm w w3"
    using calm_trans [OF n(2) calm_trans [OF calm_upd [OF r(1)] calm_upd [OF r(2), unfolded w2_def]]]
    by (simp add: w2_def w3_def)
  moreover have "pair_ctx lib cert key w = (Inr ?c, w3)"
    using n r x dk by (simp add: pair_ctx_def ktls_pem_into_def check_private_key_def w2_def w3_def)
  ultimately show ?thesis by blast
qed

text \<open>Keys as the programs hold them: without further certificates, their context alive.\<close>

definition plain_keys :: "ktls_keys \<Rightarrow> world \<Rightarrow> bool" where
  "plain_keys keys w \<longleftrightarrow> k_named keys = [] \<and> length (k_alpn keys) = 256 \<and> w_ctx w (k_ctx keys) \<noteq> None"

lemma plain_keys_calm: "plain_keys keys w \<Longrightarrow> calm w w' \<Longrightarrow> plain_keys keys w'"
  unfolding plain_keys_def calm_def by blast

lemma plain_keys_zero: "keys_inv lib (keys_zero c) w \<Longrightarrow> plain_keys (keys_zero c) w"
  by (simp add: plain_keys_def keys_inv_def keys_shape_def keys_zero_def key_ctxs_def)

lemma keys_server_works:
  assumes "roomy w" "suites_valid lib (default_suites lib)" "good_pair lib cert key"
  shows "\<exists>keys w'. ktls_keys_server lib cert key w = (Inr keys, w') \<and> calm w w' \<and> plain_keys keys w'"
proof -
  obtain c w' where p: "pair_ctx lib cert key w = (Inr c, w')" "calm w w'"
    using pair_ctx_works [OF assms] by blast
  then have e: "ktls_keys_server lib cert key w = (Inr (keys_zero c), w')"
    using assms(1) by (simp add: ktls_keys_server_def)
  have "keys_inv lib (keys_zero c) w'"
    using keys_server_store [OF e] assms(1) by (simp add: roomy_def)
  with e p plain_keys_zero show ?thesis by blast
qed

lemma keys_client_works:
  assumes "roomy w" "suites_valid lib (default_suites lib)"
  shows "\<exists>keys w'. ktls_keys_client lib w = (Inr keys, w') \<and> calm w w' \<and> plain_keys keys w'"
proof -
  obtain w1 where n: "ktls_ctx_new lib w = (Inr (w_next w), w1)" "calm w w1"
    using ctx_new_works [OF assms] by blast
  let ?w = "upd_ctx (w_next w) (\<lambda>x. x\<lparr> c_verify_none := True \<rparr>) w1"
  have e: "ktls_keys_client lib w = (Inr (keys_zero (w_next w)), ?w)"
    using n assms(1) by (simp add: ktls_keys_client_def)
  have "keys_inv lib (keys_zero (w_next w)) ?w"
    using keys_client_store [OF e] assms(1) by (simp add: roomy_def)
  with e calm_trans [OF n(2) calm_upd [OF calm_roomy [OF n(2)]]] plain_keys_zero show ?thesis by blast
qed

lemma set_ciphers_works:
  assumes "roomy w" "plain_keys keys w" "suites_valid lib s" "s \<noteq> []" "length s \<le> 255"
  shows "\<exists>keys' w'. ktls_keys_set_ciphers lib (Some s) keys w = (Inr (), keys', w') \<and> calm w w' \<and>
    plain_keys keys' w'"
proof -
  let ?w = "upd_ctx (k_ctx keys) (\<lambda>x. x\<lparr> c_suites := s \<rparr>) w"
  have "calm w ?w" by (rule calm_upd [OF assms(1)])
  moreover from assms(2) this have "plain_keys (keys\<lparr> k_suites := s \<rparr>) ?w"
    using plain_keys_calm by (fastforce simp: plain_keys_def)
  moreover have "ktls_keys_set_ciphers lib (Some s) keys w = (Inr (), keys\<lparr> k_suites := s \<rparr>, ?w)"
    using assms by (simp add: ktls_keys_set_ciphers_def Let_def set_ciphersuites_works plain_keys_def)
  ultimately show ?thesis by blast
qed

lemma set_alpn_works:
  assumes "roomy w" "plain_keys keys w" "alpn_write ps (k_alpn keys) 0 = (Some n, a)"
  shows "\<exists>keys' w'. ktls_keys_set_alpn lib ps keys w = (Inr (), keys', w') \<and> calm w w' \<and> plain_keys keys' w'"
proof -
  let ?k = "keys\<lparr> k_alpn := a, k_alpn_len := n \<rparr>"
  define w1 where "w1 = upd_ctx (k_ctx keys) (\<lambda>x. x\<lparr> c_alpn_cb := True \<rparr>) w"
  define w2 where "w2 = upd_ctx (k_ctx keys) (\<lambda>x. x\<lparr> c_alpn_protos := take n a \<rparr>) w1"
  have r: "roomy w1" using assms(1) by (simp add: w1_def)
  have c: "calm w w2"
    using calm_trans [OF calm_upd [OF assms(1)] calm_upd [OF r [unfolded w1_def]]] by (simp add: w1_def w2_def)
  have "length a = 256"
    using alpn_write_length [of "k_alpn keys" ps 0] assms(2,3) by (simp add: plain_keys_def)
  with plain_keys_calm [OF assms(2) c] have "plain_keys ?k w2" by (simp add: plain_keys_def)
  moreover have "ktls_keys_set_alpn lib ps keys w = (Inr (), ?k, w2)"
    using assms r by (simp add: ktls_keys_set_alpn_def Let_def set_alpn_protos_works plain_keys_def
        w1_def [symmetric] w2_def)
  ultimately show ?thesis using c by blast
qed

lemma open_on_works:
  assumes "roomy w" "plain_keys keys w" "\<forall>x. ssl_new x \<noteq> None"
  shows "\<exists>x. open_on lib ssl_new (Some keys) role w = (Inr x, w)"
proof -
  obtain ctx where c: "w_ctx w (k_ctx keys) = Some ctx" using assms(2) by (auto simp: plain_keys_def)
  moreover obtain s where "ssl_new ctx = Some s" using assms(3) by blast
  ultimately show ?thesis using assms(1) by (simp add: open_on_def ktls_exchange_open_def)
qed

end
