(* ===== verification/Ktls_Mains.thy ===== *)
theory Ktls_Mains
  imports Ktls_Setup Ktls_Checks Ktls_Handles Ktls_Plain
begin

text \<open>
  The three programs under src/examples/ from their first line to their exit status: reading
  the two files, the keys, the exchanges, and then the parts of Ktls_Checks, Ktls_Handles
  and Ktls_Plain. Where a program follows a pointer that is NULL its value is \<open>None\<close>, as
  for a loop that does not end.
\<close>

section \<open>Where a program runs\<close>

text \<open>
  The two views of OpenSSL, \<open>SSL_new\<close> on a context, the constants of linux/tls.h, whether
  \<open>ktls_initialized ()\<close>, the system calls, and the contents of examples/cert.pem and
  examples/key.pem, \<open>None\<close> where the file cannot be opened.
\<close>

record 's system =
  sys_ctx_lib :: ctx_lib
  sys_lib :: "'s tls_lib"
  sys_ssl_new :: "ssl_ctx \<Rightarrow> 's option"
  sys_abi :: kernel_abi
  sys_initialized :: bool
  sys_kernel :: kernel
  sys_cert :: "string option"
  sys_key :: "string option"

text \<open>The three \<open>slurp\<close>s: at most the size of the buffer is read.\<close>

definition slurp :: "string option \<Rightarrow> string option" where
  "slurp f = (case f of None \<Rightarrow> None | Some text \<Rightarrow> Some (take 8192 text))"

definition slurp_64k :: "string option \<Rightarrow> string option" where
  "slurp_64k f = (case f of None \<Rightarrow> None | Some text \<Rightarrow> Some (take 65536 text))"

definition slurp_into :: "nat \<Rightarrow> string option \<Rightarrow> string option" where
  "slurp_into cap f = (case f of None \<Rightarrow> None | Some text \<Rightarrow> Some (take cap text))"

definition offered :: "bytes list" where
  "offered = [map of_char ''h2'', map of_char ''http/1.1'']"

section \<open>ktls_c_api.c\<close>

definition override_checks ::
    "'z ctx_lib_scheme \<Rightarrow> string option \<Rightarrow> ktls_keys \<Rightarrow> world \<Rightarrow> checks \<times> ktls_keys \<times> world" where
  "override_checks cl suites keys w =
     (if suites \<noteq> None then
        (case ktls_keys_set_ciphers cl suites keys w of (r, keys', w') \<Rightarrow>
           ([(''ktls_keys_set_ciphers overrides the order'', \<not> isl r)], keys', w'))
      else ([], keys, w))"

text \<open>
  The loop begins with a step of the client. Where that fails \<open>main\<close> returns before it has
  looked at the server's exchange, which may be NULL.
\<close>

definition first_step_fails :: "'s system \<Rightarrow> 's ktls_exchange \<Rightarrow> world \<Rightarrow> bool" where
  "first_step_fails m c w = isl (fst (ktls_exchange_step (sys_lib m) (sys_abi m) c (w_err w)))"

text \<open>
  What is checked before the loop, and the two exchanges or the exit status of a \<open>main\<close> that
  has ended.
\<close>

definition c_setup ::
    "'s system \<Rightarrow> string option \<Rightarrow> world \<Rightarrow>
      (checks \<times> (int + ('s ktls_exchange \<times> 's ktls_exchange \<times> world))) option" where
  "c_setup m suites w =
     (case slurp (sys_cert m) of None \<Rightarrow> Some ([], Inl 1) | Some cert \<Rightarrow>
     (case slurp (sys_key m) of None \<Rightarrow> Some ([], Inl 1) | Some key \<Rightarrow>
     (case ktls_keys_server (sys_ctx_lib m) cert key w of
        (Inl f, w1) \<Rightarrow> Some ([(''ktls_keys_server loads a PEM chain and key'', False)], Inl 1)
      | (Inr server_keys, w1) \<Rightarrow>
     (case ktls_keys_set_alpn (sys_ctx_lib m) offered server_keys w1 of (a, sk, w2) \<Rightarrow>
     (case override_checks (sys_ctx_lib m) suites sk w2 of (over, sk', w3) \<Rightarrow>
     (case ktls_keys_client (sys_ctx_lib m) w3 of
        (Inl f, w4) \<Rightarrow> None
      | (Inr client_keys, w4) \<Rightarrow>
     (case ktls_keys_set_alpn (sys_ctx_lib m) offered client_keys w4 of (d, ck, w5) \<Rightarrow>
     (case open_on (sys_lib m) (sys_ssl_new m) (Some sk') KTLS_SERVER w5 of (s, w6) \<Rightarrow>
     (case open_on (sys_lib m) (sys_ssl_new m) (Some ck) KTLS_CLIENT w6 of (c, w7) \<Rightarrow>
     (let made = [(''ktls_keys_server loads a PEM chain and key'', True),
             (''ktls_keys_set_alpn takes h2 and http/1.1'', \<not> isl a)] @ over @
            [(''ktls_keys_client builds a config without a trust store'', True),
             (''the client offers the same two'', \<not> isl d),
             (''two exchanges open, neither naming a descriptor'', \<not> isl s \<and> \<not> isl c)]
      in case (s, c) of
        (Inr s0, Inr c0) \<Rightarrow> Some (made, Inr (s0, c0, w7))
      | (Inl f, Inr c0) \<Rightarrow> if first_step_fails m c0 w7 then Some (made, Inl 1) else None
      | _ \<Rightarrow> None))))))))))"

definition c_api_main ::
    "'s system \<Rightarrow> string option \<Rightarrow> world \<Rightarrow> (checks \<times> int) option" where
  "c_api_main m suites w =
     (case c_setup m suites w of
        None \<Rightarrow> None
      | Some (first, Inl ret) \<Rightarrow> Some (first, ret)
      | Some (first, Inr (s0, c0, w1)) \<Rightarrow>
     (case exchange_loop (sys_lib m) (sys_abi m) s0 c0 (w_err w1) of
        None \<Rightarrow> None
      | Some (Died, s, c, t) \<Rightarrow> Some (first, 1)
      | Some (Drove rounds ss cs, s, c, t) \<Rightarrow>
     (case main_checks (sys_lib m) (sys_abi m) (ktls_aes_is_fast (processor (sys_ctx_lib m))) suites
             (sys_initialized m) (sys_kernel m) s c t of
        None \<Rightarrow> None
      | Some later \<Rightarrow>
          (let all = first @
                 [(''both sides reach KTLS_DONE, stepped, one thread'', ss = KTLS_DONE \<and> cs = KTLS_DONE),
                  (''and reach it without spinning'', rounds < 64)] @ later
           in Some (all, if any_fails all then 1 else 0)))))"

section \<open>ktls_cpp_api.cpp\<close>

definition cpp_setup ::
    "'s system \<Rightarrow> world \<Rightarrow> (int + ('s ktls_exchange \<times> 's ktls_exchange \<times> world)) option" where
  "cpp_setup m w =
     (case slurp_into 8192 (sys_cert m) of None \<Rightarrow> None | Some cert \<Rightarrow>
     (case slurp_into 8192 (sys_key m) of None \<Rightarrow> None | Some key \<Rightarrow>
     (case ktls_keys_server (sys_ctx_lib m) cert key w of (sk, w1) \<Rightarrow>
     (case ktls_keys_client (sys_ctx_lib m) w1 of (ck, w2) \<Rightarrow>
     (case (sk, ck) of
        (Inr sk1, Inr ck1) \<Rightarrow>
          (case ktls_keys_set_alpn (sys_ctx_lib m) offered sk1 w2 of (a, sk2, w3) \<Rightarrow>
          (case ktls_keys_set_alpn (sys_ctx_lib m) offered ck1 w3 of (b, ck2, w4) \<Rightarrow>
          (case open_on (sys_lib m) (sys_ssl_new m) (Some sk2) KTLS_SERVER w4 of (s, w5) \<Rightarrow>
          (case open_on (sys_lib m) (sys_ssl_new m) (Some ck2) KTLS_CLIENT w5 of (c, w6) \<Rightarrow>
          (case (s, c) of (Inr s0, Inr c0) \<Rightarrow> Some (Inr (s0, c0, w6)) | _ \<Rightarrow> None)))))
      | _ \<Rightarrow> Some (Inl 1))))))"

text \<open>\<open>memcmp (a, "h2", 2)\<close> looks at the exchange's array, whatever the length of the name.\<close>

definition cpp_verdict ::
    "'s tls_lib \<Rightarrow> ktls_step \<Rightarrow> ktls_step \<Rightarrow> 's ktls_exchange \<Rightarrow> 's ktls_exchange \<Rightarrow> thread_err \<Rightarrow> bool" where
  "cpp_verdict lib ss cs s c t =
     (case ktls_crypto_info lib s KTLS_TX t of (stx, s1, t1) \<Rightarrow>
     (case ktls_crypto_info lib c KTLS_RX t1 of (crx, c1, t2) \<Rightarrow>
        ss = KTLS_DONE \<and> cs = KTLS_DONE \<and> ktls_exchange_alpn s \<noteq> None \<and>
        take 2 (x_alpn s) = map of_char ''h2'' \<and>
        (case (stx, crx) of
           (Inr (i, tx_len), Inr (j, rx_len)) \<Rightarrow> tx_len = rx_len \<and> i = j
         | _ \<Rightarrow> False)))"

definition cpp_main :: "'s system \<Rightarrow> world \<Rightarrow> int option" where
  "cpp_main m w =
     (case cpp_setup m w of
        None \<Rightarrow> None
      | Some (Inl ret) \<Rightarrow> Some ret
      | Some (Inr (s0, c0, w1)) \<Rightarrow>
     (case cpp_loop (sys_lib m) (sys_abi m) 64 KTLS_READING KTLS_READING s0 c0 (w_err w1) of
        None \<Rightarrow> None
      | Some (ss, cs, s1, c1, t1) \<Rightarrow>
     (case pulled (ktls_exchange_backlog (sys_lib m) 4096 s1 t1) of (p, s, t2) \<Rightarrow>
     (case pulled (ktls_exchange_backlog (sys_lib m) 4096 c1 t2) of (q, c, t3) \<Rightarrow>
        Some (if cpp_verdict (sys_lib m) ss cs s c t3 then 0 else 1)))))"

section \<open>ktls_handover.c\<close>

definition set_ciphers_if ::
    "'z ctx_lib_scheme \<Rightarrow> string option \<Rightarrow> ktls_keys \<Rightarrow> ktls_keys \<Rightarrow> world \<Rightarrow> ktls_keys \<times> ktls_keys \<times> world" where
  "set_ciphers_if cl suites sk ck w =
     (if suites \<noteq> None then
        (case ktls_keys_set_ciphers cl suites sk w of (a, sk', w1) \<Rightarrow>
        (case ktls_keys_set_ciphers cl suites ck w1 of (b, ck', w2) \<Rightarrow> (sk', ck', w2)))
      else (sk, ck, w))"

definition handover_setup ::
    "'s system \<Rightarrow> string option \<Rightarrow> world \<Rightarrow>
      (int + ('s ktls_exchange \<times> 's ktls_exchange \<times> world)) option" where
  "handover_setup m suites w =
     (case slurp_64k (sys_cert m) of None \<Rightarrow> Some (Inl 1) | Some cert \<Rightarrow>
     (case slurp_64k (sys_key m) of None \<Rightarrow> Some (Inl 1) | Some key \<Rightarrow>
     (case ktls_keys_server (sys_ctx_lib m) cert key w of (sk, w1) \<Rightarrow>
     (case ktls_keys_client (sys_ctx_lib m) w1 of (ck, w2) \<Rightarrow>
     (case (sk, ck) of
        (Inr sk1, Inr ck1) \<Rightarrow>
          (case set_ciphers_if (sys_ctx_lib m) suites sk1 ck1 w2 of (sk2, ck2, w3) \<Rightarrow>
          (case open_on (sys_lib m) (sys_ssl_new m) (Some sk2) KTLS_SERVER w3 of (s, w4) \<Rightarrow>
          (case open_on (sys_lib m) (sys_ssl_new m) (Some ck2) KTLS_CLIENT w4 of (c, w5) \<Rightarrow>
          (case (s, c) of
             (Inr s0, Inr c0) \<Rightarrow> Some (Inr (s0, c0, w5))
           | (Inl f, Inr c0) \<Rightarrow> if first_step_fails m c0 w5 then Some (Inl 1) else None
           | _ \<Rightarrow> None))))
      | _ \<Rightarrow> Some (Inl 1))))))"

text \<open>
  The calls \<open>tcp_pair\<close> makes. \<open>getsockname\<close> answers \<open>None\<close> where it fails, and the address is left as it
  was. No result but a descriptor is looked at.
\<close>

record sockaddr_in =
  sin_family :: int
  sin_addr :: nat
  sin_port :: nat

record 'k tcp_calls =
  AF_INET :: int
  tc_socket :: "'k \<Rightarrow> int \<times> 'k"
  tc_bind :: "int \<Rightarrow> sockaddr_in \<Rightarrow> 'k \<Rightarrow> int \<times> 'k"
  tc_listen :: "int \<Rightarrow> int \<Rightarrow> 'k \<Rightarrow> int \<times> 'k"
  tc_getsockname :: "int \<Rightarrow> 'k \<Rightarrow> sockaddr_in option \<times> 'k"
  tc_connect :: "int \<Rightarrow> sockaddr_in \<Rightarrow> 'k \<Rightarrow> int \<times> 'k"
  tc_accept :: "int \<Rightarrow> 'k \<Rightarrow> int \<times> 'k"
  tc_close :: "int \<Rightarrow> 'k \<Rightarrow> int \<times> 'k"

definition tcp_pair :: "'k tcp_calls \<Rightarrow> 'k \<Rightarrow> int \<times> int \<times> 'k" where
  "tcp_pair tc k0 =
     (case tc_socket tc k0 of (lst, k1) \<Rightarrow>
     (let sa = \<lparr> sin_family = AF_INET tc, sin_addr = 0x7F000001, sin_port = 0 \<rparr>
      in case tc_bind tc lst sa k1 of (_, k2) \<Rightarrow>
     (case tc_listen tc lst 1 k2 of (_, k3) \<Rightarrow>
     (case tc_getsockname tc lst k3 of (name, k4) \<Rightarrow>
     (let sa' = (case name of None \<Rightarrow> sa | Some bound \<Rightarrow> bound)
      in case tc_socket tc k4 of (a, k5) \<Rightarrow>
     (case tc_connect tc a sa' k5 of (_, k6) \<Rightarrow>
     (case tc_accept tc lst k6 of (b, k7) \<Rightarrow>
     (case tc_close tc lst k7 of (_, k8) \<Rightarrow> (a, b, k8)))))))))"

text \<open>
  The sockets are made before the exchanges, on state of their own: what either does the other does
  not see.
\<close>

definition handover_program ::
    "'s system \<Rightarrow> string option \<Rightarrow> 'k tcp_calls \<Rightarrow> 'k sockets \<Rightarrow> 'k record_layer \<Rightarrow> world \<Rightarrow> 'k \<Rightarrow>
      (checks \<times> int) option" where
  "handover_program m suites tc sk rl w k0 =
     (case handover_setup m suites w of
        None \<Rightarrow> None
      | Some (Inl ret) \<Rightarrow> Some ([], ret)
      | Some (Inr (s0, c0, w1)) \<Rightarrow>
          (case tcp_pair tc k0 of (a, b, k) \<Rightarrow>
             handover_main (sys_lib m) (sys_abi m) \<lparr> ulp = sys_initialized m, cfd = a, sfd = b \<rparr> sk rl
               s0 c0 (w_err w1) k))"

section \<open>The set-up succeeds\<close>

text \<open>
  What the programs need around them to get as far as their loops: memory, two files that are a
  certificate and its key, and suite lists OpenSSL takes.
\<close>

definition well_equipped :: "(string option \<Rightarrow> string option) \<Rightarrow> 's system \<Rightarrow> string option \<Rightarrow> world \<Rightarrow> bool" where
  "well_equipped read_file m suites w \<longleftrightarrow> roomy w \<and> world_wf w \<and>
     suites_valid (sys_ctx_lib m) (default_suites (sys_ctx_lib m)) \<and>
     (\<exists>cert key. read_file (sys_cert m) = Some cert \<and> read_file (sys_key m) = Some key \<and>
        good_pair (sys_ctx_lib m) cert key) \<and>
     (\<forall>s. suites = Some s \<longrightarrow> suites_valid (sys_ctx_lib m) s \<and> s \<noteq> [] \<and> length s \<le> 255) \<and>
     (\<forall>x. sys_ssl_new m x \<noteq> None)"

lemma offered_fits:
  assumes "length a = 256"
  shows "\<exists>b. alpn_write offered a 0 = (Some 12, b) \<and> length b = 256"
proof -
  have "length (snd (alpn_write offered a 0)) = 256" by (rule alpn_write_length [OF assms])
  moreover have "fst (alpn_write offered a 0) = Some 12" by (simp add: offered_def)
  ultimately show ?thesis by (cases "alpn_write offered a 0") simp
qed

lemma set_offered_works:
  assumes "roomy w" "plain_keys keys w"
  shows "\<exists>keys' w'. ktls_keys_set_alpn lib offered keys w = (Inr (), keys', w') \<and> calm w w' \<and> plain_keys keys' w'"
proof -
  obtain a where "alpn_write offered (k_alpn keys) 0 = (Some 12, a)"
    using offered_fits [of "k_alpn keys"] assms(2) by (auto simp: plain_keys_def)
  from set_alpn_works [OF assms this] show ?thesis .
qed

lemma override_works:
  assumes "roomy w" "plain_keys keys w"
    "\<And>s. suites = Some s \<Longrightarrow> suites_valid cl s \<and> s \<noteq> [] \<and> length s \<le> 255"
  shows "\<exists>cs keys' w'. override_checks cl suites keys w = (cs, keys', w') \<and> \<not> any_fails cs \<and>
    calm w w' \<and> plain_keys keys' w'"
proof (cases suites)
  case None
  with assms calm_refl show ?thesis by (auto simp: override_checks_def any_fails_def)
next
  case (Some s)
  obtain keys' w' where "ktls_keys_set_ciphers cl (Some s) keys w = (Inr (), keys', w')" "calm w w'"
    "plain_keys keys' w'"
    using set_ciphers_works [OF assms(1,2)] assms(3) [OF Some] by blast
  with Some show ?thesis by (auto simp: override_checks_def any_fails_def)
qed

lemma any_fails_simps [simp]:
  "\<not> any_fails []" "any_fails (c # cs) \<longleftrightarrow> \<not> snd c \<or> any_fails cs"
  "any_fails (cs @ ds) \<longleftrightarrow> any_fails cs \<or> any_fails ds"
  by (auto simp: any_fails_def)

text \<open>The set-up of the C example passes all its checks and opens both exchanges.\<close>

lemma c_setup_works:
  assumes "well_equipped slurp m suites w"
  shows "\<exists>cs s c w'. c_setup m suites w = Some (cs, Inr (s, c, w')) \<and> \<not> any_fails cs \<and> calm w w'"
proof -
  let ?cl = "sys_ctx_lib m"
  obtain cert key where files: "slurp (sys_cert m) = Some cert" "slurp (sys_key m) = Some key"
      "good_pair ?cl cert key"
    and w: "roomy w" "suites_valid ?cl (default_suites ?cl)"
    and su: "\<And>s. suites = Some s \<Longrightarrow> suites_valid ?cl s \<and> s \<noteq> [] \<and> length s \<le> 255"
    and new: "\<forall>x. sys_ssl_new m x \<noteq> None"
    using assms by (auto simp: well_equipped_def)
  obtain sk w1 where s1: "ktls_keys_server ?cl cert key w = (Inr sk, w1)" "calm w w1" "plain_keys sk w1"
    using keys_server_works [OF w files(3)] by blast
  obtain sk1 w2 where s2: "ktls_keys_set_alpn ?cl offered sk w1 = (Inr (), sk1, w2)" "calm w1 w2" "plain_keys sk1 w2"
    using set_offered_works [OF calm_roomy [OF s1(2)] s1(3)] by blast
  obtain over sk2 w3 where s3: "override_checks ?cl suites sk1 w2 = (over, sk2, w3)" "\<not> any_fails over"
      "calm w2 w3" "plain_keys sk2 w3"
    using override_works [OF calm_roomy [OF s2(2)] s2(3) su] by blast
  obtain ck w4 where c1: "ktls_keys_client ?cl w3 = (Inr ck, w4)" "calm w3 w4" "plain_keys ck w4"
    using keys_client_works [OF calm_roomy [OF s3(3)] w(2)] by blast
  obtain ck1 w5 where c2: "ktls_keys_set_alpn ?cl offered ck w4 = (Inr (), ck1, w5)" "calm w4 w5" "plain_keys ck1 w5"
    using set_offered_works [OF calm_roomy [OF c1(2)] c1(3)] by blast
  note r = calm_roomy [OF c2(2)]
  have k: "plain_keys sk2 w5" using plain_keys_calm [OF s3(4) calm_trans [OF c1(2) c2(2)]] .
  obtain s where s: "open_on (sys_lib m) (sys_ssl_new m) (Some sk2) KTLS_SERVER w5 = (Inr s, w5)"
    using open_on_works [OF r k new] by blast
  obtain c where c: "open_on (sys_lib m) (sys_ssl_new m) (Some ck1) KTLS_CLIENT w5 = (Inr c, w5)"
    using open_on_works [OF r c2(3) new] by blast
  have "calm w w5" using s1(2) s2(2) s3(3) c1(2) c2(2) by (blast intro: calm_trans)
  with files s1(1) s2(1) s3(1,2) c1(1) c2(1) s c show ?thesis by (simp add: c_setup_def Let_def)
qed

text \<open>So does that of the C++ example, and that of the handover.\<close>

lemma cpp_setup_works:
  assumes "well_equipped (slurp_into 8192) m suites w"
  shows "\<exists>s c w'. cpp_setup m w = Some (Inr (s, c, w')) \<and> calm w w'"
proof -
  let ?cl = "sys_ctx_lib m"
  obtain cert key where files: "slurp_into 8192 (sys_cert m) = Some cert"
      "slurp_into 8192 (sys_key m) = Some key" "good_pair ?cl cert key"
    and w: "roomy w" "suites_valid ?cl (default_suites ?cl)"
    and new: "\<forall>x. sys_ssl_new m x \<noteq> None"
    using assms by (auto simp: well_equipped_def)
  obtain sk w1 where s1: "ktls_keys_server ?cl cert key w = (Inr sk, w1)" "calm w w1" "plain_keys sk w1"
    using keys_server_works [OF w files(3)] by blast
  obtain ck w2 where c1: "ktls_keys_client ?cl w1 = (Inr ck, w2)" "calm w1 w2" "plain_keys ck w2"
    using keys_client_works [OF calm_roomy [OF s1(2)] w(2)] by blast
  obtain sk1 w3 where s2: "ktls_keys_set_alpn ?cl offered sk w2 = (Inr (), sk1, w3)" "calm w2 w3" "plain_keys sk1 w3"
    using set_offered_works [OF calm_roomy [OF c1(2)] plain_keys_calm [OF s1(3) c1(2)]] by blast
  obtain ck1 w4 where c2: "ktls_keys_set_alpn ?cl offered ck w3 = (Inr (), ck1, w4)" "calm w3 w4" "plain_keys ck1 w4"
    using set_offered_works [OF calm_roomy [OF s2(2)] plain_keys_calm [OF c1(3) s2(2)]] by blast
  note r = calm_roomy [OF c2(2)]
  obtain s where s: "open_on (sys_lib m) (sys_ssl_new m) (Some sk1) KTLS_SERVER w4 = (Inr s, w4)"
    using open_on_works [OF r plain_keys_calm [OF s2(3) c2(2)] new] by blast
  obtain c where c: "open_on (sys_lib m) (sys_ssl_new m) (Some ck1) KTLS_CLIENT w4 = (Inr c, w4)"
    using open_on_works [OF r c2(3) new] by blast
  have "calm w w4" using s1(2) c1(2) s2(2) c2(2) by (blast intro: calm_trans)
  with files s1(1) c1(1) s2(1) c2(1) s c show ?thesis by (simp add: cpp_setup_def)
qed

lemma set_ciphers_if_works:
  assumes "roomy w" "plain_keys sk w" "plain_keys ck w"
    "\<And>s. suites = Some s \<Longrightarrow> suites_valid cl s \<and> s \<noteq> [] \<and> length s \<le> 255"
  shows "\<exists>sk' ck' w'. set_ciphers_if cl suites sk ck w = (sk', ck', w') \<and> calm w w' \<and>
    plain_keys sk' w' \<and> plain_keys ck' w'"
proof (cases suites)
  case None
  with assms calm_refl show ?thesis by (auto simp: set_ciphers_if_def)
next
  case (Some s)
  note v = assms(4) [OF Some]
  obtain sk' w1 where a: "ktls_keys_set_ciphers cl (Some s) sk w = (Inr (), sk', w1)" "calm w w1" "plain_keys sk' w1"
    using set_ciphers_works [OF assms(1,2)] v by blast
  obtain ck' w2 where b: "ktls_keys_set_ciphers cl (Some s) ck w1 = (Inr (), ck', w2)" "calm w1 w2" "plain_keys ck' w2"
    using set_ciphers_works [OF calm_roomy [OF a(2)] plain_keys_calm [OF assms(3) a(2)]] v by blast
  show ?thesis
    using Some a(1) b calm_trans [OF a(2) b(2)] plain_keys_calm [OF a(3) b(2)] by (simp add: set_ciphers_if_def)
qed

lemma handover_setup_works:
  assumes "well_equipped slurp_64k m suites w"
  shows "\<exists>s c w'. handover_setup m suites w = Some (Inr (s, c, w')) \<and> calm w w'"
proof -
  let ?cl = "sys_ctx_lib m"
  obtain cert key where files: "slurp_64k (sys_cert m) = Some cert" "slurp_64k (sys_key m) = Some key"
      "good_pair ?cl cert key"
    and w: "roomy w" "suites_valid ?cl (default_suites ?cl)"
    and su: "\<And>s. suites = Some s \<Longrightarrow> suites_valid ?cl s \<and> s \<noteq> [] \<and> length s \<le> 255"
    and new: "\<forall>x. sys_ssl_new m x \<noteq> None"
    using assms by (auto simp: well_equipped_def)
  obtain sk w1 where s1: "ktls_keys_server ?cl cert key w = (Inr sk, w1)" "calm w w1" "plain_keys sk w1"
    using keys_server_works [OF w files(3)] by blast
  obtain ck w2 where c1: "ktls_keys_client ?cl w1 = (Inr ck, w2)" "calm w1 w2" "plain_keys ck w2"
    using keys_client_works [OF calm_roomy [OF s1(2)] w(2)] by blast
  obtain sk1 ck1 w3 where i: "set_ciphers_if ?cl suites sk ck w2 = (sk1, ck1, w3)" "calm w2 w3"
      "plain_keys sk1 w3" "plain_keys ck1 w3"
    using set_ciphers_if_works [OF calm_roomy [OF c1(2)] plain_keys_calm [OF s1(3) c1(2)] c1(3) su] by blast
  note r = calm_roomy [OF i(2)]
  obtain s where s: "open_on (sys_lib m) (sys_ssl_new m) (Some sk1) KTLS_SERVER w3 = (Inr s, w3)"
    using open_on_works [OF r i(3) new] by blast
  obtain c where c: "open_on (sys_lib m) (sys_ssl_new m) (Some ck1) KTLS_CLIENT w3 = (Inr c, w3)"
    using open_on_works [OF r i(4) new] by blast
  have "calm w w3" using s1(2) c1(2) i(2) by (blast intro: calm_trans)
  with files s1(1) c1(1) i(1) s c show ?thesis by (simp add: handover_setup_def)
qed

lemma c_setup_opened:
  assumes "c_setup m suites w = Some (cs, Inr (s, c, w'))"
  obtains ssl_new a1 a2 a3 sk t1 ssl_new' b1 b2 b3 ck t2 where
    "fst (ktls_exchange_open (sys_lib m) (ssl_new :: nat \<Rightarrow> 's option) a1 a2 a3 sk KTLS_SERVER t1) = Inr s"
    "fst (ktls_exchange_open (sys_lib m) (ssl_new' :: nat \<Rightarrow> 's option) b1 b2 b3 ck KTLS_CLIENT t2) = Inr c"
proof -
  obtain sk w1 w2 ck where o: "open_on (sys_lib m) (sys_ssl_new m) sk KTLS_SERVER w1 = (Inr s, w2)"
    "open_on (sys_lib m) (sys_ssl_new m) ck KTLS_CLIENT w2 = (Inr c, w')"
    using assms by (auto simp: c_setup_def Let_def split: option.splits prod.splits sum.splits if_splits)
  show ?thesis by (rule open_on_opened [OF o(1)], rule open_on_opened [OF o(2)]) (rule that)
qed

section \<open>The programs succeed\<close>


text \<open>The C++ program's verdict on two ends that agree.\<close>

lemma cpp_verdict_agree:
  assumes "ends_agree lib abi s c S C" "quiet_reads lib"
  shows "cpp_verdict lib KTLS_DONE KTLS_DONE s c t \<longleftrightarrow>
    ktls_exchange_alpn s \<noteq> None \<and> take 2 (x_alpn s) = map of_char ''h2''"
proof -
  have live: "answers_ready lib s" "live lib abi s S C" "answers_ready lib c" "live lib abi c C S"
    and cipher: "x_cipher s = x_cipher c"
    using assms(1) by (simp_all add: ends_agree_def)
  obtain a s1 where a: "ktls_crypto_info lib s KTLS_TX t = (Inr (a, info_size (x_cipher s)), s1, t)"
    using reads_blob [OF live(1,2)] by blast
  obtain b c1 where b: "ktls_crypto_info lib c KTLS_RX t = (Inr (b, info_size (x_cipher c)), c1, t)"
    using reads_blob [OF live(3,4)] by blast
  have "a = b" by (rule ends_agree_blobs(1) [OF assms a b])
  with a b cipher show ?thesis by (simp add: cpp_verdict_def)
qed

lemma cpp_setup_opened:
  assumes "cpp_setup m w = Some (Inr (s, c, w'))"
  obtains ssl_new a1 a2 a3 sk t1 ssl_new' b1 b2 b3 ck t2 where
    "fst (ktls_exchange_open (sys_lib m) (ssl_new :: nat \<Rightarrow> 's option) a1 a2 a3 sk KTLS_SERVER t1) = Inr s"
    "fst (ktls_exchange_open (sys_lib m) (ssl_new' :: nat \<Rightarrow> 's option) b1 b2 b3 ck KTLS_CLIENT t2) = Inr c"
proof -
  obtain sk w1 w2 ck where o: "open_on (sys_lib m) (sys_ssl_new m) sk KTLS_SERVER w1 = (Inr s, w2)"
    "open_on (sys_lib m) (sys_ssl_new m) ck KTLS_CLIENT w2 = (Inr c, w')"
    using assms by (auto simp: cpp_setup_def split: option.splits prod.splits sum.splits if_splits)
  show ?thesis by (rule open_on_opened [OF o(1)], rule open_on_opened [OF o(2)]) (rule that)
qed



end
