(* ===== verification/Ktls_Mains_Evidence.thy ===== *)
theory Ktls_Mains_Evidence
  imports Ktls_Mains Ktls_Program_Evidence Ktls_Socket_Evidence Ktls_Keys_Evidence
begin

text \<open>
  The programs of Ktls_Mains run whole: the two stand-ins for OpenSSL, a certificate and
  its key, and the loopback connection of Ktls_Socket_Evidence.
\<close>

definition demo_system :: "nat system" where
  "demo_system = \<lparr> sys_ctx_lib = demo_ctx_lib, sys_lib = demo_lib, sys_ssl_new = (\<lambda>x. Some 0),
     sys_abi = demo_abi, sys_initialized = True, sys_kernel = (\<lambda>call. 0),
     sys_cert = Some ''C1'', sys_key = Some ''K1'' \<rparr>"

lemma demo_system_sel [simp]:
  "sys_ctx_lib demo_system = demo_ctx_lib" "sys_lib demo_system = demo_lib"
  "sys_ssl_new demo_system = (\<lambda>x. Some 0)" "sys_abi demo_system = demo_abi"
  "sys_initialized demo_system" "sys_cert demo_system = Some ''C1''" "sys_key demo_system = Some ''K1''"
  by (simp_all add: demo_system_def)

lemma demo_equipped: "well_equipped slurp demo_system None world_zero"
  by (simp add: well_equipped_def roomy_def world_zero_def world_wf_def slurp_def good_pair_def
      demo_ctx_lib_def default_suites_def)

lemma demo_cpp_equipped: "well_equipped (slurp_into 8192) demo_system None world_zero"
  by (simp add: well_equipped_def roomy_def world_zero_def world_wf_def slurp_into_def good_pair_def
      demo_ctx_lib_def default_suites_def)

lemma demo_handover_equipped: "well_equipped slurp_64k demo_system None world_zero"
  by (simp add: well_equipped_def roomy_def world_zero_def world_wf_def slurp_64k_def good_pair_def
      demo_ctx_lib_def default_suites_def)

lemma demo_open_on:
  assumes "open_on demo_lib (\<lambda>x. Some 0) keys role w = (Inr x, w')"
  shows "x = demo_open role"
  using assms
  by (auto simp: open_on_def ktls_exchange_open_def demo_open_def Let_def
      Option.bind_eq_Some_conv split: prod.splits option.splits if_splits)

lemma demo_c_setup:
  obtains cs w where "c_setup demo_system None world_zero =
      Some (cs, Inr (demo_open KTLS_SERVER, demo_open KTLS_CLIENT, w))" "w_err w = thread_err_zero"
proof -
  obtain cs s c w where r: "c_setup demo_system None world_zero = Some (cs, Inr (s, c, w))" "calm world_zero w"
    using c_setup_works [OF demo_equipped] by blast
  then have "s = demo_open KTLS_SERVER" "c = demo_open KTLS_CLIENT"
    by (auto simp: c_setup_def Let_def split: option.splits prod.splits sum.splits if_splits dest!: demo_open_on)
  with r that show ?thesis by (simp add: calm_def world_zero_def)
qed


lemma demo_cpp_setup:
  obtains w where "cpp_setup demo_system world_zero =
      Some (Inr (demo_open KTLS_SERVER, demo_open KTLS_CLIENT, w))" "w_err w = thread_err_zero"
proof -
  obtain s c w where r: "cpp_setup demo_system world_zero = Some (Inr (s, c, w))" "calm world_zero w"
    using cpp_setup_works [OF demo_cpp_equipped] by blast
  then have "s = demo_open KTLS_SERVER" "c = demo_open KTLS_CLIENT"
    by (auto simp: cpp_setup_def split: option.splits prod.splits sum.splits if_splits dest!: demo_open_on)
  with r that show ?thesis by (simp add: calm_def world_zero_def)
qed


lemma demo_handover_setup:
  obtains w where "handover_setup demo_system None world_zero =
      Some (Inr (demo_open KTLS_SERVER, demo_open KTLS_CLIENT, w))" "w_err w = thread_err_zero"
proof -
  obtain s c w where r: "handover_setup demo_system None world_zero = Some (Inr (s, c, w))" "calm world_zero w"
    using handover_setup_works [OF demo_handover_equipped] by blast
  then have "s = demo_open KTLS_SERVER" "c = demo_open KTLS_CLIENT"
    by (auto simp: handover_setup_def split: option.splits prod.splits sum.splits if_splits dest!: demo_open_on)
  with r that show ?thesis by (simp add: calm_def world_zero_def)
qed

text \<open>A kernel that gives the listening socket 2, and 0 and 1 for the ends of the connection to it.\<close>

definition demo_tcp :: "pipes tcp_calls" where
  "demo_tcp = \<lparr> AF_INET = 2,
     tc_socket = (\<lambda>k. if sent_on 0 k = [] then (2, snd (demo_write 0 [0] k)) else (0, no_bytes)),
     tc_bind = (\<lambda>fd sa k. (0, k)), tc_listen = (\<lambda>fd n k. (0, k)),
     tc_getsockname = (\<lambda>fd k. (Some \<lparr> sin_family = 2, sin_addr = 0x7F000001, sin_port = 40000 \<rparr>, k)),
     tc_connect = (\<lambda>fd sa k. (if sin_port sa = 40000 then 0 else -1, k)),
     tc_accept = (\<lambda>fd k. (if fd = 2 then 1 else -1, k)), tc_close = (\<lambda>fd k. (0, k)) \<rparr>"

lemma demo_pair: "tcp_pair demo_tcp no_bytes = (0, 1, no_bytes)"
  by (simp add: tcp_pair_def demo_tcp_def demo_write_def sent_on_def no_bytes_def)


end
