(* ===== verification/Ktls_Keys_Store.thy ===== *)
theory Ktls_Keys_Store
  imports Ktls_Keys_Calls
begin

text \<open>
  Several keys in one world: the store of OpenSSL's contexts, shared by all of them, cut into the
  part of each. The programs over handles and the Ruby programs keep it cut that way, so that what
  each frees is its own and nothing is left at the end.
\<close>

text \<open>
  The keys at the addresses \<open>K\<close>: each as its calls keep it, none sharing a context with another,
  and outside their contexts the store is as it was when the program started.
\<close>

definition keys_part :: "(nat \<Rightarrow> ktls_keys) \<Rightarrow> nat set \<Rightarrow> world \<Rightarrow> world \<Rightarrow> bool" where
  "keys_part ks K w0 w \<longleftrightarrow> world_wf w \<and>
     (\<forall>a \<in> K. keys_shape (ks a) w \<and> (\<forall>c \<in> set (key_ctxs (ks a)). w_ctx w0 c = None) \<and>
        (\<forall>b \<in> K. b \<noteq> a \<longrightarrow> set (key_ctxs (ks a)) \<inter> set (key_ctxs (ks b)) = {})) \<and>
     (\<forall>c. (\<forall>a \<in> K. c \<notin> set (key_ctxs (ks a))) \<longrightarrow> w_ctx w c = w_ctx w0 c)"

lemma keys_part_start: "world_wf w \<Longrightarrow> keys_part ks {} w w"
  by (simp add: keys_part_def)

lemma keys_shape_kept:
  assumes "keys_shape k w" "world_wf w'" "\<And>c. c \<in> set (key_ctxs k) \<Longrightarrow> w_ctx w' c = w_ctx w c"
  shows "keys_shape k w'"
proof -
  have "w_ctx w' (k_ctx k) = w_ctx w (k_ctx k)" by (rule assms(3)) (simp add: key_ctxs_def)
  with assms show ?thesis by (simp add: keys_shape_def)
qed

lemma keys_part_kept:
  assumes "keys_part ks K w0 w" "w_ctx w' = w_ctx w" "world_wf w'"
  shows "keys_part ks K w0 w'"
proof -
  have "keys_shape (ks a) w'" if "a \<in> K" for a
    by (rule keys_shape_kept [of _ w]) (use assms that in \<open>auto simp: keys_part_def\<close>)
  with assms show ?thesis by (simp add: keys_part_def)
qed

lemma keys_free_next: "w_next (ktls_keys_free k w) = w_next w"
proof -
  have "w_next (fold (\<lambda>(host, c). SSL_CTX_free c) cs u) = w_next u"
    for cs :: "(string \<times> nat) list" and u
    by (induction cs arbitrary: u) auto
  then show ?thesis by (simp add: ktls_keys_free_def split: option.splits)
qed

lemma keys_part_free:
  assumes inv: "keys_part ks K w0 w" and a: "a \<in> K"
  shows "keys_part ks (K - {a}) w0 (ktls_keys_free (Some (ks a)) w)"
proof -
  let ?w = "ktls_keys_free (Some (ks a)) w"
  have wf: "world_wf ?w" using inv by (simp add: keys_part_def world_wf_def keys_free_next keys_free_ctx)
  have "keys_shape (ks b) ?w" if "b \<in> K - {a}" for b
    by (rule keys_shape_kept [OF _ wf, of _ w]) (use inv a that in \<open>auto simp: keys_part_def keys_free_ctx\<close>)
  moreover have "w_ctx ?w c = w_ctx w0 c" if "\<forall>b \<in> K - {a}. c \<notin> set (key_ctxs (ks b))" for c
    using inv a that by (cases "c \<in> set (key_ctxs (ks a))") (auto simp: keys_part_def keys_free_ctx)
  ultimately show ?thesis using inv wf unfolding keys_part_def by (metis DiffD1)
qed

text \<open>Keys at \<open>a\<close>, new or changed by a call, whose further contexts were not in the store before.\<close>

lemma keys_part_update:
  assumes inv: "keys_part ks K w0 w" and shape: "keys_shape k w'"
    and other: "\<And>c. c \<notin> set (key_ctxs k) \<Longrightarrow> w_ctx w' c = w_ctx w c"
    and fresh: "\<And>c. c \<in> set (key_ctxs k) \<Longrightarrow> w_ctx w c = None \<or> a \<in> K \<and> c \<in> set (key_ctxs (ks a))"
    and more: "a \<in> K \<Longrightarrow> set (key_ctxs (ks a)) \<subseteq> set (key_ctxs k)"
  shows "keys_part (ks(a := k)) (insert a K) w0 w'"
proof -
  have apart: "set (key_ctxs k) \<inter> set (key_ctxs (ks b)) = {}" if b: "b \<in> K" "b \<noteq> a" for b
  proof -
    have "\<forall>c \<in> set (key_ctxs (ks b)). w_ctx w c \<noteq> None" using inv b by (simp add: keys_part_def keys_shape_def)
    moreover have "a \<in> K \<Longrightarrow> set (key_ctxs (ks a)) \<inter> set (key_ctxs (ks b)) = {}"
      using inv b by (auto simp: keys_part_def)
    ultimately show ?thesis using fresh by blast
  qed
  have apart': "set (key_ctxs (ks b)) \<inter> set (key_ctxs k) = {}" if "b \<in> K" "b \<noteq> a" for b
    using apart [OF that] by blast
  have wf: "world_wf w'" using shape by (simp add: keys_shape_def)
  have "keys_shape (ks b) w'" if "b \<in> K" "b \<noteq> a" for b
  proof (rule keys_shape_kept [OF _ wf])
    show "keys_shape (ks b) w" using inv that by (simp add: keys_part_def)
    show "c \<in> set (key_ctxs (ks b)) \<Longrightarrow> w_ctx w' c = w_ctx w c" for c
      using apart [OF that] other by blast
  qed
  moreover have "w_ctx w0 c = None" if c: "c \<in> set (key_ctxs k)" for c
  proof (cases "a \<in> K \<and> c \<in> set (key_ctxs (ks a))")
    case True
    with inv show ?thesis by (auto simp: keys_part_def)
  next
    case False
    then have "\<forall>b \<in> K. c \<notin> set (key_ctxs (ks b))" using apart c by blast
    then have "w_ctx w c = w_ctx w0 c" using inv unfolding keys_part_def by blast
    with fresh [OF c] False show ?thesis by auto
  qed
  moreover have "w_ctx w' c = w_ctx w0 c"
    if "c \<notin> set (key_ctxs k)" "\<forall>b \<in> K. b \<noteq> a \<longrightarrow> c \<notin> set (key_ctxs (ks b))" for c
  proof -
    have "\<forall>b \<in> K. c \<notin> set (key_ctxs (ks b))" using that more by (metis subsetD)
    then have "w_ctx w c = w_ctx w0 c" using inv unfolding keys_part_def by blast
    with other that(1) show ?thesis by simp
  qed
  ultimately show ?thesis using inv wf shape apart apart' by (simp add: keys_part_def)
qed

lemma keys_part_change:
  assumes "keys_part ks K w0 w" "a \<in> K" "keys_shape k w'" "owns_only (ks a) w k w'"
  shows "keys_part (ks(a := k)) K w0 w'"
proof -
  have "keys_part (ks(a := k)) (insert a K) w0 w'"
    by (rule keys_part_update [OF assms(1,3)]) (use assms(2,4) in \<open>auto simp: owns_only_def\<close>)
  with assms(2) show ?thesis by (simp add: insert_absorb)
qed

lemma keys_part_call:
  assumes "keys_part ks K w0 w" "a \<in> K" "keys_do lib call (ks a) w = (r, k, w')"
  shows "keys_part (ks(a := k)) K w0 w'"
proof -
  have "keys_shape (ks a) w" using assms(1,2) by (simp add: keys_part_def)
  from keys_part_change [OF assms(1,2)] keys_do_laws [OF assms(3) this] show ?thesis by simp
qed

text \<open>Making keys, and failing to.\<close>

definition makes_keys :: "'z ctx_lib_scheme \<Rightarrow> world \<Rightarrow> (failure + ktls_keys) \<times> world \<Rightarrow> bool" where
  "makes_keys lib w rw \<longleftrightarrow> (case rw of
     (Inl f, w') \<Rightarrow> w_ctx w' = w_ctx w \<and> world_wf w'
   | (Inr k, w') \<Rightarrow> keys_shape k w' \<and> key_ctxs k = [w_next w] \<and>
       (\<forall>c. c \<noteq> w_next w \<longrightarrow> w_ctx w' c = w_ctx w c))"

lemma server_makes_keys:
  assumes "world_wf w"
  shows "makes_keys lib w (ktls_keys_server lib cert key w)"
proof -
  obtain r w' where r: "ktls_keys_server lib cert key w = (r, w')" by fastforce
  obtain b w1 where w1: "fault w = (b, w1)" by fastforce
  have s1: "w_ctx w1 = w_ctx w" "w_next w1 = w_next w" using fault_sel [OF w1] by simp_all
  obtain r2 w2 where p: "pair_ctx lib cert key w1 = (r2, w2)" by fastforce
  have wf1: "world_wf w1" using assms s1 by (simp add: world_wf_def)
  show ?thesis
  proof (cases r)
    case (Inl f)
    then have "w_ctx w' = w_ctx w \<and> w_next w \<le> w_next w'"
      using r w1 s1 p pair_ctx_store [OF p wf1]
      by (auto simp: ktls_keys_server_def fail_with_def split: if_splits sum.splits)
    with assms r Inl show ?thesis by (auto simp: makes_keys_def world_wf_def)
  next
    case (Inr k)
    with keys_server_store [OF r assms] keys_server_one [of lib cert key w k w' "w_next w"] r show ?thesis
      by (simp add: makes_keys_def keys_inv_def)
  qed
qed

lemma client_makes_keys:
  assumes "world_wf w"
  shows "makes_keys lib w (ktls_keys_client lib w)"
proof -
  obtain r w' where r: "ktls_keys_client lib w = (r, w')" by fastforce
  obtain b w1 where w1: "fault w = (b, w1)" by fastforce
  have s1: "w_ctx w1 = w_ctx w" "w_next w1 = w_next w" using fault_sel [OF w1] by simp_all
  obtain r2 w2 where p: "ktls_ctx_new lib w1 = (r2, w2)" by fastforce
  have wf1: "world_wf w1" using assms s1 by (simp add: world_wf_def)
  show ?thesis
  proof (cases r)
    case (Inl f)
    then have "w_ctx w' = w_ctx w \<and> w_next w \<le> w_next w'"
      using r w1 s1 p ktls_ctx_new_store [OF p wf1]
      by (auto simp: ktls_keys_client_def fail_with_def split: if_splits sum.splits)
    with assms r Inl show ?thesis by (auto simp: makes_keys_def world_wf_def)
  next
    case (Inr k)
    then have "key_ctxs k = [k_ctx k]" using r w1 p
      by (auto simp: ktls_keys_client_def key_ctxs_def keys_zero_def fail_with_def split: if_splits sum.splits)
    with keys_client_store [OF r assms] r Inr show ?thesis
      by (simp add: makes_keys_def keys_inv_def)
  qed
qed

text \<open>The object a constructor fills at \<open>a\<close>, unless it fails.\<close>

definition store_at :: "nat \<Rightarrow> 'e + 'x \<Rightarrow> (nat \<Rightarrow> 'x) \<Rightarrow> nat \<Rightarrow> 'x" where
  "store_at a r f = (case r of Inl e \<Rightarrow> f | Inr x \<Rightarrow> f(a := x))"

lemma keys_part_make:
  assumes inv: "keys_part ks K w0 w" and a: "a \<notin> K" and made: "makes_keys lib w (r, w')"
  shows "keys_part (store_at a r ks) (if isl r then K else insert a K) w0 w'"
proof (cases r)
  case (Inl f)
  with assms keys_part_kept [OF inv] show ?thesis by (simp add: makes_keys_def store_at_def)
next
  case (Inr k)
  with made have m: "keys_shape k w'" "key_ctxs k = [w_next w]"
    "\<And>c. c \<noteq> w_next w \<Longrightarrow> w_ctx w' c = w_ctx w c" by (simp_all add: makes_keys_def)
  have "w_ctx w (w_next w) = None" using inv by (simp add: keys_part_def world_wf_def)
  with m a have "keys_part (ks(a := k)) (insert a K) w0 w'"
    by (intro keys_part_update [OF inv m(1)]) auto
  with Inr show ?thesis by (simp add: store_at_def)
qed

end
