(* ===== verification/Ktls_Members.thy ===== *)
theory Ktls_Members
  imports Ktls_Mains Ktls_Ruby_Programs Ktls_Keys_Store
begin

text \<open>
  Programs over both classes of src/include/ktls.hpp, with what their members do: the handles
  of Ktls_Handles, behind each pointer the keys or the exchange it leads to, and the
  contexts of the keys in a world. Members hand the pointer to the C function of the same name; one
  called on a handle that holds NULL follows it, so it is no step of a program.
\<close>

section \<open>The members\<close>

datatype exchange_call =
    MFeed bytes
  | MTake nat
  | MStep
  | MBacklog nat
  | MAlpn
  | MCipher
  | MCryptoInfo ktls_direction
  | MRecordSequence ktls_direction
  | MRecordLimit
  | MNextKey ktls_direction
  | MOffload int

datatype exchange_answer =
    AInt "failure + unit"
  | ABytes "failure + bytes"
  | AStep "failure + ktls_step"
  | AName "bytes option"
  | ACipher "string option"
  | AInfo "failure + ktls_info \<times> nat"
  | ACount u64

definition answered ::
    "('r \<Rightarrow> exchange_answer) \<Rightarrow> 'r \<times> 's ktls_exchange \<times> thread_err \<Rightarrow>
      exchange_answer \<times> 's ktls_exchange \<times> thread_err" where
  "answered wrap o3 = (case o3 of (r, x, t) \<Rightarrow> (wrap r, x, t))"

fun exchange_member ::
    "'s system \<Rightarrow> exchange_call \<Rightarrow> 's ktls_exchange \<Rightarrow> thread_err \<Rightarrow>
      exchange_answer \<times> 's ktls_exchange \<times> thread_err" where
  "exchange_member m (MFeed bs) x t = answered AInt (ktls_exchange_feed (sys_lib m) bs x t)"
| "exchange_member m (MTake cap) x t = answered ABytes (ktls_exchange_take (sys_lib m) cap x t)"
| "exchange_member m MStep x t = answered AStep (ktls_exchange_step (sys_lib m) (sys_abi m) x t)"
| "exchange_member m (MBacklog cap) x t = answered ABytes (ktls_exchange_backlog (sys_lib m) cap x t)"
| "exchange_member m MAlpn x t = (AName (ktls_exchange_alpn x), x, t)"
| "exchange_member m MCipher x t = (ACipher (ktls_exchange_cipher (sys_lib m) x), x, t)"
| "exchange_member m (MCryptoInfo dir) x t = answered AInfo (ktls_crypto_info (sys_lib m) x dir t)"
| "exchange_member m (MRecordSequence dir) x t = (ACount (ktls_record_sequence (sys_lib m) x dir), x, t)"
| "exchange_member m MRecordLimit x t = (ACount (ktls_record_limit x), x, t)"
| "exchange_member m (MNextKey dir) x t = answered AInt (ktls_next_key (sys_lib m) (sys_abi m) x dir t)"
| "exchange_member m (MOffload fd) x t =
     (case ktls_offload (sys_lib m) (sys_abi m) (sys_initialized m) (sys_kernel m) x fd t of
        (r, x', t', calls) \<Rightarrow> (AInt r, x', t'))"

text \<open>The bytes taken from an exchange and fed to it, as the program sees them.\<close>

fun exchange_note :: "exchange_call \<Rightarrow> exchange_answer \<Rightarrow> bytes \<times> bytes \<Rightarrow> bytes \<times> bytes" where
  "exchange_note (MFeed bs) (AInt (Inr u)) (T, F) = (T, F @ bs)"
| "exchange_note (MTake cap) (ABytes (Inr out)) (T, F) = (T @ out, F)"
| "exchange_note call a TF = TF"

section \<open>Programs\<close>

record 's cpp_program =
  cr_handles :: cpp_state
  cr_keys :: "nat \<Rightarrow> ktls_keys"
  cr_obj :: "nat \<Rightarrow> 's ktls_exchange"
  cr_log :: "nat \<Rightarrow> bytes \<times> bytes"
  cr_world :: world

definition program_start :: "world \<Rightarrow> 's cpp_program" where
  "program_start w = \<lparr> cr_handles = cpp_start, cr_keys = (\<lambda>a. keys_zero 0), cr_obj = (\<lambda>a. exchange_zero),
     cr_log = (\<lambda>a. ([], [])), cr_world = w \<rparr>"

text \<open>The pointer of a class that an assignment or a destructor frees.\<close>

definition pointer_of :: "handle_class \<Rightarrow> cpp_state \<Rightarrow> nat \<Rightarrow> nat option" where
  "pointer_of cls h v = (case c_vars h v of
     None \<Rightarrow> None
   | Some (cls', p) \<Rightarrow> if cls' = cls then p else None)"

fun freed :: "handle_class \<Rightarrow> handle_op \<Rightarrow> cpp_state \<Rightarrow> nat option" where
  "freed cls (MoveAssign v w) h = (if v \<noteq> w then pointer_of cls h v else None)"
| "freed cls (Destroy v) h = pointer_of cls h v"
| "freed cls oper h = None"

datatype cpp_event =
    Handle handle_op
  | Server nat string string
  | Client nat
  | Open nat nat ktls_role
  | OnKeys nat keys_call
  | OnExchange nat exchange_call

inductive cpp_does :: "'s system \<Rightarrow> 's cpp_program \<Rightarrow> cpp_event \<Rightarrow> 's cpp_program \<Rightarrow> bool"
  for m :: "'s system" where
  handle: "handle_step (cr_handles s) oper h \<Longrightarrow> \<forall>v cls b. oper \<noteq> Make v cls b \<Longrightarrow>
     cpp_does m s (Handle oper) (s\<lparr> cr_handles := h,
       cr_world := ktls_keys_free (map_option (cr_keys s) (freed Keys oper (cr_handles s))) (cr_world s) \<rparr>)"
| server: "ktls_keys_server (sys_ctx_lib m) cert key (cr_world s) = (r, w) \<Longrightarrow>
     handle_step (cr_handles s) (Make v Keys (\<not> isl r)) h \<Longrightarrow>
     cpp_does m s (Server v cert key) (s\<lparr> cr_handles := h, cr_world := w,
       cr_keys := store_at (h_next (c_raw (cr_handles s))) r (cr_keys s) \<rparr>)"
| client: "ktls_keys_client (sys_ctx_lib m) (cr_world s) = (r, w) \<Longrightarrow>
     handle_step (cr_handles s) (Make v Keys (\<not> isl r)) h \<Longrightarrow>
     cpp_does m s (Client v) (s\<lparr> cr_handles := h, cr_world := w,
       cr_keys := store_at (h_next (c_raw (cr_handles s))) r (cr_keys s) \<rparr>)"
| open_exchange: "c_vars (cr_handles s) u = Some (Keys, q) \<Longrightarrow>
     open_on (sys_lib m) (sys_ssl_new m) (map_option (cr_keys s) q) role (cr_world s) = (r, w) \<Longrightarrow>
     handle_step (cr_handles s) (Make v Exchange (\<not> isl r)) h \<Longrightarrow>
     cpp_does m s (Open v u role) (s\<lparr> cr_handles := h, cr_world := w,
       cr_obj := store_at (h_next (c_raw (cr_handles s))) r (cr_obj s),
       cr_log := (cr_log s)(h_next (c_raw (cr_handles s)) := ([], [])) \<rparr>)"
| on_keys: "c_vars (cr_handles s) v = Some (Keys, Some a) \<Longrightarrow>
     keys_do (sys_ctx_lib m) call (cr_keys s a) (cr_world s) = (r, k, w) \<Longrightarrow>
     cpp_does m s (OnKeys v call) (s\<lparr> cr_keys := (cr_keys s)(a := k), cr_world := w \<rparr>)"
| on_exchange: "c_vars (cr_handles s) v = Some (Exchange, Some a) \<Longrightarrow>
     exchange_member m call (cr_obj s a) (w_err (cr_world s)) = (r, x, t) \<Longrightarrow>
     cpp_does m s (OnExchange v call) (s\<lparr> cr_obj := (cr_obj s)(a := x),
       cr_log := (cr_log s)(a := exchange_note call r (cr_log s a)),
       cr_world := (cr_world s)\<lparr> w_err := t \<rparr> \<rparr>)"

inductive cpp_runs :: "'s system \<Rightarrow> world \<Rightarrow> 's cpp_program \<Rightarrow> bool" for m :: "'s system" and w :: world where
  start: "cpp_runs m w (program_start w)"
| does: "cpp_runs m w s \<Longrightarrow> cpp_does m s e s' \<Longrightarrow> cpp_runs m w s'"

section \<open>Members keep a session\<close>

lemma member_session:
  assumes "exchange_member m call x t = (a, x', t')" "session (sys_lib m) (sys_abi m) x T F"
  shows "session (sys_lib m) (sys_abi m) x' (fst (exchange_note call a (T, F))) (snd (exchange_note call a (T, F)))"
proof (cases call)
  case (MFeed bs)
  obtain r where e: "ktls_exchange_feed (sys_lib m) bs x t = (r, x', t')" "a = AInt r"
    using assms(1) MFeed by (auto simp: answered_def split: prod.splits)
  show ?thesis
    by (cases r) (use e MFeed assms(2) in \<open>auto intro: session.fed session.feed_failed\<close>)
next
  case (MTake cap)
  obtain r where e: "ktls_exchange_take (sys_lib m) cap x t = (r, x', t')" "a = ABytes r"
    using assms(1) MTake by (auto simp: answered_def split: prod.splits)
  show ?thesis
    by (cases r) (use e MTake assms(2) in \<open>auto intro: session.taken session.take_failed\<close>)
next
  case (MOffload fd)
  then obtain r calls where "ktls_offload (sys_lib m) (sys_abi m) (sys_initialized m) (sys_kernel m) x fd t =
      (r, x', t', calls)"
    using assms(1) by (auto split: prod.splits)
  from offload_exchange [OF this] assms(2) MOffload show ?thesis by (auto intro: session.informed)
qed (use assms in \<open>auto simp: answered_def intro: session.intros split: prod.splits\<close>)

section \<open>Who holds what\<close>

definition held :: "handle_class \<Rightarrow> cpp_state \<Rightarrow> nat set" where
  "held cls h = {a. \<exists>v. c_vars h v = Some (cls, Some a)}"

lemma held_live:
  assumes "handles_inv h" "a \<in> held cls h"
  shows "h_live (c_raw h) a" "a < h_next (c_raw h)"
  using assms unfolding handles_inv_def held_def owns_ptr_def by blast+

lemma held_once:
  assumes "handles_inv h" "c_vars h v = Some (cls, Some a)" "c_vars h u = Some (cls', Some a)"
  shows "u = v"
  using assms unfolding handles_inv_def owns_ptr_def by blast

text \<open>A step moves pointers about, but only these come and go.\<close>

lemma held_new:
  assumes "c_vars h v = None" "c_vars h' = (c_vars h)(v \<mapsto> (cls', p))"
  shows "held cls h' = (if cls = cls' then set_option p else {}) \<union> held cls h"
proof (intro set_eqI iffI)
  fix a
  show "a \<in> held cls h' \<Longrightarrow> a \<in> (if cls = cls' then set_option p else {}) \<union> held cls h"
    using assms(2) by (auto simp: held_def split: if_splits)
  assume "a \<in> (if cls = cls' then set_option p else {}) \<union> held cls h"
  then consider "cls = cls'" "p = Some a" | u where "c_vars h u = Some (cls, Some a)"
    by (auto simp: held_def split: if_splits)
  then show "a \<in> held cls h'"
  proof cases
    case 1
    with assms(2) have "c_vars h' v = Some (cls, Some a)" by simp
    then show ?thesis by (auto simp: held_def)
  next
    case 2
    with assms have "c_vars h' u = Some (cls, Some a)" by auto
    then show ?thesis by (auto simp: held_def)
  qed
qed

lemma held_made:
  assumes "handle_step h (Make v cls' b) h'"
  shows "held cls h' = (if b \<and> cls = cls' then insert (h_next (c_raw h)) (held cls h) else held cls h)"
  using assms
proof cases
  case (make p g)
  then have vars: "c_vars h' = (c_vars h)(v \<mapsto> (cls', if b then Some (h_next (c_raw h)) else None))"
    by (auto simp: raw_make_def split: if_splits)
  have "c_vars h v = None" using make by simp
  from held_new [OF this vars] show ?thesis by (auto split: if_splits)
qed

lemma held_given:
  assumes "c_vars h w = Some (cls', q)" "v \<noteq> w" "\<And>a. c_vars h v \<noteq> Some (cls, Some a)"
    "c_vars h' = (c_vars h)(w \<mapsto> (cls', None), v \<mapsto> (cls', q))"
  shows "held cls h' = held cls h"
proof (intro set_eqI iffI)
  fix a
  show "a \<in> held cls h' \<Longrightarrow> a \<in> held cls h"
    using assms by (auto simp: held_def split: if_splits)
  assume "a \<in> held cls h"
  then obtain u where u: "c_vars h u = Some (cls, Some a)" by (auto simp: held_def)
  with assms(3) have "u \<noteq> v" by auto
  with u assms(1,2,4) have "c_vars h' (if u = w then v else u) = Some (cls, Some a)" by auto
  then show "a \<in> held cls h'" by (auto simp: held_def)
qed

lemma held_dropped:
  assumes "handles_inv h" "c_vars h' = (c_vars h)(v := e)" "\<And>cls p. e = Some (cls, p) \<Longrightarrow> p = None"
  shows "held cls h' = held cls h - set_option (pointer_of cls h v)"
proof (intro set_eqI iffI)
  fix a
  assume "a \<in> held cls h'"
  then obtain u where u: "c_vars h u = Some (cls, Some a)" "u \<noteq> v"
    using assms(2,3) by (auto simp: held_def split: if_splits)
  have "a \<notin> set_option (pointer_of cls h v)"
  proof
    assume "a \<in> set_option (pointer_of cls h v)"
    then have "c_vars h v = Some (cls, Some a)"
      by (auto simp: pointer_of_def split: option.splits if_splits)
    with held_once [OF assms(1) u(1)] u(2) show False by blast
  qed
  with u show "a \<in> held cls h - set_option (pointer_of cls h v)" by (auto simp: held_def)
next
  fix a
  assume a: "a \<in> held cls h - set_option (pointer_of cls h v)"
  then obtain u where u: "c_vars h u = Some (cls, Some a)" by (auto simp: held_def)
  with a have "u \<noteq> v" by (auto simp: pointer_of_def)
  with u assms(2) show "a \<in> held cls h'" by (auto simp: held_def)
qed

lemma held_moved:
  assumes "handle_step h oper h'" "handles_inv h" "\<forall>v cls b. oper \<noteq> Make v cls b"
  shows "held cls h' = held cls h - set_option (freed cls oper h)"
  using assms(1)
proof cases
  case (default v cls')
  then show ?thesis using held_new [of h v h' cls' None] by simp
next
  case (make v b p g cls')
  with assms(3) show ?thesis by blast
next
  case (move_new v w cls' q p q')
  then have "v \<noteq> w" "c_vars h' = (c_vars h)(w \<mapsto> (cls', None), v \<mapsto> (cls', q))"
    by (auto simp: move_of_eq)
  with move_new held_given [of h w cls' q v cls h'] show ?thesis by simp
next
  case (move_assign v w cls' p q p' q' g)
  let ?h = "h\<lparr> c_vars := (c_vars h)(v \<mapsto> (cls', None)) \<rparr>"
  have vw: "c_vars h' = (c_vars ?h)(w \<mapsto> (cls', None), v \<mapsto> (cls', q))"
    using move_assign by (auto simp: assign_of_eq fun_eq_iff)
  have "held cls h' = held cls ?h" by (rule held_given [OF _ _ _ vw]) (use move_assign in auto)
  also have "\<dots> = held cls h - set_option (pointer_of cls h v)"
    by (rule held_dropped [OF assms(2)]) auto
  finally show ?thesis using move_assign by simp
next
  case (move_self v cls' p p' q' g)
  then have "c_vars h' = c_vars h" by (auto simp: assign_of_eq fun_eq_iff)
  with move_self show ?thesis by (simp add: held_def)
next
  case (destroy v cls' p)
  then have "c_vars h' = (c_vars h)(v := None)" by simp
  from held_dropped [OF assms(2) this] destroy show ?thesis by simp
qed

section \<open>Opening leaves the store alone\<close>

lemma open_on_store:
  assumes "open_on lib ssl_new keys role w = (r, w')"
  shows "w_ctx w' = w_ctx w" "w_next w' = w_next w"
  using assms by (auto simp: open_on_def fault_sel Let_def split: prod.splits)

section \<open>The program's invariant\<close>

definition program_inv :: "'s system \<Rightarrow> world \<Rightarrow> 's cpp_program \<Rightarrow> bool" where
  "program_inv m w0 s \<longleftrightarrow> handles_inv (cr_handles s) \<and>
     keys_part (cr_keys s) (held Keys (cr_handles s)) w0 (cr_world s) \<and>
     (\<forall>a \<in> held Exchange (cr_handles s).
        session (sys_lib m) (sys_abi m) (cr_obj s a) (fst (cr_log s a)) (snd (cr_log s a)))"

lemma held_start: "held cls cpp_start = {}"
  by (simp add: held_def cpp_start_def)

lemma program_inv_start: "world_wf w \<Longrightarrow> program_inv m w (program_start w)"
  by (simp add: program_inv_def program_start_def handles_inv_start held_start keys_part_start)

lemma held_fresh:
  assumes "handles_inv h"
  shows "h_next (c_raw h) \<notin> held cls h"
  using held_live(2) [OF assms] by blast

lemma program_inv_make:
  assumes inv: "program_inv m w0 s" and made: "makes_keys (sys_ctx_lib m) (cr_world s) (r, w)"
    and h: "handle_step (cr_handles s) (Make v Keys (\<not> isl r)) h"
  shows "program_inv m w0 (s\<lparr> cr_handles := h, cr_world := w,
    cr_keys := store_at (h_next (c_raw (cr_handles s))) r (cr_keys s) \<rparr>)"
proof -
  have hi: "handles_inv (cr_handles s)" using inv by (simp add: program_inv_def)
  have "keys_part (store_at (h_next (c_raw (cr_handles s))) r (cr_keys s)) (held Keys h) w0 w"
    using keys_part_make [OF _ held_fresh [OF hi] made] inv held_made [OF h]
    by (auto simp: program_inv_def split: if_splits)
  with inv handles_inv_step [OF h hi] held_made [OF h] show ?thesis by (simp add: program_inv_def)
qed

lemma program_inv_handle:
  assumes inv: "program_inv m w0 s" and h: "handle_step (cr_handles s) oper h"
    and oper: "\<forall>v cls b. oper \<noteq> Make v cls b"
  shows "program_inv m w0 (s\<lparr> cr_handles := h,
    cr_world := ktls_keys_free (map_option (cr_keys s) (freed Keys oper (cr_handles s))) (cr_world s) \<rparr>)"
proof -
  let ?p = "freed Keys oper (cr_handles s)"
  have hi: "handles_inv (cr_handles s)" and kp: "keys_part (cr_keys s) (held Keys (cr_handles s)) w0 (cr_world s)"
    using inv by (simp_all add: program_inv_def)
  note held = held_moved [OF h hi oper]
  have "keys_part (cr_keys s) (held Keys h) w0 (ktls_keys_free (map_option (cr_keys s) ?p) (cr_world s))"
  proof (cases ?p)
    case None
    with kp held show ?thesis by (simp add: ktls_keys_free_def)
  next
    case (Some a)
    then have "a \<in> held Keys (cr_handles s)"
      by (cases oper) (auto simp: held_def pointer_of_def split: if_splits option.splits)
    from keys_part_free [OF kp this] Some held show ?thesis by simp
  qed
  with inv handles_inv_step [OF h hi] held show ?thesis by (simp add: program_inv_def)
qed

lemma program_inv_open:
  assumes inv: "program_inv m w0 s" and h: "handle_step (cr_handles s) (Make v Exchange (\<not> isl r)) h"
    and opened: "open_on (sys_lib m) (sys_ssl_new m) keys role (cr_world s) = (r, w)"
  shows "program_inv m w0 (s\<lparr> cr_handles := h, cr_world := w,
    cr_obj := store_at (h_next (c_raw (cr_handles s))) r (cr_obj s),
    cr_log := (cr_log s)(h_next (c_raw (cr_handles s)) := ([], [])) \<rparr>)"
proof -
  let ?n = "h_next (c_raw (cr_handles s))"
  have hi: "handles_inv (cr_handles s)" and kp: "keys_part (cr_keys s) (held Keys (cr_handles s)) w0 (cr_world s)"
    using inv by (simp_all add: program_inv_def)
  have "keys_part (cr_keys s) (held Keys (cr_handles s)) w0 w"
    by (rule keys_part_kept [OF kp open_on_store(1) [OF opened]])
      (use kp open_on_store [OF opened] in \<open>simp add: keys_part_def world_wf_def\<close>)
  moreover have "session (sys_lib m) (sys_abi m) (store_at ?n r (cr_obj s) a)
      (fst (((cr_log s)(?n := ([], []))) a)) (snd (((cr_log s)(?n := ([], []))) a))"
    if a: "a \<in> held Exchange h" for a
  proof (cases "a \<in> held Exchange (cr_handles s)")
    case True
    with held_fresh [OF hi] have "a \<noteq> ?n" by blast
    with True inv show ?thesis by (simp add: program_inv_def store_at_def split: sum.splits)
  next
    case False
    with a held_made [OF h, of Exchange] have n: "a = ?n" "\<not> isl r" by (auto split: if_splits)
    then obtain x where x: "r = Inr x" by (cases r) simp_all
    obtain ssl_new a1 a2 a3 k t where
      "fst (ktls_exchange_open (sys_lib m) (ssl_new :: nat \<Rightarrow> 'a option) a1 a2 a3 k role t) = Inr x"
      by (rule open_on_opened [OF opened [unfolded x]])
    from session.opened [OF this] n x show ?thesis by (simp add: store_at_def)
  qed
  ultimately show ?thesis using handles_inv_step [OF h hi] held_made [OF h] by (simp add: program_inv_def)
qed

lemma program_inv_does:
  assumes "cpp_does m s e s'" "program_inv m w0 s"
  shows "program_inv m w0 s'"
  using assms(1)
proof cases
  case (handle oper h)
  with program_inv_handle [OF assms(2)] show ?thesis by simp
next
  case (server cert key r w v h)
  have "makes_keys (sys_ctx_lib m) (cr_world s) (r, w)"
    using server_makes_keys [of "cr_world s"] assms(2) server by (metis program_inv_def keys_part_def)
  from program_inv_make [OF assms(2) this] server show ?thesis by simp
next
  case (client r w v h)
  have "makes_keys (sys_ctx_lib m) (cr_world s) (r, w)"
    using client_makes_keys [of "cr_world s"] assms(2) client by (metis program_inv_def keys_part_def)
  from program_inv_make [OF assms(2) this] client show ?thesis by simp
next
  case (open_exchange u q role r w v h)
  with program_inv_open [OF assms(2)] show ?thesis by simp
next
  case (on_keys v a call r k w)
  then have "a \<in> held Keys (cr_handles s)" by (auto simp: held_def)
  with keys_part_call on_keys assms(2) show ?thesis by (fastforce simp: program_inv_def)
next
  case (on_exchange v a call r x t)
  then have "a \<in> held Exchange (cr_handles s)" by (auto simp: held_def)
  then have "session (sys_lib m) (sys_abi m) (cr_obj s a) (fst (cr_log s a)) (snd (cr_log s a))"
    using assms(2) by (simp add: program_inv_def)
  from member_session [OF on_exchange(4) this] have
    "session (sys_lib m) (sys_abi m) x (fst (exchange_note call r (cr_log s a))) (snd (exchange_note call r (cr_log s a)))"
    by simp
  moreover have "keys_part (cr_keys s) (held Keys (cr_handles s)) w0 ((cr_world s)\<lparr> w_err := t \<rparr>)"
    by (rule keys_part_kept [of _ _ _ "cr_world s"])
      (use assms(2) in \<open>simp_all add: program_inv_def keys_part_def world_wf_def\<close>)
  ultimately show ?thesis using on_exchange assms(2) by (simp add: program_inv_def)
qed

lemma program_inv_runs: "cpp_runs m w s \<Longrightarrow> world_wf w \<Longrightarrow> program_inv m w s"
  by (induction rule: cpp_runs.induct) (blast intro: program_inv_start program_inv_does)+

lemma handle_owner:
  assumes "handles_inv h" "c_vars h v = Some (cls, Some a)"
  shows "h_live (c_raw h) a \<and> (\<forall>u. owns_ptr h u a \<longrightarrow> u = v)"
proof -
  have "owns_ptr h v a" using assms(2) by (simp add: owns_ptr_def)
  with assms(1) show ?thesis unfolding handles_inv_def by blast
qed

text \<open>A member can be called on a handle that has a pointer.\<close>

lemma can_call_keys:
  assumes "c_vars (cr_handles s) v = Some (Keys, Some a)"
  shows "\<exists>s'. cpp_does m s (OnKeys v call) s'"
proof -
  obtain r k w where "keys_do (sys_ctx_lib m) call (cr_keys s a) (cr_world s) = (r, k, w)"
    by (metis prod.exhaust)
  from cpp_does.on_keys [OF assms this] show ?thesis by blast
qed

lemma can_call_exchange:
  assumes "c_vars (cr_handles s) v = Some (Exchange, Some a)"
  shows "\<exists>s'. cpp_does m s (OnExchange v call) s'"
proof -
  obtain r x t where "exchange_member m call (cr_obj s a) (w_err (cr_world s)) = (r, x, t)"
    by (metis prod.exhaust)
  from cpp_does.on_exchange [OF assms this] show ?thesis by blast
qed


text \<open>On a handle that holds NULL, as one moved from does, no member can be called.\<close>

lemma member_needs_pointer:
  "c_vars (cr_handles s) v = Some (cls, None) \<Longrightarrow>
     \<not> cpp_does m s (OnExchange v xcall) s' \<and> \<not> cpp_does m s (OnKeys v kcall) s'"
  by (auto elim: cpp_does.cases)

end
