(* ===== verification/Ktls_Members_Evidence.thy ===== *)
theory Ktls_Members_Evidence
  imports Ktls_Members Ktls_Mains_Evidence
begin

text \<open>
  A program over the handles, run: keys are made, an exchange opened on them and two bytes fed
  to it through its handle.
\<close>

lemma demo_make:
  assumes "c_vars h v = None"
  shows "handle_step h (Make v cls True) (h\<lparr> c_vars := (c_vars h)(v \<mapsto> (cls, Some (h_next (c_raw h)))),
    c_raw := snd (raw_make True (c_raw h)) \<rparr>)"
  by (rule handle_step.make [OF assms]) (simp add: raw_make_def)

lemma demo_cpp_run:
  obtains s where "cpp_runs demo_system world_zero s"
    "c_vars (cr_handles s) 1 = Some (Exchange, Some 1)" "cr_log s 1 = ([], [1, 2])"
proof -
  have start: "roomy world_zero" "suites_valid demo_ctx_lib (default_suites demo_ctx_lib)"
    "good_pair demo_ctx_lib ''C1'' ''K1''"
    using demo_cpp_equipped by (auto simp: well_equipped_def slurp_into_def)
  obtain k w where k: "ktls_keys_server demo_ctx_lib ''C1'' ''K1'' world_zero = (Inr k, w)"
      "calm world_zero w" "plain_keys k w"
    using keys_server_works [OF start] by blast
  obtain x where x: "open_on demo_lib (\<lambda>x. Some 0) (Some k) KTLS_SERVER w = (Inr x, w)"
    using open_on_works [OF calm_roomy [OF k(2)] k(3), of "\<lambda>x. Some (0 :: nat)"] by blast
  then have x_eq: "x = demo_open KTLS_SERVER" by (rule demo_open_on)
  let ?s0 = "program_start world_zero :: nat cpp_program"
  define h1 where "h1 = (cr_handles ?s0)\<lparr> c_vars := (c_vars (cr_handles ?s0))(0 \<mapsto> (Keys, Some 0)),
    c_raw := snd (raw_make True (c_raw (cr_handles ?s0))) \<rparr>"
  define s1 where "s1 = ?s0\<lparr> cr_handles := h1, cr_world := w, cr_keys := (cr_keys ?s0)(0 := k) \<rparr>"
  have "cpp_does demo_system ?s0 (Server 0 ''C1'' ''K1'') s1"
    using cpp_does.server [of demo_system "''C1''" "''K1''" ?s0 "Inr k" w 0 h1] k(1)
      demo_make [of "cr_handles ?s0" 0 Keys]
    by (simp add: s1_def h1_def program_start_def cpp_start_def store_at_def)
  then have r1: "cpp_runs demo_system world_zero s1" by (rule cpp_runs.does [OF cpp_runs.start])
  have v1: "c_vars h1 0 = Some (Keys, Some 0)" "c_vars h1 1 = None" "h_next (c_raw h1) = 1"
    by (simp_all add: h1_def program_start_def cpp_start_def raw_make_def)
  define h2 where "h2 = h1\<lparr> c_vars := (c_vars h1)(1 \<mapsto> (Exchange, Some 1)),
    c_raw := snd (raw_make True (c_raw h1)) \<rparr>"
  define s2 where "s2 = s1\<lparr> cr_handles := h2, cr_world := w, cr_obj := (cr_obj s1)(1 := x),
    cr_log := (cr_log s1)(1 := ([], [])) \<rparr>"
  have "cpp_does demo_system s1 (Open 1 0 KTLS_SERVER) s2"
    using cpp_does.open_exchange [of s1 0 "Some 0" demo_system KTLS_SERVER "Inr x" w 1 h2] x v1
      demo_make [of h1 1 Exchange]
    by (simp add: s1_def s2_def h2_def store_at_def)
  then have r2: "cpp_runs demo_system world_zero s2" by (rule cpp_runs.does [OF r1])
  obtain y t where y: "exchange_member demo_system (MFeed [1, 2]) (cr_obj s2 1) (w_err (cr_world s2)) =
      (AInt (Inr ()), y, t)"
    by (simp add: s2_def x_eq answered_def ktls_exchange_feed_def demo_open_def demo_lib_def bio_bytes_def Let_def c_int_def)
  have "c_vars (cr_handles s2) 1 = Some (Exchange, Some 1)" by (simp add: s2_def h2_def)
  note v2 = this
  show ?thesis
    by (rule that [OF cpp_runs.does [OF r2 cpp_does.on_exchange [OF v2 y]]])
      (use v2 in \<open>simp_all add: s2_def s1_def program_start_def\<close>)
qed


end
