(* ===== verification/Ktls_Objects.thy ===== *)
theory Ktls_Objects
  imports Ktls_Exchange
begin

text \<open>
  The objects behind one exchange: the memory of the struct, the SSL object and its two BIOs,
  from \<open>ktls_exchange_open\<close> over \<open>ktls_exchange_release\<close> to \<open>ktls_exchange_free\<close>. Ktls_Exchange has
  what the functions compute; here is who frees what.
\<close>

section \<open>Objects and pointers\<close>

datatype ossl_object = Struct | Ssl | BioIn | BioOut

text \<open>
  What is allocated, whether the SSL object owns the BIOs (\<open>SSL_set_bio\<close> has run), the pointers
  in the struct, and whether something that was not allocated was ever freed.
\<close>

record objects =
  o_alive :: "ossl_object set"
  o_owned :: bool
  o_ssl :: bool
  o_in :: bool
  o_out :: bool
  o_bad :: bool

definition no_objects :: objects where
  "no_objects = \<lparr> o_alive = {}, o_owned = False, o_ssl = False, o_in = False, o_out = False, o_bad = False \<rparr>"

definition alloc :: "ossl_object \<Rightarrow> bool \<Rightarrow> objects \<Rightarrow> objects" where
  "alloc p ok s = (if ok then s\<lparr> o_alive := insert p (o_alive s) \<rparr> else s)"

definition dealloc :: "ossl_object \<Rightarrow> objects \<Rightarrow> objects" where
  "dealloc p s = (if p \<in> o_alive s then s\<lparr> o_alive := o_alive s - {p} \<rparr> else s\<lparr> o_bad := True \<rparr>)"

text \<open>
  \<open>SSL_free\<close> frees the BIOs it was given; \<open>BIO_free\<close> on NULL does nothing. What OpenSSL keeps
  inside an object is not counted.
\<close>

definition SSL_free :: "objects \<Rightarrow> objects" where
  "SSL_free s = (let s1 = dealloc Ssl s in if o_owned s1 then dealloc BioOut (dealloc BioIn s1) else s1)"

definition BIO_free :: "ossl_object \<Rightarrow> bool \<Rightarrow> objects \<Rightarrow> objects" where
  "BIO_free b ptr s = (if ptr then dealloc b s else s)"

section \<open>The three functions\<close>

definition free_objects :: "objects \<Rightarrow> objects" where
  "free_objects s =
     (let s1 = (if o_ssl s then SSL_free s
                else BIO_free BioOut (o_out s) (BIO_free BioIn (o_in s) s))
      in dealloc Struct s1)"

text \<open>Whether an exchange is returned, and the objects; the flags say which calls have memory.\<close>

definition open_objects :: "bool \<Rightarrow> bool \<Rightarrow> bool \<Rightarrow> bool \<Rightarrow> objects \<Rightarrow> bool \<times> objects" where
  "open_objects calloc_ok ssl_ok in_ok out_ok s =
     (if \<not> calloc_ok then (False, s)
      else
        (let s1 = alloc Struct True s;
             s2 = (alloc Ssl ssl_ok s1)\<lparr> o_ssl := ssl_ok \<rparr>;
             s3 = (alloc BioIn in_ok s2)\<lparr> o_in := in_ok \<rparr>;
             s4 = (alloc BioOut out_ok s3)\<lparr> o_out := out_ok \<rparr>
         in if \<not> o_ssl s4 \<or> \<not> o_in s4 \<or> \<not> o_out s4 then (False, free_objects s4)
            else (True, s4\<lparr> o_owned := True \<rparr>)))"

definition release_objects :: "objects \<Rightarrow> objects" where
  "release_objects s =
     (if \<not> o_ssl s then s
      else (SSL_free s)\<lparr> o_ssl := False, o_in := False, o_out := False \<rparr>)"

section \<open>Who frees what\<close>

text \<open>The flags are those of Ktls_Exchange: an exchange is returned there when it is here.\<close>

lemma open_objects_opens:
  "fst (open_objects a (ssl_new k \<noteq> None) b c s) \<longleftrightarrow>
     \<not> isl (fst (ktls_exchange_open lib ssl_new a b c (Some k) role t))"
  by (cases "ssl_new k") (simp_all add: open_objects_def ktls_exchange_open_def alloc_def Let_def)

lemma release_twice: "release_objects (release_objects s) = release_objects s"
  by (simp add: release_objects_def)

lemma release_many: "(release_objects ^^ n) s = (if n = 0 then s else release_objects s)"
  by (induction n) (simp_all add: release_twice)

text \<open>
  C24: The life of an exchange, as to its memory. An opened exchange, released any number of
  times and freed, leaves nothing behind, and nothing is freed twice; a released one keeps only
  the struct. A failing open leaves nothing behind either, with one exception: when
  SSL_new has succeeded and just one of the two BIOs could not be made, the other is lost.
\<close>

theorem exchange_objects:
  assumes "open_objects calloc_ok ssl_ok in_ok out_ok no_objects = (opened, s)"
  shows "(opened \<longrightarrow> o_alive s = {Struct, Ssl, BioIn, BioOut} \<and>
      (0 < n \<longrightarrow> o_alive ((release_objects ^^ n) s) = {Struct}) \<and>
      o_alive (free_objects ((release_objects ^^ n) s)) = {} \<and>
      \<not> o_bad (free_objects ((release_objects ^^ n) s))) \<and>
    (\<not> opened \<longrightarrow> \<not> o_bad s \<and> o_alive s =
      (if calloc_ok \<and> ssl_ok \<and> in_ok \<noteq> out_ok then {if in_ok then BioIn else BioOut} else {}))"
proof -
  note defs = open_objects_def free_objects_def release_objects_def SSL_free_def BIO_free_def
    alloc_def dealloc_def no_objects_def Let_def release_many
  have "opened \<longrightarrow> o_alive s = {Struct, Ssl, BioIn, BioOut} \<and>
      (0 < n \<longrightarrow> o_alive ((release_objects ^^ n) s) = {Struct}) \<and>
      o_alive (free_objects ((release_objects ^^ n) s)) = {} \<and>
      \<not> o_bad (free_objects ((release_objects ^^ n) s))"
    using assms by (auto simp: defs split: if_splits)
  moreover have "\<not> opened \<longrightarrow> \<not> o_bad s \<and> o_alive s =
      (if calloc_ok \<and> ssl_ok \<and> in_ok \<noteq> out_ok then {if in_ok then BioIn else BioOut} else {})"
    using assms by (auto simp: defs split: if_splits)
  ultimately show ?thesis by blast
qed

theorem exchange_objects_witness:
  "o_alive (snd (open_objects True True True False no_objects)) = {BioIn} \<and>
   o_alive (free_objects ((release_objects ^^ 2) (snd (open_objects True True True True no_objects)))) = {}"
proof -
  have "\<not> fst (open_objects True True True False no_objects)" "fst (open_objects True True True True no_objects)"
    by (simp_all add: open_objects_def alloc_def Let_def)
  with exchange_objects [OF surjective_pairing, of True True True False]
    exchange_objects [OF surjective_pairing, of True True True True 2] show ?thesis by simp
qed

end
