(* ===== verification/Ktls_Ex_Index.thy ===== *)
theory Ktls_Ex_Index
  imports Ktls_Exchange
begin

text \<open>
  \<open>ktls_ex_index\<close>: the number under which OpenSSL keeps an exchange beside its SSL object, a
  static variable that every thread reads and the first one fills. A call is four steps, and
  threads take theirs in any order. What matters is that \<open>ktls_keylog\<close> asks under the number
  \<open>ktls_exchange_open\<close> has used: otherwise the secrets are lost.
\<close>

section \<open>The call, step by step\<close>

text \<open>
  Where a thread is: before the test, before \<open>SSL_get_ex_new_index\<close>, before the assignment of
  what it gave, before the return, and after it.
\<close>

datatype ex_pc = ExTest | ExAsk | ExStore int | ExRead | ExDone int

text \<open>The static variable, the next number OpenSSL gives, and the threads.\<close>

record ex_world =
  ex_idx :: int
  ex_next :: nat
  ex_at :: "nat \<Rightarrow> ex_pc"

definition ex_start :: "nat \<Rightarrow> ex_world" where
  "ex_start n = \<lparr> ex_idx = -1, ex_next = n, ex_at = (\<lambda>t. ExTest) \<rparr>"

text \<open>
  One step of thread \<open>t\<close>; \<open>granted\<close> says whether \<open>SSL_get_ex_new_index\<close>, if this is the step
  that calls it, has memory. A thread that has returned may call again.
\<close>

fun ex_turn :: "nat \<times> bool \<Rightarrow> ex_world \<Rightarrow> ex_world" where
  "ex_turn (t, granted) s =
     (case ex_at s t of
        ExTest \<Rightarrow> s\<lparr> ex_at := (ex_at s)(t := (if ex_idx s < 0 then ExAsk else ExRead)) \<rparr>
      | ExAsk \<Rightarrow>
          if granted
          then s\<lparr> ex_next := ex_next s + 1, ex_at := (ex_at s)(t := ExStore (int (ex_next s))) \<rparr>
          else s\<lparr> ex_at := (ex_at s)(t := ExStore (-1)) \<rparr>
      | ExStore i \<Rightarrow> s\<lparr> ex_idx := i, ex_at := (ex_at s)(t := ExRead) \<rparr>
      | ExRead \<Rightarrow> s\<lparr> ex_at := (ex_at s)(t := ExDone (ex_idx s)) \<rparr>
      | ExDone i \<Rightarrow> s\<lparr> ex_at := (ex_at s)(t := ExTest) \<rparr>)"

definition ex_run :: "(nat \<times> bool) list \<Rightarrow> ex_world \<Rightarrow> ex_world" where
  "ex_run sched s = fold ex_turn sched s"

section \<open>Beside the SSL object\<close>

text \<open>
  \<open>SSL_set_ex_data\<close> and \<open>SSL_get_ex_data\<close>: a pointer per number, none under a negative one.
\<close>

definition SSL_set_ex_data :: "(int \<Rightarrow> 'x option) \<Rightarrow> int \<Rightarrow> 'x \<Rightarrow> int \<Rightarrow> 'x option" where
  "SSL_set_ex_data d i x = (if i < 0 then d else d(i \<mapsto> x))"

definition SSL_get_ex_data :: "(int \<Rightarrow> 'x option) \<Rightarrow> int \<Rightarrow> 'x option" where
  "SSL_get_ex_data d i = (if i < 0 then None else d i)"

text \<open>\<open>ktls_keylog\<close> from its first line: the exchange under the number \<open>i\<close>, if there is one.\<close>

definition keylog_callback ::
    "string \<Rightarrow> int \<Rightarrow> (int \<Rightarrow> 's ktls_exchange option) \<Rightarrow> int \<Rightarrow> 's ktls_exchange option" where
  "keylog_callback line i d =
     (case SSL_get_ex_data d i of
        None \<Rightarrow> d
      | Some x \<Rightarrow> d(i \<mapsto> ktls_keylog line x))"

section \<open>Once it is settled\<close>

definition ex_settled :: "int \<Rightarrow> ex_world \<Rightarrow> bool" where
  "ex_settled i s \<longleftrightarrow> 0 \<le> i \<and> ex_idx s = i \<and> (\<forall>t. ex_at s t \<in> {ExTest, ExRead, ExDone i})"

lemma ex_settled_turn:
  assumes "ex_settled i s"
  shows "ex_settled i (ex_turn e s)"
proof -
  obtain t g where e: "e = (t, g)" by (cases e)
  consider "ex_at s t = ExTest" | "ex_at s t = ExRead" | "ex_at s t = ExDone i"
    using assms by (auto simp: ex_settled_def)
  then show ?thesis by cases (use assms in \<open>auto simp: e ex_settled_def\<close>)
qed

lemma ex_settled_run: "ex_settled i s \<Longrightarrow> ex_settled i (ex_run sched s)"
  unfolding ex_run_def by (induction sched arbitrary: s) (simp_all add: ex_settled_turn)

lemma ex_run_append: "ex_run (xs @ ys) s = ex_run ys (ex_run xs s)"
  by (simp add: ex_run_def)

text \<open>A first call that no other thread disturbs.\<close>

definition ex_alone :: "nat \<Rightarrow> (nat \<times> bool) list" where
  "ex_alone a = [(a, True), (a, True), (a, True), (a, True)]"

lemma ex_settled_first: "ex_settled (int n) (ex_run (ex_alone a) (ex_start n))"
  by (simp add: ex_settled_def ex_run_def ex_alone_def ex_start_def)

lemma ex_done_settled: "ex_settled i s \<Longrightarrow> ex_at s t = ExDone j \<Longrightarrow> j = i"
  unfolding ex_settled_def by (metis ex_pc.distinct(7,13,17,19) ex_pc.inject(2) empty_iff insertE)

text \<open>
  C25: Once a first call of ktls_ex_index has come back before any other thread entered it, every
  later call, whatever the threads do in between, gives the same number: the exchange that one
  thread opened is the one that gets each line OpenSSL logs on another.
\<close>

theorem ex_index_settles:
  assumes "ex_at (ex_run (ex_alone a @ sched) (ex_start n)) t = ExDone i"
    and "ex_at (ex_run (ex_alone a @ sched @ later) (ex_start n)) u = ExDone j"
  shows "SSL_get_ex_data (keylog_callback line j (SSL_set_ex_data d i x)) i = Some (ktls_keylog line x)"
proof -
  have done_at: "k = int n" if "ex_at (ex_run (ex_alone a @ more) (ex_start n)) v = ExDone k" for k more v
    by (rule ex_done_settled [OF ex_settled_run [OF ex_settled_first] that [unfolded ex_run_append [of "ex_alone a"]]])
  have "i = int n" "j = int n" by (rule done_at [OF assms(1)], rule done_at [OF assms(2)])
  then show ?thesis by (simp add: keylog_callback_def SSL_get_ex_data_def SSL_set_ex_data_def)
qed

section \<open>Where it is not\<close>

text \<open>
  Two threads that both pass the test before either has stored a number: the second assignment
  replaces the first, and an exchange opened in between is kept under a number nobody asks for
  again. Its own thread then loses every line.
\<close>

theorem ex_index_race:
  "\<exists>sched later i j. ex_at (ex_run sched (ex_start n)) 0 = ExDone i \<and>
     ex_at (ex_run (sched @ later) (ex_start n)) 0 = ExDone j \<and>
     (\<forall>e \<in> set (sched @ later). snd e) \<and>
     keylog_callback line j (SSL_set_ex_data (\<lambda>k. None) i x) = SSL_set_ex_data (\<lambda>k. None) i x"
proof -
  let ?sched = "[(0, True), (1, True), (0, True), (0, True), (0, True)]"
  let ?later = "[(1, True), (1, True), (0, True), (0, True), (0, True)]"
  have "ex_at (ex_run ?sched (ex_start n)) 0 = ExDone (int n)"
    "ex_at (ex_run (?sched @ ?later) (ex_start n)) 0 = ExDone (int n + 1)"
    by (simp_all add: ex_run_def ex_start_def)
  moreover have "keylog_callback line (int n + 1) (SSL_set_ex_data (\<lambda>k. None) (int n) x) =
      SSL_set_ex_data (\<lambda>k. None) (int n) x"
    by (simp add: keylog_callback_def SSL_get_ex_data_def SSL_set_ex_data_def)
  moreover have "\<forall>e \<in> set (?sched @ ?later). snd e" by simp
  ultimately show ?thesis by blast
qed

text \<open>
  And without memory for a number \<open>ktls_exchange_open\<close> succeeds all the same, with an exchange no
  line ever reaches.
\<close>

lemma ex_index_refused:
  "ex_at (ex_run [(t, True), (t, False), (t, True), (t, True)] (ex_start n)) t = ExDone (-1)"
  "SSL_get_ex_data (SSL_set_ex_data (\<lambda>k. None) (-1) x) j = None"
  by (simp_all add: ex_run_def ex_start_def SSL_get_ex_data_def SSL_set_ex_data_def)

theorem ex_index_settles_witness:
  "SSL_get_ex_data (keylog_callback ''x'' 3 (SSL_set_ex_data (\<lambda>k. None) 3 (exchange_zero :: nat ktls_exchange))) 3 =
     Some (ktls_keylog ''x'' exchange_zero)"
  by (rule ex_index_settles [where a = 0 and t = 0 and u = 1 and n = 3 and sched = "[]" and later = "[(1, True), (1, True)]"])
    (simp_all add: ex_run_def ex_start_def ex_alone_def)

end
