(* ===== verification/Ktls_Ruby_Gc.thy ===== *)
theory Ktls_Ruby_Gc
  imports Ktls_Ruby_Programs Ktls_Ruby_Keys Ktls_Keys_Store
begin

text \<open>
  Ruby programs under mruby's collector: keys and exchanges made, configured, opened, used and
  forgotten, and collected whenever it pleases the collector. An exchange's context holds a C pointer to
  the keys it was opened on, which the collector does not see; what it sees is the instance variable
  that \<open>initialize\<close> sets. The keys of an exchange a program can still use must not be collected.
\<close>

section \<open>The heap\<close>

datatype rb_ref = KeysRef nat | ExchangeRef nat

text \<open>
  The keys objects that have not been collected and what they hold, the exchange objects, for each
  of these the keys its C struct points to and the bytes taken and fed since it was opened, the
  references the rest of the program has (variables, other objects, the arguments of a running
  method), the next object, and the world of OpenSSL's contexts and the thread's last error.
\<close>

record 's rb_heap =
  rh_live :: "nat set"
  rh_keys :: "nat \<Rightarrow> ktls_keys"
  rh_objs :: "nat \<Rightarrow> 's rb_object option"
  rh_uses :: "nat \<Rightarrow> nat option"
  rh_log :: "nat \<Rightarrow> bytes \<times> bytes"
  rh_roots :: "rb_ref set"
  rh_next :: nat
  rh_world :: world

definition rb_heap_start :: "world \<Rightarrow> 's rb_heap" where
  "rb_heap_start w = \<lparr> rh_live = {}, rh_keys = (\<lambda>k. keys_zero 0), rh_objs = (\<lambda>x. None), rh_uses = (\<lambda>x. None),
     rh_log = (\<lambda>x. ([], [])), rh_roots = {}, rh_next = 0, rh_world = w \<rparr>"

text \<open>What an interpreter runs on: its methods' surroundings, and OpenSSL's contexts.\<close>

record 's rb_vm =
  vm_env :: "'s rb_env"
  vm_ctx_lib :: ctx_lib
  vm_ssl_new :: "ssl_ctx \<Rightarrow> 's option"

text \<open>\<open>SSL_new\<close> on the default context of the keys at an address, as the heap has them.\<close>

definition heap_env :: "'s rb_vm \<Rightarrow> 's rb_heap \<Rightarrow> 's rb_env" where
  "heap_env vm s = (vm_env vm)\<lparr> e_ssl_new := \<lambda>k. if k \<in> rh_live s
     then Option.bind (w_ctx (rh_world s) (k_ctx (rh_keys s k))) (vm_ssl_new vm) else None \<rparr>"

lemma heap_env_sel [simp]: "e_lib (heap_env vm s) = e_lib (vm_env vm)" "e_abi (heap_env vm s) = e_abi (vm_env vm)"
  by (simp_all add: heap_env_def)

text \<open>What the collector marks: the roots, and what an instance variable of theirs refers to.\<close>

definition marked :: "'s rb_heap \<Rightarrow> rb_ref \<Rightarrow> bool" where
  "marked s ref \<longleftrightarrow> ref \<in> rh_roots s \<or>
     (\<exists>x ob k. ExchangeRef x \<in> rh_roots s \<and> rh_objs s x = Some ob \<and> rb_keys ob = Some k \<and> ref = KeysRef k)"

text \<open>The keys a method is given, and the keys the C struct points to afterwards.\<close>

fun keys_given :: "rb_call \<Rightarrow> nat option" where
  "keys_given (RNew keysv role a b c) = keysv"
| "keys_given call = None"

fun uses_after :: "rb_call \<Rightarrow> rb_exn + rb_value \<Rightarrow> nat option \<Rightarrow> nat option" where
  "uses_after (RNew keysv role a b c) (Inr v) old = keysv"
| "uses_after call r old = old"

text \<open>Keys a constructor has made; when it raised there is no object.\<close>

definition rb_made :: "'s rb_heap \<Rightarrow> (rb_exn + ktls_keys) \<times> world \<Rightarrow> 's rb_heap" where
  "rb_made s m = (case m of (r, w) \<Rightarrow> s\<lparr> rh_live := (if isl r then rh_live s else insert (rh_next s) (rh_live s)),
     rh_keys := store_at (rh_next s) r (rh_keys s),
     rh_roots := (if isl r then rh_roots s else insert (KeysRef (rh_next s)) (rh_roots s)),
     rh_next := rh_next s + 1, rh_world := w \<rparr>)"

inductive rb_heap_step :: "'s rb_vm \<Rightarrow> 's rb_heap \<Rightarrow> 's rb_heap \<Rightarrow> bool" for vm :: "'s rb_vm" where
  server: "rb_heap_step vm s (rb_made s (keys_server (vm_ctx_lib vm) cert key (rh_world s)))"
| client: "rb_heap_step vm s (rb_made s (keys_client (vm_ctx_lib vm) (rh_world s)))"
| configure: "marked s (KeysRef k) \<Longrightarrow>
     rb_keys_do (vm_ctx_lib vm) kc (rh_keys s k) (rh_world s) = (r, keys, w) \<Longrightarrow>
     rb_heap_step vm s (s\<lparr> rh_keys := (rh_keys s)(k := keys), rh_world := w \<rparr>)"
| allocate: "rb_heap_step vm s (s\<lparr> rh_objs := (rh_objs s)(rh_next s \<mapsto> rb_allocated),
     rh_roots := insert (ExchangeRef (rh_next s)) (rh_roots s), rh_next := rh_next s + 1 \<rparr>)"
| call: "ExchangeRef x \<in> rh_roots s \<Longrightarrow> rh_objs s x = Some ob \<Longrightarrow>
     \<forall>k. keys_given c = Some k \<longrightarrow> marked s (KeysRef k) \<Longrightarrow>
     rb_do (heap_env vm s) c ob (w_err (rh_world s)) = Some (r, ob', t) \<Longrightarrow>
     rb_heap_step vm s (s\<lparr> rh_objs := (rh_objs s)(x \<mapsto> ob'), rh_world := (rh_world s)\<lparr> w_err := t \<rparr>,
       rh_uses := (rh_uses s)(x := uses_after c r (rh_uses s x)),
       rh_log := (rh_log s)(x := rb_note c r (rh_log s x)) \<rparr>)"
| keep: "marked s ref \<Longrightarrow> rb_heap_step vm s (s\<lparr> rh_roots := insert ref (rh_roots s) \<rparr>)"
| forget: "rb_heap_step vm s (s\<lparr> rh_roots := rh_roots s - {ref} \<rparr>)"
| collect_keys: "k \<in> rh_live s \<Longrightarrow> \<not> marked s (KeysRef k) \<Longrightarrow>
     rb_heap_step vm s (s\<lparr> rh_live := rh_live s - {k}, rh_world := keys_free (rh_keys s k) (rh_world s) \<rparr>)"
| collect_exchange: "\<not> marked s (ExchangeRef x) \<Longrightarrow>
     rb_heap_step vm s (s\<lparr> rh_objs := (rh_objs s)(x := None) \<rparr>)"

inductive rb_heap_reach :: "'s rb_vm \<Rightarrow> world \<Rightarrow> 's rb_heap \<Rightarrow> bool" for vm :: "'s rb_vm" and w :: world where
  start: "rb_heap_reach vm w (rb_heap_start w)"
| step: "rb_heap_reach vm w s \<Longrightarrow> rb_heap_step vm s s' \<Longrightarrow> rb_heap_reach vm w s'"

section \<open>Only initialize changes the reference\<close>

definition same_ref :: "'s rb_object \<Rightarrow> 's rb_object \<Rightarrow> bool" where
  "same_ref ob ob' \<longleftrightarrow> rb_keys ob' = rb_keys ob \<and> (rb_data ob' = None \<longleftrightarrow> rb_data ob = None)"

lemma same_ref_refl [simp]: "same_ref ob ob"
  by (simp add: same_ref_def)

lemma on_exchange_ref: "on_exchange oper val ob t = (r, ob', t') \<Longrightarrow> same_ref ob ob'"
  by (auto elim: on_exchange_cases simp: same_ref_def)

lemma ask_exchange_ref: "ask_exchange val ob t = (r, ob', t') \<Longrightarrow> same_ref ob ob'"
  by (auto elim: ask_exchange_cases)

lemma collected_ref: "collected pull ob t = Some (r, ob', t') \<Longrightarrow> same_ref ob ob'"
  by (auto elim: collected_cases simp: same_ref_def)

lemma with_direction_ref:
  assumes "with_direction d meth ob t = (r, ob', t')"
    and "\<And>dir. meth dir ob t = (r, ob', t') \<Longrightarrow> same_ref ob ob'"
  shows "same_ref ob ob'"
  using assms(1) by (cases rule: with_direction_cases) (use assms(2) in auto)

lemma exchange_offload_ref:
  "exchange_offload lib abi initialized kern fileno ob t = (r, ob', t') \<Longrightarrow> same_ref ob ob'"
  by (auto simp: exchange_offload_def dest: on_exchange_ref split: option.splits)

lemmas keeps_ref = on_exchange_ref ask_exchange_ref collected_ref exchange_offload_ref

lemma rb_do_ref:
  assumes "rb_do e c ob t = Some (r, ob', t')"
  shows "same_ref ob ob' \<and> (\<forall>old. uses_after c r old = old) \<or>
    (\<exists>k. keys_given c = Some k \<and> rb_keys ob' = Some k \<and> (\<forall>old. uses_after c r old = Some k))"
proof (cases c)
  case (RNew keysv role a b d)
  then have "exchange_init (e_lib e) (e_ssl_new e) a b d keysv role ob t = (r, ob', t')" using assms by simp
  then show ?thesis
    by (cases rule: exchange_init_cases) (use RNew in \<open>auto simp: ktls_raise_def\<close>)
next
  case (RCryptoInfo d)
  with assms show ?thesis
    by (auto simp: exchange_crypto_info_def elim!: with_direction_ref on_exchange_ref)
next
  case (RNextKey d)
  with assms show ?thesis
    by (auto simp: exchange_next_key_def elim!: with_direction_ref on_exchange_ref)
next
  case (RRecordSequence d)
  with assms show ?thesis
    by (auto simp: exchange_record_sequence_def elim!: with_direction_ref ask_exchange_ref)
qed (use assms in \<open>auto simp: exchange_feed_def exchange_take_def exchange_step_def exchange_backlog_def
    exchange_alpn_def exchange_cipher_def exchange_record_limit_def dest: keeps_ref\<close>)

section \<open>What each step keeps\<close>

text \<open>The calls on keys, with the values they return.\<close>

lemma rb_keys_do_laws:
  assumes "rb_keys_do lib c keys w = (r, keys', w')" "keys_shape keys w"
  shows "keys_shape keys' w' \<and> owns_only keys w keys' w'"
proof -
  have e: "rb_keys_effect lib c keys w = (map_sum id (\<lambda>_. ()) r, keys', w')"
    using assms(1) by (simp add: rb_keys_effect_def)
  from rkc.oper_shape [OF e assms(2)] rkc.oper_owns [OF e assms(2)] show ?thesis by simp
qed

lemma made_keys_makes:
  assumes "makes_keys lib w m"
  shows "case made_keys m of
     (Inl e, w') \<Rightarrow> w_ctx w' = w_ctx w \<and> world_wf w'
   | (Inr k, w') \<Rightarrow> makes_keys lib w (Inr k, w')"
  using assms by (auto simp: made_keys_def makes_keys_def ktls_raise_def split: prod.splits sum.splits)

definition heap_inv :: "'s rb_vm \<Rightarrow> world \<Rightarrow> 's rb_heap \<Rightarrow> bool" where
  "heap_inv vm w0 s \<longleftrightarrow>
     (\<forall>x. ExchangeRef x \<in> rh_roots s \<longrightarrow> rh_objs s x \<noteq> None) \<and>
     (\<forall>k. marked s (KeysRef k) \<longrightarrow> k \<in> rh_live s) \<and> (\<forall>k \<in> rh_live s. k < rh_next s) \<and>
     keys_part (rh_keys s) (rh_live s) w0 (rh_world s) \<and>
     (\<forall>x ob. rh_objs s x = Some ob \<longrightarrow>
        (rb_data ob \<noteq> None \<longrightarrow> rh_uses s x = rb_keys ob \<and> rb_keys ob \<noteq> None) \<and>
        rb_session (vm_env vm) ob (fst (rh_log s x)) (snd (rh_log s x)))"

lemma heap_inv_start: "world_wf w \<Longrightarrow> heap_inv vm w (rb_heap_start w)"
  by (simp add: heap_inv_def rb_heap_start_def marked_def keys_part_start)

lemma rb_allocated_empty [simp]: "rb_session e rb_allocated T F" "rb_data rb_allocated = None"
  "rb_keys rb_allocated = None"
  by (simp_all add: rb_session_def rb_allocated_def)

text \<open>A step that marks no more keys than before, and no object that was not there.\<close>

lemma heap_inv_less:
  assumes "heap_inv vm w0 s" "\<And>k. marked s' (KeysRef k) \<Longrightarrow> marked s (KeysRef k)"
    "\<And>x. ExchangeRef x \<in> rh_roots s' \<Longrightarrow> ExchangeRef x \<in> rh_roots s"
    "rh_live s' = rh_live s" "rh_keys s' = rh_keys s" "rh_objs s' = rh_objs s" "rh_uses s' = rh_uses s"
    "rh_log s' = rh_log s" "rh_next s' = rh_next s" "rh_world s' = rh_world s"
  shows "heap_inv vm w0 s'"
  using assms unfolding heap_inv_def by metis

lemma heap_inv_made:
  assumes inv: "heap_inv vm w0 s" and m: "makes_keys lib (rh_world s) m"
  shows "heap_inv vm w0 (rb_made s (made_keys m))"
proof -
  obtain r w where rw: "made_keys m = (r, w)" by fastforce
  have kp: "keys_part (rh_keys s) (rh_live s) w0 (rh_world s)" using inv by (simp add: heap_inv_def)
  have new: "rh_next s \<notin> rh_live s" using inv by (auto simp: heap_inv_def)
  have "keys_part (store_at (rh_next s) r (rh_keys s)) (if isl r then rh_live s else insert (rh_next s) (rh_live s)) w0 w"
  proof (cases r)
    case (Inl e)
    with made_keys_makes [OF m] rw keys_part_kept [OF kp] show ?thesis by (simp add: store_at_def)
  next
    case (Inr k)
    with made_keys_makes [OF m] rw have "makes_keys lib (rh_world s) (Inr k, w)" by simp
    from keys_part_make [OF kp new this] Inr show ?thesis by (simp add: store_at_def)
  qed
  with inv rw show ?thesis by (auto simp: heap_inv_def rb_made_def marked_def less_Suc_eq)
qed

lemma heap_inv_call:
  assumes inv: "heap_inv vm w0 s" and x: "ExchangeRef x \<in> rh_roots s" "rh_objs s x = Some ob"
    and given: "\<forall>k. keys_given c = Some k \<longrightarrow> marked s (KeysRef k)"
    and does: "rb_do (heap_env vm s) c ob (w_err (rh_world s)) = Some (r, ob', t)"
  shows "heap_inv vm w0 (s\<lparr> rh_objs := (rh_objs s)(x \<mapsto> ob'), rh_world := (rh_world s)\<lparr> w_err := t \<rparr>,
    rh_uses := (rh_uses s)(x := uses_after c r (rh_uses s x)),
    rh_log := (rh_log s)(x := rb_note c r (rh_log s x)) \<rparr>)" (is "heap_inv vm w0 ?s")
proof -
  have own: "marked s (KeysRef k)" if "rb_keys ob' = Some k" for k
    using rb_do_ref [OF does] that given x unfolding same_ref_def marked_def by auto
  have "marked s (KeysRef k)" if m: "marked ?s (KeysRef k)" for k
  proof -
    consider "KeysRef k \<in> rh_roots s" | "rb_keys ob' = Some k"
      | y o2 where "ExchangeRef y \<in> rh_roots s" "rh_objs s y = Some o2" "rb_keys o2 = Some k"
      using m unfolding marked_def by (auto split: if_splits)
    then show ?thesis by cases (use own in \<open>auto simp: marked_def\<close>)
  qed
  then have "\<forall>k. marked ?s (KeysRef k) \<longrightarrow> k \<in> rh_live ?s" using inv by (simp add: heap_inv_def)
  moreover have "(rb_data o2 \<noteq> None \<longrightarrow> rh_uses ?s y = rb_keys o2 \<and> rb_keys o2 \<noteq> None) \<and>
      rb_session (vm_env vm) o2 (fst (rh_log ?s y)) (snd (rh_log ?s y))"
    if "rh_objs ?s y = Some o2" for y o2
  proof (cases "y = x")
    case True
    have "rb_session (heap_env vm s) ob (fst (rh_log s x)) (snd (rh_log s x))"
      using inv x by (simp add: heap_inv_def rb_session_def)
    from rb_session_do [OF does this, of "fst (rb_note c r (rh_log s x))" "snd (rb_note c r (rh_log s x))"]
    have "rb_session (vm_env vm) ob' (fst (rb_note c r (rh_log s x))) (snd (rb_note c r (rh_log s x)))"
      by (simp add: rb_session_def)
    with True that rb_do_ref [OF does] inv x show ?thesis by (auto simp: heap_inv_def same_ref_def)
  next
    case False
    with that inv show ?thesis by (simp add: heap_inv_def)
  qed
  moreover have "keys_part (rh_keys s) (rh_live s) w0 ((rh_world s)\<lparr> w_err := t \<rparr>)"
    by (rule keys_part_kept [of _ _ _ "rh_world s"])
      (use inv in \<open>simp_all add: heap_inv_def keys_part_def world_wf_def\<close>)
  ultimately show ?thesis using inv by (simp add: heap_inv_def)
qed

lemma heap_inv_step:
  assumes "rb_heap_step vm s s'" "heap_inv vm w0 s"
  shows "heap_inv vm w0 s'"
  using assms(1)
proof cases
  case (server cert key)
  have "world_wf (rh_world s)" using assms(2) by (simp add: heap_inv_def keys_part_def)
  from heap_inv_made [OF assms(2) server_makes_keys [OF this]] server show ?thesis
    by (simp add: keys_server_def)
next
  case client
  have "world_wf (rh_world s)" using assms(2) by (simp add: heap_inv_def keys_part_def)
  from heap_inv_made [OF assms(2) client_makes_keys [OF this]] client show ?thesis
    by (simp add: keys_client_def)
next
  case (configure k kc r keys w)
  have k: "k \<in> rh_live s" and kp: "keys_part (rh_keys s) (rh_live s) w0 (rh_world s)"
    using assms(2) configure(2) by (simp_all add: heap_inv_def)
  have "keys_shape (rh_keys s k) (rh_world s)" using k kp by (simp add: keys_part_def)
  from keys_part_change [OF kp k] rb_keys_do_laws [OF configure(3) this]
  have "keys_part ((rh_keys s)(k := keys)) (rh_live s) w0 w" by simp
  with assms(2) configure show ?thesis by (simp add: heap_inv_def marked_def)
next
  case allocate
  with assms(2) show ?thesis by (auto simp: heap_inv_def marked_def less_Suc_eq split: if_splits)
next
  case (call x ob c r ob' t)
  with heap_inv_call [OF assms(2)] show ?thesis by simp
next
  case (keep ref)
  show ?thesis
  proof (cases ref)
    case (KeysRef k)
    show ?thesis by (rule heap_inv_less [OF assms(2)]) (use keep KeysRef in \<open>auto simp: marked_def\<close>)
  next
    case (ExchangeRef x)
    show ?thesis by (rule heap_inv_less [OF assms(2)]) (use keep ExchangeRef in \<open>auto simp: marked_def\<close>)
  qed
next
  case (forget ref)
  show ?thesis by (rule heap_inv_less [OF assms(2)]) (use forget in \<open>auto simp: marked_def\<close>)
next
  case (collect_keys k)
  have "keys_part (rh_keys s) (rh_live s - {k}) w0 (keys_free (rh_keys s k) (rh_world s))"
    unfolding keys_free_def by (rule keys_part_free) (use assms(2) collect_keys in \<open>simp_all add: heap_inv_def\<close>)
  with assms(2) collect_keys show ?thesis by (auto simp: heap_inv_def marked_def)
next
  case (collect_exchange x)
  with assms(2) show ?thesis by (auto simp: heap_inv_def marked_def split: if_splits)
qed

lemma heap_inv_reach: "rb_heap_reach vm w s \<Longrightarrow> world_wf w \<Longrightarrow> heap_inv vm w s"
  by (induction rule: rb_heap_reach.induct) (blast intro: heap_inv_start heap_inv_step)+

text \<open>Nothing is pinned: once the program forgets everything, all keys can be collected.\<close>

lemma roots_finite: "rb_heap_reach vm w s \<Longrightarrow> finite (rh_roots s)"
proof (induction rule: rb_heap_reach.induct)
  case start
  show ?case by (simp add: rb_heap_start_def)
next
  case (step s s')
  from step.hyps(2) step.IH show ?case
    by (cases rule: rb_heap_step.cases) (auto simp: rb_made_def split: prod.splits)
qed

lemma forget_all: "finite R \<Longrightarrow> (rb_heap_step vm)\<^sup>*\<^sup>* s (s\<lparr> rh_roots := rh_roots s - R \<rparr>)"
proof (induction R rule: finite_induct)
  case empty
  show ?case by simp
next
  case (insert ref R)
  have "rh_roots s - insert ref R = (rh_roots s - R) - {ref}" by blast
  with rtranclp.rtrancl_into_rtrancl [OF insert.IH rb_heap_step.forget [of vm _ ref]] show ?case by simp
qed

lemma collect_all:
  "finite K \<Longrightarrow> K \<subseteq> rh_live s \<Longrightarrow> rh_roots s = {} \<Longrightarrow>
     \<exists>s'. (rb_heap_step vm)\<^sup>*\<^sup>* s s' \<and> rh_live s' = rh_live s - K \<and> rh_roots s' = {}"
proof (induction K rule: finite_induct)
  case empty
  then show ?case by (intro exI [of _ s]) simp
next
  case (insert k K)
  then obtain s1 where s1: "(rb_heap_step vm)\<^sup>*\<^sup>* s s1" "rh_live s1 = rh_live s - K" "rh_roots s1 = {}" by blast
  have "k \<in> rh_live s1" "\<not> marked s1 (KeysRef k)" using s1 insert by (auto simp: marked_def)
  note step = rb_heap_step.collect_keys [OF this, of vm]
  show ?case using rtranclp.rtrancl_into_rtrancl [OF s1(1) step] s1
    by (intro exI [of _ "s1\<lparr> rh_live := rh_live s1 - {k},
      rh_world := keys_free (rh_keys s1 k) (rh_world s1) \<rparr>"]) auto
qed

lemma heap_emptied:
  assumes "rb_heap_reach vm w s" "world_wf w"
  shows "\<exists>s'. (rb_heap_step vm)\<^sup>*\<^sup>* s s' \<and> rh_live s' = {}"
proof -
  let ?t = "s\<lparr> rh_roots := {} \<rparr>"
  have t: "(rb_heap_step vm)\<^sup>*\<^sup>* s ?t" using forget_all [OF roots_finite [OF assms(1)], of vm s] by simp
  have "rh_live s \<subseteq> {..<rh_next s}" using heap_inv_reach [OF assms] by (auto simp: heap_inv_def)
  then have "finite (rh_live s)" by (rule finite_subset) simp
  then obtain s' where "(rb_heap_step vm)\<^sup>*\<^sup>* ?t s'" "rh_live s' = {}"
    using collect_all [of "rh_live s" ?t vm] by auto
  with rtranclp_trans [OF t] show ?thesis by blast
qed

section \<open>The keys stay\<close>


end
