(* ===== verification/Ktls_Ruby_Gc_Evidence.thy ===== *)
theory Ktls_Ruby_Gc_Evidence
  imports Ktls_Ruby_Gc Ktls_Ruby_Evidence
begin

text \<open>
  A server's keys and a client's are made and an exchange opened on the first; the program feeds it
  a record and forgets both keys, and the collector takes what it may. The keys in use stay, with their
  context.
\<close>

definition demo_vm :: "nat rb_vm" where
  "demo_vm = \<lparr> vm_env = chatty_env, vm_ctx_lib = demo_ctx_lib, vm_ssl_new = (\<lambda>c. Some 0) \<rparr>"

definition gc_server :: "nat rb_heap" where
  "gc_server = rb_made (rb_heap_start world_zero) (keys_server demo_ctx_lib ''C1'' ''K1'' world_zero)"

definition gc_made :: "nat rb_heap" where
  "gc_made = rb_made gc_server (keys_client demo_ctx_lib (rh_world gc_server))"

definition gc_allocated :: "nat rb_heap" where
  "gc_allocated = gc_made\<lparr> rh_objs := (rh_objs gc_made)(2 \<mapsto> rb_allocated),
     rh_roots := insert (ExchangeRef 2) (rh_roots gc_made), rh_next := 3 \<rparr>"

definition gc_opened :: "nat rb_heap" where
  "gc_opened = gc_allocated\<lparr> rh_objs := (rh_objs gc_allocated)(2 \<mapsto> rb_allocated\<lparr>
       rb_data := Some (demo_open KTLS_SERVER), rb_keys := Some 0 \<rparr>),
     rh_world := (rh_world gc_allocated)\<lparr> w_err := thread_err_zero \<rparr>,
     rh_uses := (rh_uses gc_allocated)(2 \<mapsto> 0), rh_log := (rh_log gc_allocated)(2 := ([], [])) \<rparr>"

definition gc_collected :: "nat rb_heap" where
  "gc_collected = gc_opened\<lparr> rh_roots := {ExchangeRef 2}, rh_live := {0},
     rh_world := keys_free (rh_keys gc_opened 1) (rh_world gc_opened) \<rparr>"

lemma demo_vm_sel [simp]: "vm_env demo_vm = chatty_env" "vm_ctx_lib demo_vm = demo_ctx_lib"
  "vm_ssl_new demo_vm = (\<lambda>c. Some 0)"
  by (simp_all add: demo_vm_def)

lemma gc_server_end: "gc_server = (rb_heap_start world_zero)\<lparr> rh_live := {0}, rh_roots := {KeysRef 0}, rh_next := 1,
    rh_keys := (\<lambda>k. keys_zero 0), rh_world := snd demo_made \<rparr>"
  unfolding gc_server_def keys_server_def demo_made_def [symmetric]
  by (simp add: demo_made_end made_keys_def rb_made_def store_at_def rb_heap_start_def fun_eq_iff)

lemma gc_made_end:
  "rh_live gc_made = {0, 1}" "rh_roots gc_made = {KeysRef 0, KeysRef 1}" "rh_next gc_made = 2"
  "rh_objs gc_made = (\<lambda>x. None)" "rh_uses gc_made = (\<lambda>x. None)" "w_err (rh_world gc_made) = thread_err_zero"
  "w_ctx (rh_world gc_made) 0 \<noteq> None" "rh_keys gc_made 0 = keys_zero 0"
  by (auto simp: gc_made_def gc_server_end keys_client_def ktls_keys_client_def demo_made_end run_simps
      made_keys_def rb_made_def store_at_def rb_heap_start_def world_zero_def demo_ctx_lib_def)

lemma gc_reached: "rb_heap_reach demo_vm world_zero gc_made"
  using rb_heap_reach.step [OF rb_heap_reach.step [OF rb_heap_reach.start rb_heap_step.server [of _ _ "''C1''" "''K1''"]]
      rb_heap_step.client, of demo_vm world_zero]
  by (simp add: gc_made_def gc_server_def rb_heap_start_def)

lemma gc_opened_reached: "rb_heap_reach demo_vm world_zero gc_opened"
proof -
  have a: "rb_heap_reach demo_vm world_zero gc_allocated"
    using rb_heap_reach.step [OF gc_reached rb_heap_step.allocate]
    by (simp add: gc_allocated_def gc_made_end numeral_3_eq_3 numeral_2_eq_2)
  let ?ob = "rb_allocated\<lparr> rb_data := Some (demo_open KTLS_SERVER), rb_keys := Some 0 \<rparr>"
  obtain c where c: "w_ctx (rh_world gc_made) 0 = Some c" using gc_made_end(7) by blast
  have does: "rb_do (heap_env demo_vm gc_allocated) (RNew (Some 0) ''server'' True True True) rb_allocated
      (w_err (rh_world gc_allocated)) = Some (Inr VSelf, ?ob, thread_err_zero)"
    by (simp add: c heap_env_def chatty_env_def gc_allocated_def gc_made_end keys_zero_def exchange_init_def role_of_def
        ktls_exchange_open_def demo_open_def chatty_lib_def demo_lib_def rb_allocated_def)
  have "ExchangeRef 2 \<in> rh_roots gc_allocated" "rh_objs gc_allocated 2 = Some rb_allocated"
    "\<forall>k. keys_given (RNew (Some 0) ''server'' True True True) = Some k \<longrightarrow> marked gc_allocated (KeysRef k)"
    by (simp_all add: gc_allocated_def gc_made_end marked_def)
  from rb_heap_reach.step [OF a rb_heap_step.call [OF this does]] show ?thesis
    by (simp add: gc_opened_def gc_allocated_def gc_made_end)
qed

lemma gc_collected_reached: "rb_heap_reach demo_vm world_zero gc_collected"
proof -
  let ?s = "gc_opened\<lparr> rh_roots := {ExchangeRef 2} \<rparr>"
  have s: "rb_heap_reach demo_vm world_zero ?s"
    using rb_heap_reach.step [OF rb_heap_reach.step [OF gc_opened_reached rb_heap_step.forget [of _ _ "KeysRef 0"]]
        rb_heap_step.forget [of _ _ "KeysRef 1"]]
    by (simp add: gc_opened_def gc_allocated_def gc_made_end insert_Diff_if)
  have "1 \<in> rh_live ?s" "\<not> marked ?s (KeysRef 1)"
    by (simp_all add: marked_def gc_opened_def gc_allocated_def gc_made_end)
  from rb_heap_reach.step [OF s rb_heap_step.collect_keys [OF this]] show ?thesis
    by (simp add: gc_collected_def gc_opened_def gc_allocated_def gc_made_end insert_Diff_if)
qed


end
