(* ===== verification/Ktls_Nonces.thy ===== *)
theory Ktls_Nonces
  imports Ktls_Agreement
begin

text \<open>
  What the sequence number in the blob is for: a record's nonce is the iv XOR the record's number (RFC 8446
  5.3), and an AEAD falls apart when one nonce is used twice under one key. OpenSSL encrypts the records
  before the kernel takes over and the kernel those after it, both under the key in the blob.
\<close>

section \<open>Nonces\<close>

text \<open>The record number in eight bytes, network order, padded on the left to the iv's twelve.\<close>

definition seq_bytes :: "u64 \<Rightarrow> bytes" where
  "seq_bytes q = map (\<lambda>i. ucast (drop_bit (8 * (7 - i)) q)) [0..<8]"

definition tls_nonce :: "bytes \<Rightarrow> u64 \<Rightarrow> bytes" where
  "tls_nonce v q = map2 (XOR) v (replicate 4 0 @ seq_bytes q)"

text \<open>The nonce of the kernel's record \<open>j\<close>, counted from the blob it was given.\<close>

definition kernel_nonce :: "ktls_info \<Rightarrow> nat \<Rightarrow> bytes" where
  "kernel_nonce ci j = tls_nonce (i_salt ci @ i_iv ci) (of_nat (be_nat (i_rec_seq ci)) + of_nat j)"

lemma be_nat_seq_bytes: "be_nat (seq_bytes q) = unat q"
  using be_nat_write_seq [of "replicate 8 0" q] by (simp add: write_seq_bytes seq_bytes_def)

lemma xor_same_length:
  "length a = length v \<Longrightarrow> length b = length v \<Longrightarrow> map2 (XOR) v a = map2 (XOR) v b \<Longrightarrow> a = b"
  for v :: bytes
proof (induction v arbitrary: a b)
  case Nil
  then show ?case by simp
next
  case (Cons x v)
  from Cons.prems obtain y c z d where a: "a = y # c" "b = z # d" by (cases a; cases b; simp)
  have "x XOR (x XOR y) = x XOR (x XOR z)" using Cons.prems(3) a by simp
  then have "y = z" by (simp add: bit.xor_left_self)
  with Cons.IH [of c d] Cons.prems a show ?case by simp
qed

lemma tls_nonce_inj:
  assumes "length v = 12" "tls_nonce v p = tls_nonce v q"
  shows "p = q"
proof -
  have "replicate 4 0 @ seq_bytes p = replicate 4 0 @ seq_bytes q"
    by (rule xor_same_length [of _ v]) (use assms in \<open>simp_all add: tls_nonce_def seq_bytes_def\<close>)
  then have "seq_bytes p = seq_bytes q" by simp
  then have "unat p = unat q" using be_nat_seq_bytes by metis
  then show ?thesis by (simp add: word_unat_eq_iff)
qed

lemma nonces_distinct:
  assumes "length v = 12" "n \<le> 2 ^ 64"
  shows "distinct (map (\<lambda>i. tls_nonce v (of_nat i)) [0..<n])"
proof -
  have "i = j" if "i < n" "j < n" "tls_nonce v (of_nat i) = tls_nonce v (of_nat j)" for i j
  proof -
    have "(of_nat i :: u64) = of_nat j" by (rule tls_nonce_inj [OF assms(1) that(3)])
    moreover have "i < 2 ^ 64" "j < 2 ^ 64" using that assms(2) by simp_all
    ultimately show ?thesis using unat_small by metis
  qed
  then show ?thesis by (auto simp: distinct_map inj_on_def)
qed


end
