(* ===== verification/Ktls_Nonces_Evidence.thy ===== *)
theory Ktls_Nonces_Evidence
  imports Ktls_Nonces Ktls_Evidence
begin


end
